(* ===== verification/Prelude.thy ===== *)
theory Prelude
  imports Main "HOL-Library.Word"
begin

text \<open>
  Shared vocabulary of the volclava development: the C types the components
  use, the collections of simplification rules that carry the component
  proofs, and generic facts on lists, options and words.
\<close>

section \<open>Types\<close>

text \<open>
  Addresses of heap objects are naturals, with address 0 as the C null
  pointer.  A C \<open>unsigned int\<close> is a 32 bit word.  A C \<open>int\<close> that only counts
  jobs, slots or entries is a mathematical integer; where the source relies on
  the representation of an \<open>int\<close> (status words, hash values, bit masks) a
  32 bit word is used instead.
\<close>

type_synonym addr = nat
type_synonym uint32 = "32 word"

abbreviation (input) NULL :: addr where "NULL \<equiv> 0"

section \<open>Collections of rules\<close>

named_theorems links_simps \<open>frame and splitting rules of pointer chains\<close>
named_theorems acct_simps \<open>effects of the accounting operations on single counters\<close>
named_theorems stat_simps \<open>evaluation of job status predicates on status words\<close>

section \<open>Lists\<close>

lemma last_append_Cons [simp]: "last (xs @ y # ys) = last (y # ys)"
  by simp

lemma butlast_tl_Cons: "zs \<noteq> [] \<Longrightarrow> butlast (z # zs) = z # butlast zs"
  by simp

lemma map_upd_notin [simp]: "a \<notin> set xs \<Longrightarrow> map (f(a := b)) xs = map f xs"
  by (induction xs) auto

lemma filter_neq_id: "x \<notin> set xs \<Longrightarrow> filter (\<lambda>y. y \<noteq> x) xs = xs"
  by (induction xs) auto

lemma remove1_middle: "x \<notin> set xs \<Longrightarrow> remove1 x (xs @ x # ys) = xs @ ys"
  by (simp add: remove1_append)

lemma sum_list_update:
  fixes f :: "'a \<Rightarrow> int"
  assumes "i < length xs"
  shows "(\<Sum>x\<leftarrow>xs[i := v]. f x) = (\<Sum>x\<leftarrow>xs. f x) - f (xs ! i) + f v"
  using assms by (induction xs arbitrary: i) (auto split: nat.splits)

lemma sum_list_ge_member:
  fixes f :: "'a \<Rightarrow> int"
  assumes "x \<in> set xs" and "\<And>y. y \<in> set xs \<Longrightarrow> 0 \<le> f y"
  shows "f x \<le> (\<Sum>y\<leftarrow>xs. f y)"
proof -
  from assms(1) obtain as bs where xs: "xs = as @ x # bs"
    by (meson split_list)
  have "0 \<le> (\<Sum>y\<leftarrow>as. f y)" "0 \<le> (\<Sum>y\<leftarrow>bs. f y)"
    using assms(2) by (auto simp: xs intro!: sum_list_nonneg)
  then show ?thesis by (simp add: xs)
qed

section \<open>Words\<close>

lemma unat_uint32_less: "unat (w :: uint32) < 2 ^ 32"
  using unsigned_less [of w] by simp

lemma unat_of_nat_uint32: "n < 2 ^ 32 \<Longrightarrow> unat (of_nat n :: uint32) = n"
  by (simp add: unat_of_nat take_bit_nat_eq_self)

end
