(* ===== verification/Ring_Heap.thy ===== *)
theory Ring_Heap
  imports Prelude
begin

text \<open>
  The pointer surgery on circular doubly linked lists.  The same few
  assignments appear in \<open>lsf/lib/lib.table.c\<close> (\<open>insList_\<close>, \<open>remList_\<close>,
  \<open>initList_\<close>), in \<open>lsf/intlib/list.c\<close> (\<open>listInsertEntryBefore\<close>,
  \<open>listRemoveEntry\<close>, \<open>inList\<close>, \<open>offList\<close>, \<open>mkListHeader\<close>) and in
  \<open>lsf/intlib/list2.c\<close> (\<open>listinsert\<close>, \<open>listrm\<close>).  They are modelled on an
  explicit store of forward and backward pointers, because whether they are
  right is a question of aliasing: the predecessor and the successor of the
  inserted node may be the same header.

  \<open>ring h p xs\<close> says that the header \<open>p\<close> heads a well-formed circular list
  whose entries, in the direction of the forward pointers, are \<open>xs\<close>.
\<close>

section \<open>Stores and rings\<close>

record ring_heap =
  forw :: "addr \<Rightarrow> addr"
  backw :: "addr \<Rightarrow> addr"

fun links :: "'z ring_heap_scheme \<Rightarrow> addr list \<Rightarrow> bool" where
  "links h (a # b # ys) = (forw h a = b \<and> backw h b = a \<and> links h (b # ys))"
| "links h _ = True"

definition ring :: "'z ring_heap_scheme \<Rightarrow> addr \<Rightarrow> addr list \<Rightarrow> bool" where
  "ring h p xs \<longleftrightarrow> distinct (p # xs) \<and> NULL \<notin> set (p # xs) \<and> links h (p # xs @ [p])"

lemma links_split [links_simps]:
  "links h (xs @ a # ys) \<longleftrightarrow> links h (xs @ [a]) \<and> links h (a # ys)"
  by (induction xs rule: induct_list012) auto

lemma links_frame:
  assumes "\<And>a. a \<in> set (butlast zs) \<Longrightarrow> forw h' a = forw h a"
    and "\<And>a. a \<in> set (tl zs) \<Longrightarrow> backw h' a = backw h a"
  shows "links h' zs = links h zs"
  using assms by (induction zs rule: induct_list012) auto

lemma links_last_two: "links h (xs @ [a, b]) \<Longrightarrow> forw h a = b \<and> backw h b = a"
  using links_split [of h xs a "[b]"] by simp

text \<open>
  The two neighbours of a cut of the ring: the last node before it and the
  first node after it, the header counting on both sides.
\<close>

lemma links_junction:
  assumes "links h (p # xs @ ys @ [p])"
  shows "forw h (last (p # xs)) = hd (ys @ [p])" and "backw h (hd (ys @ [p])) = last (p # xs)"
proof -
  have "p # xs = butlast (p # xs) @ [last (p # xs)]"
    by (metis append_butlast_last_id list.distinct(1))
  moreover obtain z zs where z: "ys @ [p] = z # zs"
    by (cases "ys @ [p]") auto
  ultimately have "p # xs @ ys @ [p] = butlast (p # xs) @ last (p # xs) # z # zs"
    by (metis append_Cons append_Nil append_assoc)
  with assms have "links h (last (p # xs) # z # zs)"
    using links_split [of h "butlast (p # xs)" "last (p # xs)" "z # zs"] by simp
  then show "forw h (last (p # xs)) = hd (ys @ [p])" "backw h (hd (ys @ [p])) = last (p # xs)"
    by (simp_all add: z)
qed

lemma ring_nonnull: "ring h p xs \<Longrightarrow> p \<noteq> NULL \<and> NULL \<notin> set xs"
  by (auto simp: ring_def)

lemma ring_distinct: "ring h p xs \<Longrightarrow> distinct (p # xs)"
  by (simp add: ring_def)

lemma ring_forw_header: "ring h p xs \<Longrightarrow> forw h p = hd (xs @ [p])"
  using links_junction(1) [of h p "[]" xs] by (simp add: ring_def)

lemma ring_backw_header: "ring h p xs \<Longrightarrow> backw h p = last (p # xs)"
  using links_junction(2) [of h p xs "[]"] by (simp add: ring_def)

lemma ring_forw_entry: "ring h p (xs @ a # ys) \<Longrightarrow> forw h a = hd (ys @ [p])"
  using links_junction(1) [of h p "xs @ [a]" ys] by (simp add: ring_def)

lemma ring_backw_entry: "ring h p (xs @ a # ys) \<Longrightarrow> backw h a = last (p # xs)"
  using links_junction(2) [of h p xs "a # ys"] by (simp add: ring_def)

lemma ring_empty_iff: "ring h p xs \<Longrightarrow> forw h p = p \<longleftrightarrow> xs = []"
  using ring_forw_header [of h p xs] by (cases xs) (auto simp: ring_def)

text \<open>A ring describes the store uniquely: no two entry lists fit the same header.\<close>

lemma links_unique:
  "links h (a # xs @ [p]) \<Longrightarrow> links h (a # ys @ [p]) \<Longrightarrow> p \<notin> set xs \<Longrightarrow> p \<notin> set ys \<Longrightarrow> xs = ys"
proof (induction xs arbitrary: a ys)
  case Nil
  then show ?case by (cases ys) auto
next
  case (Cons x xs)
  then obtain z zs where ys: "ys = z # zs" by (cases ys) auto
  with Cons.prems have "z = x" by auto
  with Cons ys show ?case by auto
qed

lemma ring_unique: "ring h p xs \<Longrightarrow> ring h p ys \<Longrightarrow> xs = ys"
  by (auto simp: ring_def intro: links_unique)

section \<open>The two interfaces: linking in and unlinking\<close>

text \<open>
  \<open>ring_insert\<close> is what a client of an insertion relies on: the routine writes
  the four pointers of the new entry \<open>e\<close> and of its neighbours and nothing
  else, provided \<open>e\<close> is not itself one of the neighbours.
\<close>

locale ring_insert =
  fixes ins :: "addr \<Rightarrow> addr \<Rightarrow> 'z ring_heap_scheme \<Rightarrow> 'z ring_heap_scheme"
  assumes forw_ins: "e \<noteq> s \<Longrightarrow> e \<noteq> backw h s \<Longrightarrow>
      forw (ins e s h) = (forw h)(e := s, backw h s := e)"
    and backw_ins: "e \<noteq> s \<Longrightarrow> e \<noteq> backw h s \<Longrightarrow>
      backw (ins e s h) = (backw h)(e := backw h s, s := e)"
begin

lemma links_ins:
  assumes R: "links h (p # xs @ ys @ [p])" and d: "distinct (p # xs @ ys)"
    and e: "e \<notin> set (p # xs @ ys)"
  shows "links (ins e (hd (ys @ [p])) h) (p # xs @ e # ys @ [p])"
proof -
  let ?s = "hd (ys @ [p])" and ?l = "last (p # xs)" and ?h = "ins e (hd (ys @ [p])) h"
  have l: "backw h ?s = ?l" by (rule links_junction(2) [OF R])
  have es: "e \<noteq> ?s" using e by (cases ys) auto
  have el: "e \<noteq> ?l" using e last_in_set [of "p # xs"] by auto
  have fw: "forw ?h = (forw h)(e := ?s, ?l := e)"
    using forw_ins [OF es] el l by simp
  have bw: "backw ?h = (backw h)(e := ?l, ?s := e)"
    using backw_ins [OF es] el l by simp
  obtain z zs where z: "ys @ [p] = z # zs" by (cases "ys @ [p]") auto
  have split: "p # xs @ ys @ [p] = butlast (p # xs) @ ?l # ?s # zs"
    using z append_butlast_last_id [of "p # xs"]
    by (metis append_Cons append_Nil append_assoc list.distinct(1) list.sel(1))
  have left: "links h (butlast (p # xs) @ [?l])" and right: "links h (?s # zs)"
    using R links_split [of h "butlast (p # xs)" ?l "?s # zs"] unfolding split by auto
  have lb: "butlast (p # xs) @ [?l] = p # xs" by simp
  have dl: "distinct (butlast (p # xs) @ [?l])" unfolding lb using d by auto
  have "links ?h (butlast (p # xs) @ [?l])"
  proof (rule iffD2 [OF links_frame left])
    fix a assume "a \<in> set (butlast (butlast (p # xs) @ [?l]))"
    then have a: "a \<in> set (butlast (p # xs))" by simp
    then have "a \<noteq> ?l" using dl by auto
    moreover have "a \<noteq> e" using in_set_butlastD [OF a] e by auto
    ultimately show "forw ?h a = forw h a" by (simp add: fw)
  next
    fix a assume "a \<in> set (tl (butlast (p # xs) @ [?l]))"
    then have a: "a \<in> set xs" unfolding lb by simp
    then have "a \<noteq> ?s" using d by (cases ys) auto
    with a e show "backw ?h a = backw h a" by (auto simp: bw)
  qed
  moreover have "links ?h (?s # zs)"
  proof (rule iffD2 [OF links_frame right])
    have sz: "?s # zs = ys @ [p]" using z by simp
    fix a assume "a \<in> set (butlast (?s # zs))"
    then have a: "a \<in> set ys" unfolding sz by simp
    then have "a \<noteq> ?l" using d last_in_set [of "p # xs"] by auto
    with a e show "forw ?h a = forw h a" by (auto simp: fw)
  next
    fix a assume "a \<in> set (tl (?s # zs))"
    then have a: "a \<in> set zs" by simp
    then have "a \<noteq> ?s" using d z by (cases ys) auto
    moreover have "a \<noteq> e" using a e z by (cases ys) auto
    ultimately show "backw ?h a = backw h a" by (simp add: bw)
  qed
  moreover have "forw ?h ?l = e" "backw ?h e = ?l" "forw ?h e = ?s" "backw ?h ?s = e"
    using es el by (simp_all add: fw bw)
  ultimately have "links ?h (butlast (p # xs) @ ?l # e # ?s # zs)"
    using links_split [of ?h "butlast (p # xs)" ?l "e # ?s # zs"] by simp
  moreover have "butlast (p # xs) @ ?l # e # ?s # zs = p # xs @ e # ys @ [p]"
    using z append_butlast_last_id [of "p # xs"]
    by (metis append_Cons append_Nil append_assoc list.distinct(1) list.sel(1))
  ultimately show ?thesis by simp
qed

lemma ring_ins:
  assumes "ring h p (xs @ ys)" and "e \<notin> set (p # xs @ ys)" and "e \<noteq> NULL"
  shows "ring (ins e (hd (ys @ [p])) h) p (xs @ e # ys)"
  using assms links_ins [of h p xs ys e] by (auto simp: ring_def)

lemma ring_ins_end:
  "ring h p xs \<Longrightarrow> e \<notin> set (p # xs) \<Longrightarrow> e \<noteq> NULL \<Longrightarrow> ring (ins e p h) p (xs @ [e])"
  using ring_ins [of h p xs "[]" e] by simp

lemma ring_ins_front:
  "ring h p xs \<Longrightarrow> e \<notin> set (p # xs) \<Longrightarrow> e \<noteq> NULL \<Longrightarrow> ring (ins e (forw h p) h) p (e # xs)"
  using ring_ins [of h p "[]" xs e] ring_forw_header [of h p xs] by simp

end

text \<open>
  \<open>ring_remove\<close> is what a client of an unlinking routine relies on: the
  neighbours of a linked node are joined, nothing else is written.  The node
  must really be linked: its pointers are set and do not lead back to itself.
\<close>

locale ring_remove =
  fixes rem :: "addr \<Rightarrow> 'z ring_heap_scheme \<Rightarrow> 'z ring_heap_scheme"
  assumes forw_rem: "e \<noteq> NULL \<Longrightarrow> forw h e \<noteq> NULL \<Longrightarrow> backw h e \<noteq> NULL \<Longrightarrow> backw h e \<noteq> e \<Longrightarrow>
      forw (rem e h) = (forw h)(backw h e := forw h e)"
    and backw_rem: "e \<noteq> NULL \<Longrightarrow> forw h e \<noteq> NULL \<Longrightarrow> backw h e \<noteq> NULL \<Longrightarrow> backw h e \<noteq> e \<Longrightarrow>
      backw (rem e h) = (backw h)(forw h e := backw h e)"
begin

lemma links_rem:
  assumes R: "links h (p # xs @ e # ys @ [p])" and d: "distinct (p # xs @ e # ys)"
    and n: "NULL \<notin> set (p # xs @ e # ys)"
  shows "links (rem e h) (p # xs @ ys @ [p])"
proof -
  let ?s = "hd (ys @ [p])" and ?l = "last (p # xs)" and ?h = "rem e h"
  have s: "forw h e = ?s" using links_junction(1) [of h p "xs @ [e]" ys] R by simp
  have l: "backw h e = ?l" using links_junction(2) [of h p xs "e # ys"] R by simp
  have sl: "?s \<in> set (p # xs @ e # ys)" "?l \<in> set (p # xs)" by (cases ys, auto)
  then have nz: "e \<noteq> NULL" "?s \<noteq> NULL" "?l \<noteq> NULL"
    using n by (metis Un_iff in_set_conv_decomp set_append append_Cons)+
  have "e \<notin> set (p # xs)" using d by auto
  with sl(2) have le: "?l \<noteq> e" by metis
  have fw: "forw ?h = (forw h)(?l := ?s)" using forw_rem [of e h] nz le s l by simp
  have bw: "backw ?h = (backw h)(?s := ?l)" using backw_rem [of e h] nz le s l by simp
  obtain z zs where z: "ys @ [p] = z # zs" by (cases "ys @ [p]") auto
  have lb: "butlast (p # xs) @ [?l] = p # xs" by simp
  have split: "p # xs @ e # ys @ [p] = butlast (p # xs) @ ?l # e # ?s # zs"
    using z lb by (metis append_Cons append_Nil append_assoc list.sel(1))
  have left: "links h (butlast (p # xs) @ [?l])" and right: "links h (?s # zs)"
    using R links_split [of h "butlast (p # xs)" ?l "e # ?s # zs"] unfolding split by auto
  have dl: "distinct (butlast (p # xs) @ [?l])" unfolding lb using d by auto
  have "links ?h (butlast (p # xs) @ [?l])"
  proof (rule iffD2 [OF links_frame left])
    fix a assume "a \<in> set (butlast (butlast (p # xs) @ [?l]))"
    then have "a \<noteq> ?l" using dl by auto
    then show "forw ?h a = forw h a" by (simp add: fw)
  next
    fix a assume "a \<in> set (tl (butlast (p # xs) @ [?l]))"
    then have a: "a \<in> set xs" unfolding lb by simp
    then have "a \<noteq> ?s" using d by (cases ys) auto
    then show "backw ?h a = backw h a" by (simp add: bw)
  qed
  moreover have "links ?h (?s # zs)"
  proof (rule iffD2 [OF links_frame right])
    have sz: "?s # zs = ys @ [p]" using z by simp
    fix a assume "a \<in> set (butlast (?s # zs))"
    then have a: "a \<in> set ys" unfolding sz by simp
    then have "a \<noteq> ?l" using d last_in_set [of "p # xs"] by auto
    then show "forw ?h a = forw h a" by (simp add: fw)
  next
    fix a assume "a \<in> set (tl (?s # zs))"
    then have "a \<noteq> ?s" using d z by (cases ys) auto
    then show "backw ?h a = backw h a" by (simp add: bw)
  qed
  moreover have "forw ?h ?l = ?s" "backw ?h ?s = ?l" by (simp_all add: fw bw)
  ultimately have "links ?h (butlast (p # xs) @ ?l # ?s # zs)"
    using links_split [of ?h "butlast (p # xs)" ?l "?s # zs"] by simp
  moreover have "butlast (p # xs) @ ?l # ?s # zs = p # xs @ ys @ [p]"
    using z lb by (metis append_Cons append_Nil append_assoc list.sel(1))
  ultimately show ?thesis by simp
qed

lemma ring_rem: "ring h p (xs @ e # ys) \<Longrightarrow> ring (rem e h) p (xs @ ys)"
  using links_rem [of h p xs e ys] by (auto simp: ring_def)

lemma ring_rem1: "ring h p xs \<Longrightarrow> e \<in> set xs \<Longrightarrow> ring (rem e h) p (remove1 e xs)"
proof -
  assume r: "ring h p xs" and "e \<in> set xs"
  then obtain as bs where xs: "xs = as @ e # bs" by (meson split_list)
  with r have "e \<notin> set as" by (auto simp: ring_def)
  then show ?thesis using ring_rem [of h p as e bs] r xs by (simp add: remove1_middle)
qed

end

section \<open>The routines of the three files\<close>

definition set_forw :: "addr \<Rightarrow> addr \<Rightarrow> 'z ring_heap_scheme \<Rightarrow> 'z ring_heap_scheme" where
  "set_forw a v h = h\<lparr>forw := (forw h)(a := v)\<rparr>"

definition set_backw :: "addr \<Rightarrow> addr \<Rightarrow> 'z ring_heap_scheme \<Rightarrow> 'z ring_heap_scheme" where
  "set_backw a v h = h\<lparr>backw := (backw h)(a := v)\<rparr>"

lemma set_ptr_simps [simp]:
  "forw (set_forw a v h) = (forw h)(a := v)" "backw (set_forw a v h) = backw h"
  "forw (set_backw a v h) = forw h" "backw (set_backw a v h) = (backw h)(a := v)"
  by (simp_all add: set_forw_def set_backw_def)

text \<open>\<open>lsf/lib/lib.table.c\<close>: \<open>insList_\<close>, \<open>remList_\<close>, \<open>initList_\<close> (their \<open>fwPtr\<close> and
  \<open>bwPtr\<close> are the forward and backward pointers here).\<close>

definition insList :: "addr \<Rightarrow> addr \<Rightarrow> 'z ring_heap_scheme \<Rightarrow> 'z ring_heap_scheme" where
  "insList elemPtr destPtr h =
     (let h = set_backw elemPtr (backw h destPtr) h;
          h = set_forw elemPtr destPtr h;
          h = set_forw (backw h destPtr) elemPtr h
      in set_backw destPtr elemPtr h)"

definition remList :: "addr \<Rightarrow> 'z ring_heap_scheme \<Rightarrow> 'z ring_heap_scheme" where
  "remList elemPtr h =
     (if elemPtr = NULL \<or> elemPtr = backw h elemPtr then h
      else let h = set_backw (forw h elemPtr) (backw h elemPtr) h
           in set_forw (backw h elemPtr) (forw h elemPtr) h)"

definition initList :: "addr \<Rightarrow> 'z ring_heap_scheme \<Rightarrow> 'z ring_heap_scheme" where
  "initList headPtr h = set_forw headPtr headPtr (set_backw headPtr headPtr h)"

text \<open>\<open>lsf/intlib/list.c\<close>: \<open>inList\<close> links \<open>entry\<close> in before \<open>pred\<close> (the parameter
  is called \<open>pred\<close> in the source, although the entry ends up in front of it).\<close>

definition inList :: "addr \<Rightarrow> addr \<Rightarrow> 'z ring_heap_scheme \<Rightarrow> 'z ring_heap_scheme" where
  "inList pred entry h =
     (let h = set_forw entry pred h;
          h = set_backw entry (backw h pred) h;
          h = set_forw (backw h pred) entry h
      in set_backw pred entry h)"

definition offList :: "addr \<Rightarrow> 'z ring_heap_scheme \<Rightarrow> 'z ring_heap_scheme" where
  "offList entry h =
     (let h = set_forw (backw h entry) (forw h entry) h
      in set_backw (forw h entry) (backw h entry) h)"

definition mkListHeader :: "addr \<Rightarrow> 'z ring_heap_scheme \<Rightarrow> addr \<times> 'z ring_heap_scheme" where
  "mkListHeader q h =
     (if q = NULL then (NULL, h) else (q, set_forw q q (set_backw q q h)))"

interpretation ht_ins: ring_insert insList
  by unfold_locales (auto simp: insList_def Let_def)

interpretation ht_rem: ring_remove remList
  by unfold_locales (auto simp: remList_def Let_def)

interpretation in_ins: ring_insert "\<lambda>e s. inList s e"
  by unfold_locales (auto simp: inList_def Let_def)

interpretation off_rem: ring_remove offList
  by unfold_locales (auto simp: offList_def Let_def)

lemma ring_initList: "p \<noteq> NULL \<Longrightarrow> ring (initList p h) p []"
  by (simp add: ring_def initList_def)

end
