(* ===== verification/Lsf_List.thy ===== *)
theory Lsf_List
  imports Ring_Heap
begin

text \<open>
  The list library of \<open>lsf/intlib/list.c\<close>: lists with a header that counts its
  entries and notifies observers, and iterators over them; and the second list
  library \<open>lsf/intlib/list2.c\<close>, whose header has a counter only.

  The entries are heap nodes (theory \<open>Ring_Heap\<close>).  An observer's callbacks
  are code of the list's clients: a call to one is recorded in \<open>notified\<close>, in
  order.  The list of observers of a list is itself a list of this library, to
  which entries are only appended; it is kept as a sequence of observer
  records.
\<close>

section \<open>State\<close>

abbreviation (input) LIST_EVENT_ENTER :: nat where "LIST_EVENT_ENTER \<equiv> 0"
abbreviation (input) LIST_EVENT_LEAVE :: nat where "LIST_EVENT_LEAVE \<equiv> 1"
abbreviation (input) LIST_EVENT_NULL :: nat where "LIST_EVENT_NULL \<equiv> 2"

record list_event =
  ev_type :: nat
  ev_entry :: addr

datatype list_err = LIST_NOERR | LIST_ERR_BADARG | LIST_ERR_NOMEM | LIST_ERR_NOOBSVR

record list_observer =
  ob_addr :: addr
  ob_select :: "(list_event \<Rightarrow> bool) option"
  ob_enter :: bool
  ob_leave :: bool

record lsf_heap = ring_heap +
  numEnts :: "addr \<Rightarrow> int"
  allowObservers :: "addr \<Rightarrow> bool"
  observers :: "addr \<Rightarrow> list_observer list"
  listerrno :: list_err
  notified :: "(addr \<times> addr \<times> list_event) list"

record list_iter =
  it_list :: addr
  curEnt :: addr

definition lst_ok :: "lsf_heap \<Rightarrow> addr \<Rightarrow> addr list \<Rightarrow> bool" where
  "lst_ok h l xs \<longleftrightarrow> ring h l xs \<and> numEnts h l = int (length xs)"

section \<open>Creation, observers, notification\<close>

definition listCreate :: "addr \<Rightarrow> lsf_heap \<Rightarrow> addr \<times> lsf_heap" where
  "listCreate list h =
     (if list = NULL then (NULL, h)
      else (list, (set_forw list list (set_backw list list h))
              \<lparr>numEnts := (numEnts h)(list := 0),
               allowObservers := (allowObservers h)(list := False),
               observers := (observers h)(list := [])\<rparr>))"

definition listAllowObservers :: "addr \<Rightarrow> lsf_heap \<Rightarrow> int \<times> lsf_heap" where
  "listAllowObservers list h =
     (if allowObservers h list then (0, h)
      else (0, h\<lparr>allowObservers := (allowObservers h)(list := True),
                observers := (observers h)(list := [])\<rparr>))"

definition call_observer :: "addr \<Rightarrow> list_observer \<Rightarrow> list_event \<Rightarrow> lsf_heap \<Rightarrow> lsf_heap" where
  "call_observer list ob ev h = h\<lparr>notified := notified h @ [(list, ob_addr ob, ev)]\<rparr>"

fun notifyLoop :: "addr \<Rightarrow> list_event \<Rightarrow> list_observer list \<Rightarrow> lsf_heap \<Rightarrow> int \<times> lsf_heap" where
  "notifyLoop list ev [] h = (0, h)"
| "notifyLoop list ev (ob # obs) h =
     (if (case ob_select ob of None \<Rightarrow> False | Some sel \<Rightarrow> \<not> sel ev)
      then notifyLoop list ev obs h
      else if ev_type ev = LIST_EVENT_ENTER
      then notifyLoop list ev obs (if ob_enter ob then call_observer list ob ev h else h)
      else if ev_type ev = LIST_EVENT_LEAVE
      then notifyLoop list ev obs (if ob_leave ob then call_observer list ob ev h else h)
      else (-1, h\<lparr>listerrno := LIST_ERR_BADARG\<rparr>))"

definition listNotifyObservers :: "addr \<Rightarrow> list_event \<Rightarrow> lsf_heap \<Rightarrow> int \<times> lsf_heap" where
  "listNotifyObservers list ev h = notifyLoop list ev (observers h list) h"

definition listObserverAttach :: "list_observer \<Rightarrow> addr \<Rightarrow> lsf_heap \<Rightarrow> int \<times> lsf_heap" where
  "listObserverAttach ob list h =
     (if \<not> allowObservers h list then (-1, h\<lparr>listerrno := LIST_ERR_NOOBSVR\<rparr>)
      else (0, h\<lparr>observers := (observers h)(list := observers h list @ [ob])\<rparr>))"

section \<open>Access, insertion, removal\<close>

definition LIST_IS_EMPTY :: "addr \<Rightarrow> lsf_heap \<Rightarrow> bool" where
  "LIST_IS_EMPTY list h = (forw h list = list)"

definition listGetFrontEntry :: "addr \<Rightarrow> lsf_heap \<Rightarrow> addr" where
  "listGetFrontEntry list h = (if LIST_IS_EMPTY list h then NULL else forw h list)"

definition listGetBackEntry :: "addr \<Rightarrow> lsf_heap \<Rightarrow> addr" where
  "listGetBackEntry list h = (if LIST_IS_EMPTY list h then NULL else backw h list)"

definition listInsertEntryBefore :: "addr \<Rightarrow> addr \<Rightarrow> addr \<Rightarrow> lsf_heap \<Rightarrow> int \<times> lsf_heap" where
  "listInsertEntryBefore list succ entry h =
     (let h = set_forw entry succ h;
          h = set_backw entry (backw h succ) h;
          h = set_forw (backw h succ) entry h;
          h = set_backw succ entry h;
          h = (if allowObservers h list \<and> observers h list \<noteq> []
               then snd (listNotifyObservers list
                           \<lparr>ev_type = LIST_EVENT_ENTER, ev_entry = entry\<rparr> h)
               else h)
      in (0, h\<lparr>numEnts := (numEnts h)(list := numEnts h list + 1)\<rparr>))"

definition listInsertEntryAfter :: "addr \<Rightarrow> addr \<Rightarrow> addr \<Rightarrow> lsf_heap \<Rightarrow> int \<times> lsf_heap" where
  "listInsertEntryAfter list pred entry h = listInsertEntryBefore list (forw h pred) entry h"

definition listInsertEntryAtFront :: "addr \<Rightarrow> addr \<Rightarrow> lsf_heap \<Rightarrow> int \<times> lsf_heap" where
  "listInsertEntryAtFront list entry h = listInsertEntryBefore list (forw h list) entry h"

definition listInsertEntryAtBack :: "addr \<Rightarrow> addr \<Rightarrow> lsf_heap \<Rightarrow> int \<times> lsf_heap" where
  "listInsertEntryAtBack list entry h = listInsertEntryBefore list list entry h"

definition listRemoveEntry :: "addr \<Rightarrow> addr \<Rightarrow> lsf_heap \<Rightarrow> lsf_heap" where
  "listRemoveEntry list entry h =
     (if backw h entry = NULL \<or> forw h entry = NULL then h
      else let h = set_forw (backw h entry) (forw h entry) h;
               h = set_backw (forw h entry) (backw h entry) h;
               h = (if allowObservers h list \<and> observers h list \<noteq> []
                    then snd (listNotifyObservers list
                                \<lparr>ev_type = LIST_EVENT_LEAVE, ev_entry = entry\<rparr> h)
                    else h)
           in h\<lparr>numEnts := (numEnts h)(list := numEnts h list - 1)\<rparr>)"

section \<open>Iterators and the loops over them\<close>

definition listIteratorAttach :: "addr \<Rightarrow> lsf_heap \<Rightarrow> list_iter" where
  "listIteratorAttach list h = \<lparr>it_list = list, curEnt = forw h list\<rparr>"

definition listIteratorGetCurEntry :: "list_iter \<Rightarrow> addr" where
  "listIteratorGetCurEntry iter = (if curEnt iter = it_list iter then NULL else curEnt iter)"

definition listIteratorNext :: "lsf_heap \<Rightarrow> list_iter \<Rightarrow> list_iter \<times> addr" where
  "listIteratorNext h iter =
     (let iter = iter\<lparr>curEnt := forw h (curEnt iter)\<rparr> in (iter, listIteratorGetCurEntry iter))"

definition listIteratorPrev :: "lsf_heap \<Rightarrow> list_iter \<Rightarrow> list_iter \<times> addr" where
  "listIteratorPrev h iter =
     (let iter = iter\<lparr>curEnt := backw h (curEnt iter)\<rparr> in (iter, listIteratorGetCurEntry iter))"

definition listIteratorIsEndOfList :: "list_iter \<Rightarrow> bool" where
  "listIteratorIsEndOfList iter = (curEnt iter = it_list iter)"

partial_function (option) searchLoop ::
    "(addr \<Rightarrow> bool) \<Rightarrow> lsf_heap \<Rightarrow> list_iter \<Rightarrow> addr \<Rightarrow> addr option" where
  [code]: "searchLoop eq h iter ent =
     (if ent = NULL then Some NULL
      else if eq ent then Some ent
      else searchLoop eq h (fst (listIteratorNext h iter)) (snd (listIteratorNext h iter)))"

definition listSearchEntry :: "addr \<Rightarrow> (addr \<Rightarrow> bool) \<Rightarrow> lsf_heap \<Rightarrow> addr option" where
  "listSearchEntry list eq h =
     (let iter = listIteratorAttach list h in searchLoop eq h iter (listIteratorGetCurEntry iter))"

text \<open>
  \<open>list2Vector\<close> writes the entries it visits into a vector, here the list of
  the visited entries.  The direction is a bit mask (1 forward, 2 backward):
  the backward bit chooses where to start, the forward bit how to go on.
\<close>

partial_function (option) vectorLoop ::
    "bool \<Rightarrow> lsf_heap \<Rightarrow> list_iter \<Rightarrow> addr \<Rightarrow> addr list \<Rightarrow> addr list option" where
  [code]: "vectorLoop fwd h iter ent vec =
     (if ent = NULL then Some vec
      else let nx = (if fwd then listIteratorNext h iter else listIteratorPrev h iter)
           in vectorLoop fwd h (fst nx) (snd nx) (vec @ [ent]))"

definition list2Vector :: "addr \<Rightarrow> nat \<Rightarrow> lsf_heap \<Rightarrow> addr list option" where
  "list2Vector list direction h =
     (let direction = (if direction = 0 then 1 else direction);
          iter = listIteratorAttach list h;
          iter = (if odd (direction div 2) then iter\<lparr>curEnt := listGetBackEntry list h\<rparr> else iter)
      in vectorLoop (odd direction) h iter (listIteratorGetCurEntry iter) [])"

text \<open>
  \<open>listIteratorSetCurEntry\<close> with validation walks from the front entry.  On an
  empty list the front entry is the null pointer and the walk reads through
  it: the model's \<open>None\<close> is that crash (or a walk that does not end).
\<close>

partial_function (option) validateLoop ::
    "lsf_heap \<Rightarrow> addr \<Rightarrow> list_iter \<Rightarrow> addr \<Rightarrow> bool option" where
  [code]: "validateLoop h entry iter ent =
     (if listIteratorIsEndOfList iter then Some False
      else if ent = entry then Some True
      else if curEnt iter = NULL then None
      else validateLoop h entry (fst (listIteratorNext h iter)) (snd (listIteratorNext h iter)))"

definition listIteratorSetCurEntry ::
    "list_iter \<Rightarrow> addr \<Rightarrow> bool \<Rightarrow> lsf_heap \<Rightarrow> (int \<times> list_iter \<times> lsf_heap) option" where
  "listIteratorSetCurEntry iter entry validateEnt h =
     (if validateEnt
      then let it = iter\<lparr>curEnt := listGetFrontEntry (it_list iter) h\<rparr>
           in (case validateLoop h entry it (listIteratorGetCurEntry it) of
                 None \<Rightarrow> None
               | Some found \<Rightarrow>
                   if \<not> found then Some (-1, iter, h\<lparr>listerrno := LIST_ERR_BADARG\<rparr>)
                   else Some (0, iter\<lparr>curEnt := entry\<rparr>, h))
      else Some (0, iter\<lparr>curEnt := entry\<rparr>, h))"

partial_function (option) destroyLoop ::
    "addr \<Rightarrow> lsf_heap \<Rightarrow> addr list \<Rightarrow> (addr list \<times> lsf_heap) option" where
  [code]: "destroyLoop list h freed =
     (if LIST_IS_EMPTY list h then Some (freed, h)
      else destroyLoop list (listRemoveEntry list (forw h list) h) (freed @ [forw h list]))"

text \<open>
  What \<open>listDestroy\<close> gives back, in order: the entries, each by the destructor it
  is passed; then, for a list that allows observers, the observers (name and
  record each, \<open>listObserverDestroy\<close>) and the name and header of the list of
  observers; last the name and the header of the list itself.  A list of
  observers and its observers' names are known by the list and the observer
  that own them.  The store keeps whatever released memory held last.
\<close>

datatype released =
    REntry addr | RObserverName addr | RObserver addr | RObserversName addr | RObservers addr
  | RName addr | RHeader addr

definition listObserverDestroy :: "list_observer \<Rightarrow> released list" where
  "listObserverDestroy ob = [RObserverName (ob_addr ob), RObserver (ob_addr ob)]"

fun observersDestroy :: "addr \<Rightarrow> list_observer list \<Rightarrow> released list" where
  "observersDestroy list [] = [RObserversName list, RObservers list]"
| "observersDestroy list (ob # obs) = listObserverDestroy ob @ observersDestroy list obs"

definition listDestroy :: "addr \<Rightarrow> lsf_heap \<Rightarrow> (released list \<times> lsf_heap) option" where
  "listDestroy list h =
     (case destroyLoop list h [] of
        None \<Rightarrow> None
      | Some (freed, h) \<Rightarrow>
          Some (map REntry freed @
                (if allowObservers h list then observersDestroy list (observers h list) else []) @
                [RName list, RHeader list], h))"

section \<open>The second list library\<close>

definition listinsert :: "addr \<Rightarrow> addr \<Rightarrow> addr \<Rightarrow> lsf_heap \<Rightarrow> int \<times> lsf_heap" where
  "listinsert hp e e2 h =
     (let h = set_forw (backw h e) e2 h;
          h = set_backw e2 (backw h e) h;
          h = set_backw e e2 h;
          h = set_forw e2 e h;
          h = h\<lparr>numEnts := (numEnts h)(hp := numEnts h hp + 1)\<rparr>
      in (numEnts h hp, h))"

definition listpush :: "addr \<Rightarrow> addr \<Rightarrow> lsf_heap \<Rightarrow> lsf_heap" where
  "listpush hp e h = snd (listinsert hp hp e h)"

definition listenque :: "addr \<Rightarrow> addr \<Rightarrow> lsf_heap \<Rightarrow> lsf_heap" where
  "listenque hp e h = snd (listinsert hp (forw h hp) e h)"

definition listrm :: "addr \<Rightarrow> addr \<Rightarrow> lsf_heap \<Rightarrow> addr \<times> lsf_heap" where
  "listrm hp e h =
     (if numEnts h hp = 0 then (NULL, h)
      else let h = set_forw (backw h e) (forw h e) h;
               h = set_backw (forw h e) (backw h e) h
           in (e, h\<lparr>numEnts := (numEnts h)(hp := numEnts h hp - 1)\<rparr>))"

definition listpop :: "addr \<Rightarrow> lsf_heap \<Rightarrow> addr \<times> lsf_heap" where
  "listpop hp h = (if forw h hp = hp then (NULL, h) else listrm hp (backw h hp) h)"

definition listdeque :: "addr \<Rightarrow> lsf_heap \<Rightarrow> addr \<times> lsf_heap" where
  "listdeque hp h = (if forw h hp = hp then (NULL, h) else listrm hp (forw h hp) h)"

partial_function (option) insertsortLoop ::
    "(addr \<Rightarrow> addr \<Rightarrow> int) \<Rightarrow> addr \<Rightarrow> addr \<Rightarrow> addr \<Rightarrow> lsf_heap \<Rightarrow> lsf_heap option" where
  [code]: "insertsortLoop cmp L e l h =
     (if l = L then Some (listenque L e h)
      else if cmp e l \<le> 0 then Some (snd (listinsert L (forw h l) e h))
      else insertsortLoop cmp L e (backw h l) h)"

definition listinsertsort ::
    "(addr \<Rightarrow> addr \<Rightarrow> int) \<Rightarrow> addr \<Rightarrow> addr \<Rightarrow> lsf_heap \<Rightarrow> (int \<times> lsf_heap) option" where
  "listinsertsort cmp L e h =
     (if L = NULL then Some (-1, h)
      else if numEnts h L = 0 then Some (0, listpush L e h)
      else map_option (Pair 0) (insertsortLoop cmp L e (backw h L) h))"


section \<open>Lemmas: insertion and removal\<close>

lemma set_ptr_fields [simp]:
  "numEnts (set_forw a v h) = numEnts h" "numEnts (set_backw a v h) = numEnts h"
  "observers (set_forw a v h) = observers h" "observers (set_backw a v h) = observers h"
  "allowObservers (set_forw a v h) = allowObservers h"
  "allowObservers (set_backw a v h) = allowObservers h"
  "notified (set_forw a v h) = notified h" "notified (set_backw a v h) = notified h"
  by (simp_all add: set_forw_def set_backw_def)

lemma notifyLoop_frame [simp]:
  "forw (snd (notifyLoop l ev obs h)) = forw h"
  "backw (snd (notifyLoop l ev obs h)) = backw h"
  "numEnts (snd (notifyLoop l ev obs h)) = numEnts h"
  "observers (snd (notifyLoop l ev obs h)) = observers h"
  "allowObservers (snd (notifyLoop l ev obs h)) = allowObservers h"
  by (induction l ev obs h rule: notifyLoop.induct) (auto simp: call_observer_def)

lemma ring_cong: "forw h' = forw h \<Longrightarrow> backw h' = backw h \<Longrightarrow> ring h' p xs = ring h p xs"
  using links_frame [of "p # xs @ [p]" h' h] by (simp add: ring_def)

lemma numEnts_insert [simp]:
  "numEnts (snd (listInsertEntryBefore l s e h)) = (numEnts h)(l := numEnts h l + 1)"
  by (simp add: listInsertEntryBefore_def listNotifyObservers_def Let_def)

lemma numEnts_remove:
  "backw h e \<noteq> NULL \<Longrightarrow> forw h e \<noteq> NULL \<Longrightarrow>
   numEnts (listRemoveEntry l e h) = (numEnts h)(l := numEnts h l - 1)"
  by (simp add: listRemoveEntry_def listNotifyObservers_def Let_def)

interpretation lst_ins: ring_insert "\<lambda>e s h. snd (listInsertEntryBefore l s e h)"
  by unfold_locales (auto simp: listInsertEntryBefore_def listNotifyObservers_def Let_def)

interpretation lst_rem: ring_remove "listRemoveEntry l"
  by unfold_locales (auto simp: listRemoveEntry_def listNotifyObservers_def Let_def)

interpretation lst2_ins: ring_insert "\<lambda>e s h. snd (listinsert l s e h)"
  by unfold_locales (auto simp: listinsert_def Let_def)

lemma ring_entry_nonnull:
  assumes "ring h p (xs @ e # ys)"
  shows "e \<noteq> NULL" and "forw h e \<noteq> NULL" and "backw h e \<noteq> NULL"
proof -
  note n = ring_nonnull [OF assms]
  from n show "e \<noteq> NULL" by auto
  have "forw h e \<in> insert p (set (xs @ e # ys))"
    by (cases ys) (simp_all add: ring_forw_entry [OF assms])
  with n show "forw h e \<noteq> NULL" by (metis insertE)
  have "backw h e \<in> insert p (set (xs @ e # ys))"
    by (simp add: ring_backw_entry [OF assms])
  with n show "backw h e \<noteq> NULL" by (metis insertE)
qed

lemma lst_ok_insert_before:
  assumes "lst_ok h l (xs @ ys)" and "e \<notin> set (l # xs @ ys)" and "e \<noteq> NULL"
  shows "lst_ok (snd (listInsertEntryBefore l (hd (ys @ [l])) e h)) l (xs @ e # ys)"
  using assms lst_ins.ring_ins [of h l xs ys e l] by (simp add: lst_ok_def)

lemma lst_ok_remove:
  assumes "lst_ok h l (xs @ e # ys)"
  shows "lst_ok (listRemoveEntry l e h) l (xs @ ys)"
  using assms lst_rem.ring_rem [of h l xs e ys l] ring_entry_nonnull [of h l xs e ys]
  by (simp add: lst_ok_def numEnts_remove)

section \<open>Lemmas: the loops walk the whole list\<close>

text \<open>
  An iterator standing on the entries \<open>ys\<close> that are still to come: its current
  node is their first, or the header when none is left.
\<close>

definition at_suffix :: "addr \<Rightarrow> addr list \<Rightarrow> list_iter \<Rightarrow> bool" where
  "at_suffix l ys iter \<longleftrightarrow> it_list iter = l \<and> curEnt iter = hd (ys @ [l])"

lemma cur_at_suffix:
  assumes "at_suffix l ys iter" and "l \<notin> set ys"
  shows "listIteratorGetCurEntry iter = (case ys of [] \<Rightarrow> NULL | y # _ \<Rightarrow> y)"
  using assms by (auto simp: at_suffix_def listIteratorGetCurEntry_def split: list.splits)

lemma next_at_suffix:
  assumes "ring h l (xs @ y # ys)" and "at_suffix l (y # ys) iter"
  shows "at_suffix l ys (fst (listIteratorNext h iter))"
    and "snd (listIteratorNext h iter) = (case ys of [] \<Rightarrow> NULL | z # _ \<Rightarrow> z)"
proof -
  from assms show "at_suffix l ys (fst (listIteratorNext h iter))"
    using ring_forw_entry [of h l xs y ys]
    by (simp add: at_suffix_def listIteratorNext_def Let_def)
  moreover have "l \<notin> set ys" using ring_distinct [OF assms(1)] by auto
  ultimately show "snd (listIteratorNext h iter) = (case ys of [] \<Rightarrow> NULL | z # _ \<Rightarrow> z)"
    using cur_at_suffix by (auto simp: listIteratorNext_def Let_def)
qed

lemma attach_at_suffix: "ring h l xs \<Longrightarrow> at_suffix l xs (listIteratorAttach l h)"
  by (simp add: at_suffix_def listIteratorAttach_def ring_forw_header)

lemma searchLoop_ring:
  assumes "ring h l (xs @ ys)" and "at_suffix l ys iter"
  shows "searchLoop eq h iter (case ys of [] \<Rightarrow> NULL | y # _ \<Rightarrow> y) =
           Some (case find eq ys of None \<Rightarrow> NULL | Some e \<Rightarrow> e)"
  using assms
proof (induction ys arbitrary: xs iter)
  case Nil
  then show ?case by (simp add: searchLoop.simps)
next
  case (Cons y ys)
  have "ring h l ((xs @ [y]) @ ys)" using Cons.prems(1) by simp
  then have "searchLoop eq h (fst (listIteratorNext h iter)) (snd (listIteratorNext h iter)) =
      Some (case find eq ys of None \<Rightarrow> NULL | Some e \<Rightarrow> e)"
    using Cons.IH next_at_suffix [OF Cons.prems] by metis
  moreover have "y \<noteq> NULL" using ring_nonnull [OF Cons.prems(1)] by auto
  ultimately show ?case by (simp add: searchLoop.simps [of eq h iter y])
qed

lemma listSearchEntry_find:
  assumes "ring h l xs"
  shows "listSearchEntry l eq h = Some (case find eq xs of None \<Rightarrow> NULL | Some e \<Rightarrow> e)"
proof -
  have "l \<notin> set xs" using ring_distinct [OF assms] by simp
  with assms show ?thesis
    using searchLoop_ring [of h l "[]" xs "listIteratorAttach l h" eq]
      attach_at_suffix [OF assms] cur_at_suffix [OF attach_at_suffix [OF assms]]
    by (simp add: listSearchEntry_def Let_def)
qed

lemma vectorLoop_forward:
  assumes "ring h l (xs @ ys)" and "at_suffix l ys iter"
  shows "vectorLoop True h iter (case ys of [] \<Rightarrow> NULL | y # _ \<Rightarrow> y) vec = Some (vec @ ys)"
  using assms
proof (induction ys arbitrary: xs iter vec)
  case Nil
  then show ?case by (simp add: vectorLoop.simps)
next
  case (Cons y ys)
  have "ring h l ((xs @ [y]) @ ys)" using Cons.prems(1) by simp
  then have "vectorLoop True h (fst (listIteratorNext h iter)) (snd (listIteratorNext h iter))
      (vec @ [y]) = Some ((vec @ [y]) @ ys)"
    using Cons.IH next_at_suffix [OF Cons.prems] by metis
  moreover have "y \<noteq> NULL" using ring_nonnull [OF Cons.prems(1)] by auto
  ultimately show ?case by (simp add: vectorLoop.simps [of True h iter y])
qed

lemma vectorLoop_backward:
  assumes "ring h l (ys @ xs)" and "it_list iter = l" and "curEnt iter = last (l # ys)"
  shows "vectorLoop False h iter (if ys = [] then NULL else last ys) vec = Some (vec @ rev ys)"
  using assms
proof (induction ys arbitrary: xs iter vec rule: rev_induct)
  case Nil
  then show ?case by (simp add: vectorLoop.simps)
next
  case (snoc y ys)
  have r: "ring h l (ys @ y # xs)" using snoc.prems(1) by simp
  let ?it = "fst (listIteratorPrev h iter)"
  have cur: "curEnt iter = y" using snoc.prems(3) by simp
  have it: "it_list ?it = l" "curEnt ?it = last (l # ys)"
    using snoc.prems(2) ring_backw_entry [OF r] cur by (simp_all add: listIteratorPrev_def Let_def)
  have nx: "snd (listIteratorPrev h iter) = (if ys = [] then NULL else last ys)"
  proof -
    have "l \<notin> set ys" using ring_distinct [OF r] by simp
    then have "ys \<noteq> [] \<Longrightarrow> last ys \<noteq> l" by auto
    then show ?thesis using it
      by (auto simp: listIteratorPrev_def listIteratorGetCurEntry_def Let_def)
  qed
  have "vectorLoop False h ?it (if ys = [] then NULL else last ys) (vec @ [y]) =
      Some ((vec @ [y]) @ rev ys)"
    using snoc.IH [OF r it] by simp
  moreover have "y \<noteq> NULL" using ring_nonnull [OF r] by auto
  ultimately show ?case by (simp add: vectorLoop.simps [of False h iter y] nx)
qed

lemma list2Vector_backward:
  assumes r: "ring h l xs"
  shows "list2Vector l 2 h = Some (rev xs)"
proof (cases "xs = []")
  case True
  with r have "forw h l = l" by (simp add: ring_empty_iff)
  moreover have "l \<noteq> NULL" using ring_nonnull [OF r] by simp
  ultimately show ?thesis using True
    by (simp add: list2Vector_def listGetBackEntry_def LIST_IS_EMPTY_def Let_def
        listIteratorAttach_def listIteratorGetCurEntry_def vectorLoop.simps)
next
  case False
  with r have "listGetBackEntry l h = last xs"
    using ring_empty_iff [OF r] ring_backw_header [OF r]
    by (simp add: listGetBackEntry_def LIST_IS_EMPTY_def)
  moreover have "last xs \<noteq> l" using False ring_distinct [OF r] by auto
  ultimately show ?thesis
    using False r vectorLoop_backward [of h l xs "[]" "\<lparr>it_list = l, curEnt = last xs\<rparr>" "[]"]
    by (simp add: list2Vector_def Let_def listIteratorAttach_def listIteratorGetCurEntry_def)
qed

lemma list2Vector_forward: "ring h l xs \<Longrightarrow> list2Vector l 1 h = Some xs"
  using vectorLoop_forward [of h l "[]" xs "listIteratorAttach l h" "[]"]
    attach_at_suffix [of h l xs] cur_at_suffix [of l xs "listIteratorAttach l h"]
    ring_distinct [of h l xs]
  by (simp add: list2Vector_def Let_def)

section \<open>Lemmas: validation and destruction\<close>

lemma validateLoop_ring:
  assumes "ring h l (xs @ ys)" and "at_suffix l ys iter"
  shows "validateLoop h e iter (case ys of [] \<Rightarrow> NULL | y # _ \<Rightarrow> y) = Some (e \<in> set ys)"
  using assms
proof (induction ys arbitrary: xs iter)
  case Nil
  then show ?case
    by (simp add: validateLoop.simps listIteratorIsEndOfList_def at_suffix_def)
next
  case (Cons y ys)
  have "ring h l ((xs @ [y]) @ ys)" using Cons.prems(1) by simp
  then have "validateLoop h e (fst (listIteratorNext h iter)) (snd (listIteratorNext h iter)) =
      Some (e \<in> set ys)"
    using Cons.IH next_at_suffix [OF Cons.prems] by metis
  moreover have "y \<noteq> NULL" "y \<noteq> l"
    using ring_nonnull [OF Cons.prems(1)] ring_distinct [OF Cons.prems(1)] by auto
  ultimately show ?case using Cons.prems(2)
    by (simp add: validateLoop.simps [of h e iter y] listIteratorIsEndOfList_def at_suffix_def)
qed

lemma listIteratorSetCurEntry_validated:
  assumes r: "ring h l xs" and ne: "xs \<noteq> []" and it: "it_list iter = l"
  shows "listIteratorSetCurEntry iter e True h =
    Some (if e \<in> set xs then (0, iter\<lparr>curEnt := e\<rparr>, h)
          else (-1, iter, h\<lparr>listerrno := LIST_ERR_BADARG\<rparr>))"
proof -
  let ?it = "iter\<lparr>curEnt := listGetFrontEntry (it_list iter) h\<rparr>"
  have at: "at_suffix l xs ?it"
    using r ne it ring_empty_iff [OF r] ring_forw_header [OF r]
    by (simp add: at_suffix_def listGetFrontEntry_def LIST_IS_EMPTY_def)
  moreover have "l \<notin> set xs" using ring_distinct [OF r] by simp
  ultimately have "validateLoop h e ?it (listIteratorGetCurEntry ?it) = Some (e \<in> set xs)"
    using validateLoop_ring [of h l "[]" xs ?it e] cur_at_suffix [OF at] r by simp
  then show ?thesis by (simp add: listIteratorSetCurEntry_def Let_def)
qed

text \<open>The calls that the observers of a list get for an event.\<close>

definition hears :: "list_event \<Rightarrow> list_observer \<Rightarrow> bool" where
  "hears ev ob \<longleftrightarrow>
     (case ob_select ob of None \<Rightarrow> True | Some sel \<Rightarrow> sel ev) \<and>
     (if ev_type ev = LIST_EVENT_ENTER then ob_enter ob else ob_leave ob)"

definition leaveCalls :: "lsf_heap \<Rightarrow> addr \<Rightarrow> addr \<Rightarrow> (addr \<times> addr \<times> list_event) list" where
  "leaveCalls h l e =
     (let ev = \<lparr>ev_type = LIST_EVENT_LEAVE, ev_entry = e\<rparr>
      in if allowObservers h l
         then map (\<lambda>ob. (l, ob_addr ob, ev)) (filter (hears ev) (observers h l)) else [])"

lemma notifyLoop_calls:
  "ev_type ev = LIST_EVENT_LEAVE \<Longrightarrow>
   notified (snd (notifyLoop l ev obs h)) =
     notified h @ map (\<lambda>ob. (l, ob_addr ob, ev)) (filter (hears ev) obs)"
  by (induction l ev obs h rule: notifyLoop.induct)
    (auto simp: call_observer_def hears_def split: option.splits)

lemma remove_effect:
  assumes "lst_ok h l (e # xs)"
  shows "notified (listRemoveEntry l e h) = notified h @ leaveCalls h l e"
    and "observers (listRemoveEntry l e h) = observers h"
    and "allowObservers (listRemoveEntry l e h) = allowObservers h"
    and "a \<noteq> l \<Longrightarrow> numEnts (listRemoveEntry l e h) a = numEnts h a"
    and "a \<notin> set (l # e # xs) \<Longrightarrow> forw (listRemoveEntry l e h) a = forw h a"
    and "a \<notin> set (l # e # xs) \<Longrightarrow> backw (listRemoveEntry l e h) a = backw h a"
proof -
  have r: "ring h l ([] @ e # xs)" using assms by (simp add: lst_ok_def)
  note n = ring_entry_nonnull [OF r]
  note defs = listRemoveEntry_def listNotifyObservers_def Let_def
  show "notified (listRemoveEntry l e h) = notified h @ leaveCalls h l e"
    using n by (simp add: defs notifyLoop_calls leaveCalls_def)
  show "observers (listRemoveEntry l e h) = observers h"
    and "allowObservers (listRemoveEntry l e h) = allowObservers h" by (simp_all add: defs)
  show "a \<noteq> l \<Longrightarrow> numEnts (listRemoveEntry l e h) a = numEnts h a" using n by (simp add: numEnts_remove)
  have b: "backw h e = l" using ring_backw_entry [OF r] by simp
  have f: "forw h e \<in> set (l # xs)" using ring_forw_entry [OF r] by (cases xs) simp_all
  show "a \<notin> set (l # e # xs) \<Longrightarrow> forw (listRemoveEntry l e h) a = forw h a"
    using n b by (auto simp: defs set_forw_def set_backw_def)
  show "a \<notin> set (l # e # xs) \<Longrightarrow> backw (listRemoveEntry l e h) a = backw h a"
    using n b f ring_distinct [OF r] by (auto simp: defs set_forw_def set_backw_def)
qed

text \<open>What a destruction leaves alone: every other list, and the observers' calls.\<close>

definition left_alone :: "addr \<Rightarrow> addr list \<Rightarrow> lsf_heap \<Rightarrow> lsf_heap \<Rightarrow> bool" where
  "left_alone l xs h h' \<longleftrightarrow>
     (\<forall>a. a \<notin> set (l # xs) \<longrightarrow> forw h' a = forw h a \<and> backw h' a = backw h a) \<and>
     (\<forall>a. a \<noteq> l \<longrightarrow> numEnts h' a = numEnts h a) \<and>
     observers h' = observers h \<and> allowObservers h' = allowObservers h"

lemma leaveCalls_cong:
  "observers h' = observers h \<Longrightarrow> allowObservers h' = allowObservers h \<Longrightarrow>
   leaveCalls h' = leaveCalls h"
  by (intro ext) (simp add: leaveCalls_def Let_def)

lemma destroyLoop_ring:
  "lst_ok h l xs \<Longrightarrow>
   \<exists>h'. destroyLoop l h fr = Some (fr @ xs, h') \<and> left_alone l xs h h' \<and>
     notified h' = notified h @ concat (map (leaveCalls h l) xs)"
proof (induction xs arbitrary: h fr)
  case Nil
  then have "forw h l = l" using ring_empty_iff [of h l "[]"] by (simp add: lst_ok_def)
  with Nil show ?case
    by (auto simp: destroyLoop.simps [of l h] LIST_IS_EMPTY_def left_alone_def)
next
  case (Cons x xs)
  let ?h = "listRemoveEntry l x h"
  have r: "ring h l (x # xs)" using Cons.prems by (simp add: lst_ok_def)
  have fx: "forw h l = x" "x \<noteq> l"
    using ring_forw_header [OF r] ring_distinct [OF r] by auto
  note e = remove_effect [OF Cons.prems]
  have "lst_ok ?h l xs" using lst_ok_remove [of h l "[]" x xs] Cons.prems fx by simp
  then obtain h' where h': "destroyLoop l ?h (fr @ [x]) = Some ((fr @ [x]) @ xs, h')"
    "left_alone l xs ?h h'" "notified h' = notified ?h @ concat (map (leaveCalls ?h l) xs)"
    using Cons.IH by blast
  have "left_alone l (x # xs) h h'" using h'(2) e(2-6) by (simp add: left_alone_def)
  with h' e(1) leaveCalls_cong [OF e(2,3)] show ?case using fx
    by (simp add: destroyLoop.simps [of l h] LIST_IS_EMPTY_def)
qed

section \<open>Lemmas: the second list library\<close>

lemma lst_ok_listinsert:
  assumes "lst_ok h l (xs @ ys)" and "e \<notin> set (l # xs @ ys)" and "e \<noteq> NULL"
  shows "lst_ok (snd (listinsert l (hd (ys @ [l])) e h)) l (xs @ e # ys)"
  using assms lst2_ins.ring_ins [of h l xs ys e l]
  by (simp add: lst_ok_def listinsert_def Let_def)

lemma lst_ok_push:
  "lst_ok h l xs \<Longrightarrow> e \<notin> set (l # xs) \<Longrightarrow> e \<noteq> NULL \<Longrightarrow> lst_ok (listpush l e h) l (xs @ [e])"
  using lst_ok_listinsert [of h l xs "[]" e] by (simp add: listpush_def)

lemma lst_ok_enque:
  "lst_ok h l xs \<Longrightarrow> e \<notin> set (l # xs) \<Longrightarrow> e \<noteq> NULL \<Longrightarrow> lst_ok (listenque l e h) l (e # xs)"
  using lst_ok_listinsert [of h l "[]" xs e] ring_forw_header [of h l xs]
  by (simp add: listenque_def lst_ok_def)

lemma listrm_offList:
  assumes "numEnts h l \<noteq> 0"
  shows "fst (listrm l e h) = e" and "forw (snd (listrm l e h)) = forw (offList e h)"
    and "backw (snd (listrm l e h)) = backw (offList e h)"
    and "numEnts (snd (listrm l e h)) l = numEnts h l - 1"
  using assms by (simp_all add: listrm_def offList_def Let_def)

lemma lst_ok_listrm:
  assumes "lst_ok h l (xs @ e # ys)"
  shows "fst (listrm l e h) = e \<and> lst_ok (snd (listrm l e h)) l (xs @ ys)"
proof -
  have n: "numEnts h l \<noteq> 0" using assms by (simp add: lst_ok_def)
  have "ring (offList e h) l (xs @ ys)"
    using assms off_rem.ring_rem by (auto simp: lst_ok_def)
  then show ?thesis using listrm_offList [OF n, of e] assms
    by (auto simp: lst_ok_def ring_cong [of "snd (listrm l e h)" "offList e h"])
qed

lemma listpop_snoc:
  assumes "lst_ok h l (xs @ [e])"
  shows "fst (listpop l h) = e \<and> lst_ok (snd (listpop l h)) l xs"
proof -
  have r: "ring h l (xs @ [e])" using assms by (simp add: lst_ok_def)
  have "forw h l \<noteq> l" using ring_empty_iff [OF r] by simp
  moreover have "backw h l = e" using ring_backw_header [OF r] by simp
  ultimately show ?thesis using lst_ok_listrm [of h l xs e "[]"] assms by (simp add: listpop_def)
qed

lemma listdeque_Cons:
  assumes "lst_ok h l (e # xs)"
  shows "fst (listdeque l h) = e \<and> lst_ok (snd (listdeque l h)) l xs"
proof -
  have r: "ring h l (e # xs)" using assms by (simp add: lst_ok_def)
  have "forw h l \<noteq> l" using ring_empty_iff [OF r] by simp
  moreover have "forw h l = e" using ring_forw_header [OF r] by simp
  ultimately show ?thesis using lst_ok_listrm [of h l "[]" e xs] assms by (simp add: listdeque_def)
qed

text \<open>
  \<open>listinsertsort\<close> walks against the forward pointers and links the new entry
  in right after the first entry it is not greater than.  On the forward list
  that is an insertion into the reversed list.
\<close>

fun ins_cmp :: "('a \<Rightarrow> 'a \<Rightarrow> int) \<Rightarrow> 'a \<Rightarrow> 'a list \<Rightarrow> 'a list" where
  "ins_cmp cmp e [] = [e]"
| "ins_cmp cmp e (l # ls) = (if cmp e l \<le> 0 then e # l # ls else l # ins_cmp cmp e ls)"

lemma insertsortLoop_ring:
  assumes "lst_ok h L (ys @ zs)" and "e \<notin> set (L # ys @ zs)" and "e \<noteq> NULL"
  shows "\<exists>h'. insertsortLoop cmp L e (last (L # ys)) h = Some h' \<and>
           lst_ok h' L (rev (ins_cmp cmp e (rev ys)) @ zs)"
  using assms
proof (induction ys arbitrary: zs rule: rev_induct)
  case Nil
  then show ?case
    using lst_ok_enque [of h L zs e] by (simp add: insertsortLoop.simps [of cmp L e L])
next
  case (snoc y ys)
  have r: "ring h L (ys @ y # zs)" using snoc.prems(1) by (simp add: lst_ok_def)
  have yL: "y \<noteq> L" using ring_distinct [OF r] by auto
  show ?case
  proof (cases "cmp e y \<le> 0")
    case True
    then show ?thesis using yL snoc.prems ring_forw_entry [OF r]
        lst_ok_listinsert [of h L "ys @ [y]" zs e]
      by (simp add: insertsortLoop.simps [of cmp L e y])
  next
    case False
    have "\<exists>h'. insertsortLoop cmp L e (last (L # ys)) h = Some h' \<and>
        lst_ok h' L (rev (ins_cmp cmp e (rev ys)) @ y # zs)"
      using snoc.IH [of "y # zs"] snoc.prems by auto
    then show ?thesis using False yL ring_backw_entry [OF r]
      by (simp add: insertsortLoop.simps [of cmp L e y])
  qed
qed

lemma set_ins_cmp: "set (ins_cmp cmp e ls) = insert e (set ls)"
  by (induction ls) auto

lemma sorted_ins_cmp:
  assumes "\<And>a b. cmp a b \<le> 0 \<or> cmp b a \<le> 0"
    and "\<And>a b c. cmp a b \<le> 0 \<Longrightarrow> cmp b c \<le> 0 \<Longrightarrow> cmp a c \<le> 0"
    and "sorted_wrt (\<lambda>a b. cmp a b \<le> 0) ls"
  shows "sorted_wrt (\<lambda>a b. cmp a b \<le> 0) (ins_cmp cmp e ls)"
  using assms(3)
proof (induction ls)
  case Nil
  then show ?case by simp
next
  case (Cons l ls)
  show ?case
  proof (cases "cmp e l \<le> 0")
    case True
    with Cons.prems show ?thesis using assms(2) by auto
  next
    case False
    with assms(1) have "cmp l e \<le> 0" by blast
    with Cons False show ?thesis by (auto simp: set_ins_cmp)
  qed
qed

section \<open>Properties\<close>

text \<open>A store with the list 2, 3 at the header 1, made by the library itself.\<close>

definition heap0 :: lsf_heap where
  "heap0 = \<lparr>forw = (\<lambda>_. NULL), backw = (\<lambda>_. NULL), numEnts = (\<lambda>_. 0), allowObservers = (\<lambda>_. False),
            observers = (\<lambda>_. []), listerrno = LIST_NOERR, notified = []\<rparr>"

definition heap23 :: lsf_heap where
  "heap23 = snd (listInsertEntryAtBack 1 3 (snd (listInsertEntryAtBack 1 2 (snd (listCreate 1 heap0)))))"

lemma heap23_ok: "lst_ok heap23 1 [2, 3]"
  by code_simp

text \<open>
  C24.  Linking a new entry in before any position of a list makes exactly that
  entry appear at exactly that position and the counter follow; taking it out
  again restores the sequence.  Both hold with observers attached.
\<close>

theorem list_insert_remove_roundtrip:
  assumes "lst_ok h l (xs @ ys)" and "e \<notin> set (l # xs @ ys)" and "e \<noteq> NULL"
  shows "lst_ok (snd (listInsertEntryBefore l (hd (ys @ [l])) e h)) l (xs @ e # ys) \<and>
    lst_ok (listRemoveEntry l e (snd (listInsertEntryBefore l (hd (ys @ [l])) e h))) l (xs @ ys)"
  using lst_ok_insert_before [OF assms] lst_ok_remove by blast

theorem list_insert_remove_witness:
  "lst_ok (snd (listInsertEntryBefore 1 3 7 heap23)) 1 [2, 7, 3] \<and>
   lst_ok (listRemoveEntry 1 7 (snd (listInsertEntryBefore 1 3 7 heap23))) 1 [2, 3]"
  using list_insert_remove_roundtrip [of heap23 1 "[2]" "[3]" 7] heap23_ok by simp

text \<open>
  C30.  The walks of the list library return on every well-formed list, and see
  its entries in order: \<open>list2Vector\<close> gives the sequence (reversed when asked to
  go backwards) and \<open>listSearchEntry\<close> the first entry that matches, or the null
  pointer when none does.
\<close>

theorem list_walks_complete:
  assumes "lst_ok h l xs"
  shows "list2Vector l 1 h = Some xs \<and> list2Vector l 2 h = Some (rev xs) \<and>
    listSearchEntry l eq h = Some (case find eq xs of None \<Rightarrow> NULL | Some e \<Rightarrow> e)"
  using assms list2Vector_forward list2Vector_backward listSearchEntry_find by (simp add: lst_ok_def)

theorem list_walks_witness:
  "list2Vector 1 1 heap23 = Some [2, 3] \<and> list2Vector 1 2 heap23 = Some [3, 2] \<and>
   listSearchEntry 1 (\<lambda>e. e = 3) heap23 = Some 3"
  using list_walks_complete [OF heap23_ok, of "\<lambda>e. e = 3"] by simp

text \<open>
  C29.  \<open>listDestroy\<close> terminates on every well-formed list.  It hands every entry to
  the destructor exactly once, in list order; then, if the list allows
  observers, destroys every observer and the list of observers; then releases
  the list's own name and header, last.  Every observer that wants to hear of
  it is told of each entry that leaves, and no other list is touched.
\<close>

theorem listDestroy_frees_all:
  assumes "lst_ok h l xs"
  shows "\<exists>h'. listDestroy l h =
      Some (map REntry xs @
        (if allowObservers h l
         then concat (map (\<lambda>ob. [RObserverName (ob_addr ob), RObserver (ob_addr ob)]) (observers h l)) @
              [RObserversName l, RObservers l]
         else []) @ [RName l, RHeader l], h') \<and>
    distinct xs \<and> notified h' = notified h @ concat (map (leaveCalls h l) xs) \<and>
    (\<forall>a. a \<notin> set (l # xs) \<longrightarrow> forw h' a = forw h a \<and> backw h' a = backw h a) \<and>
    (\<forall>a. a \<noteq> l \<longrightarrow> numEnts h' a = numEnts h a)"
proof -
  have "observersDestroy l obs =
      concat (map (\<lambda>ob. [RObserverName (ob_addr ob), RObserver (ob_addr ob)]) obs) @
        [RObserversName l, RObservers l]" for obs
    by (induction obs) (simp_all add: listObserverDestroy_def)
  moreover have "distinct xs" using assms ring_distinct [of h l xs] by (simp add: lst_ok_def)
  ultimately show ?thesis
    using destroyLoop_ring [OF assms, of "[]"] by (auto simp: listDestroy_def left_alone_def)
qed

text \<open>The list 2, 3 with one observer, 9, that hears of every entry that leaves.\<close>

definition heap9 :: lsf_heap where
  "heap9 = snd (listObserverAttach
             \<lparr>ob_addr = 9, ob_select = None, ob_enter = False, ob_leave = True\<rparr> 1
             (snd (listAllowObservers 1 heap23)))"

lemma heap9_ok: "lst_ok heap9 1 [2, 3]"
  by code_simp

theorem listDestroy_witness:
  "\<exists>h'. listDestroy 1 heap9 =
      Some ([REntry 2, REntry 3, RObserverName 9, RObserver 9, RObserversName 1, RObservers 1,
             RName 1, RHeader 1], h') \<and>
    notified h' = [(1, 9, \<lparr>ev_type = LIST_EVENT_LEAVE, ev_entry = 2\<rparr>),
                   (1, 9, \<lparr>ev_type = LIST_EVENT_LEAVE, ev_entry = 3\<rparr>)]"
proof -
  have "allowObservers heap9 1"
    "observers heap9 1 = [\<lparr>ob_addr = 9, ob_select = None, ob_enter = False, ob_leave = True\<rparr>]"
    "notified heap9 = []"
    by (simp_all add: heap9_def heap23_def heap0_def listObserverAttach_def listAllowObservers_def
      listInsertEntryAtBack_def listInsertEntryBefore_def listCreate_def set_forw_def set_backw_def)
  then show ?thesis using listDestroy_frees_all [OF heap9_ok]
    by (auto simp: leaveCalls_def hears_def)
qed

text \<open>
  C31.  \<open>listinsertsort\<close> returns, keeps the old entries, adds the new one once, and
  leaves the list sorted (read against the forward pointers, the direction in
  which it searches) if it was sorted and the comparison is a total preorder.
\<close>

theorem listinsertsort_sorted:
  assumes "lst_ok h L xs" and "e \<notin> set (L # xs)" and "e \<noteq> NULL"
    and "\<And>a b. cmp a b \<le> 0 \<or> cmp b a \<le> 0"
    and "\<And>a b c. cmp a b \<le> 0 \<Longrightarrow> cmp b c \<le> 0 \<Longrightarrow> cmp a c \<le> 0"
    and "sorted_wrt (\<lambda>a b. cmp a b \<le> 0) (rev xs)"
  shows "\<exists>h' ys. listinsertsort cmp L e h = Some (0, h') \<and> lst_ok h' L ys \<and>
    sorted_wrt (\<lambda>a b. cmp a b \<le> 0) (rev ys) \<and> set ys = insert e (set xs)"
proof -
  let ?ys = "rev (ins_cmp cmp e (rev xs))"
  have "L \<noteq> NULL" using assms(1) ring_nonnull [of h L xs] by (simp add: lst_ok_def)
  moreover have "\<exists>h'. listinsertsort cmp L e h = Some (0, h') \<and> lst_ok h' L ?ys"
  proof (cases "xs = []")
    case True
    then show ?thesis using \<open>L \<noteq> NULL\<close> assms(1-3) lst_ok_push [of h L "[]" e]
      by (simp add: listinsertsort_def lst_ok_def)
  next
    case False
    moreover have "backw h L = last (L # xs)"
      using assms(1) ring_backw_header [of h L xs] by (simp add: lst_ok_def)
    ultimately show ?thesis
      using \<open>L \<noteq> NULL\<close> assms(1-3) insertsortLoop_ring [of h L xs "[]" e cmp]
      by (auto simp: listinsertsort_def lst_ok_def)
  qed
  ultimately show ?thesis
    using sorted_ins_cmp [OF assms(4-6)] set_ins_cmp [of cmp e "rev xs"] by force
qed

theorem listinsertsort_witness:
  "\<exists>h' ys. listinsertsort (\<lambda>a b. int b - int a) 1 7 heap23 = Some (0, h') \<and> lst_ok h' 1 ys \<and>
     sorted_wrt (\<lambda>a b. int b - int a \<le> 0) (rev ys) \<and> set ys = {7, 2, 3}"
  using listinsertsort_sorted [OF heap23_ok, of 7 "\<lambda>a b. int b - int a"] by (simp add: linear)

end
