(* ===== verification/List_Set.thy ===== *)
theory List_Set
  imports Prelude "HOL-Library.Multiset"
begin

text \<open>
  Sorted integer sets (\<open>lsf/intlib/listset.c\<close>): chains of cells in ascending order.
  The cells that operations give up go to the pool \<open>FreeSet\<close> and are used again
  before memory is allocated.  A set is the list of the values in its chain; the
  chains that an operation is given share no cell.
\<close>

section \<open>The pool of cells\<close>

text \<open>The values in the cells of the pool, and the number of cells the allocator can still provide.\<close>

record cellPool =
  FreeSet :: "int list"
  heapCells :: nat

definition collectFreeSet :: "cellPool \<Rightarrow> cellPool" where
  "collectFreeSet p = p\<lparr>FreeSet := [], heapCells := heapCells p + length (FreeSet p)\<rparr>"

text \<open>The cell is the value given; \<open>None\<close> where the allocation fails.\<close>

definition listSetAlloc :: "cellPool \<Rightarrow> cellPool option" where
  "listSetAlloc p =
     (case FreeSet p of
        _ # fs \<Rightarrow> Some (p\<lparr>FreeSet := fs\<rparr>)
      | [] \<Rightarrow> if heapCells p = 0 then None else Some (p\<lparr>heapCells := heapCells p - 1\<rparr>))"

definition listSetFree :: "int list \<Rightarrow> cellPool \<Rightarrow> cellPool" where
  "listSetFree s p = p\<lparr>FreeSet := s @ FreeSet p\<rparr>"

section \<open>Operations\<close>

fun listSetEqual :: "int list \<Rightarrow> int list \<Rightarrow> bool" where
  "listSetEqual [] [] = True"
| "listSetEqual [] (_ # _) = False"
| "listSetEqual (_ # _) [] = False"
| "listSetEqual (x # xs) (y # ys) = (if x = y then listSetEqual xs ys else False)"

fun unionLoop :: "int list \<Rightarrow> int list \<Rightarrow> int list" where
  "unionLoop [] set2 = set2"
| "unionLoop (x # xs) [] = x # xs"
| "unionLoop (x # xs) (y # ys) = (if x \<le> y then x # unionLoop xs (y # ys) else y # unionLoop (x # xs) ys)"

definition listSetUnion :: "int list \<Rightarrow> int list \<Rightarrow> cellPool \<Rightarrow> int list \<times> cellPool" where
  "listSetUnion set1 set2 p =
     (case listSetAlloc p of
        None \<Rightarrow> ([], listSetFree set2 (listSetFree set1 p))
      | Some p \<Rightarrow> (unionLoop set1 set2, listSetFree [-1] p))"

text \<open>The loop that marks with -1 what is not in the second set.\<close>

fun intersectMark :: "int list \<Rightarrow> int list \<Rightarrow> int list" where
  "intersectMark [] setB = []"
| "intersectMark (a # as) [] = -1 # intersectMark as []"
| "intersectMark (a # as) (b # bs) =
     (if a = b then a # intersectMark as bs
      else if a < b then -1 # intersectMark as (b # bs)
      else intersectMark (a # as) bs)"

text \<open>The loop that unlinks the marked cells behind the first, and the test of the first.\<close>

fun sweepTail :: "int list \<Rightarrow> cellPool \<Rightarrow> int list \<times> cellPool" where
  "sweepTail [] p = ([], p)"
| "sweepTail (x # xs) p =
     (if x < 0 then sweepTail xs (listSetFree [x] p)
      else let (ys, p) = sweepTail xs p in (x # ys, p))"

definition sweep :: "int list \<Rightarrow> cellPool \<Rightarrow> int list \<times> cellPool" where
  "sweep s p =
     (case s of
        [] \<Rightarrow> ([], p)
      | x # xs \<Rightarrow> let (ys, p) = sweepTail xs p in if x < 0 then (ys, listSetFree [x] p) else (x # ys, p))"

definition listSetIntersect :: "int list \<Rightarrow> int list \<Rightarrow> cellPool \<Rightarrow> int list \<times> cellPool" where
  "listSetIntersect set1 set2 p = sweep (intersectMark set1 set2) (listSetFree set2 p)"

fun dupLoop :: "int list \<Rightarrow> int list \<Rightarrow> cellPool \<Rightarrow> int list option \<times> cellPool" where
  "dupLoop [] copied p = (Some copied, p)"
| "dupLoop (x # xs) copied p =
     (case listSetAlloc p of
        None \<Rightarrow> (None, listSetFree (-1 # copied) p)
      | Some p \<Rightarrow> dupLoop xs (copied @ [x]) p)"

definition listSetDuplicate :: "int list \<Rightarrow> cellPool \<Rightarrow> int list \<times> cellPool" where
  "listSetDuplicate s p =
     (case listSetAlloc p of
        None \<Rightarrow> ([], p)
      | Some p \<Rightarrow>
          (case dupLoop s [] p of
             (None, p) \<Rightarrow> ([], p)
           | (Some copied, p) \<Rightarrow> (copied, listSetFree [-1] p)))"

fun listSetMember :: "int \<Rightarrow> int list \<Rightarrow> bool" where
  "listSetMember elem [] = False"
| "listSetMember elem (x # xs) = (if x = elem then True else listSetMember elem xs)"

fun delLoop :: "int \<Rightarrow> int list \<Rightarrow> cellPool \<Rightarrow> int list \<times> cellPool" where
  "delLoop elem [] p = ([], p)"
| "delLoop elem (x # xs) p =
     (if x \<noteq> elem then let (ys, p) = delLoop elem xs p in (x # ys, p) else (xs, listSetFree [x] p))"

definition listSetDel :: "int \<Rightarrow> int list \<Rightarrow> cellPool \<Rightarrow> int list \<times> cellPool" where
  "listSetDel elem s p =
     (case s of
        [] \<Rightarrow> ([], p)
      | x # xs \<Rightarrow>
          if x = elem then (xs, listSetFree [x] p)
          else let (ys, p) = delLoop elem xs p in (x # ys, p))"

fun insertLoop :: "int \<Rightarrow> int list \<Rightarrow> int list" where
  "insertLoop elem [] = [elem]"
| "insertLoop elem (x # xs) = (if x < elem then x # insertLoop elem xs else elem # x # xs)"

text \<open>A failed allocation loses the set: the null pointer is returned.\<close>

definition listSetInsert :: "int \<Rightarrow> int list \<Rightarrow> cellPool \<Rightarrow> int list \<times> cellPool" where
  "listSetInsert elem s p =
     (if listSetMember elem s then (s, p)
      else case listSetAlloc p of
             None \<Rightarrow> ([], p)
           | Some p \<Rightarrow>
               (case s of
                  [] \<Rightarrow> ([elem], p)
                | x # xs \<Rightarrow> if x > elem then (elem # x # xs, p) else (x # insertLoop elem xs, p)))"

fun subMark :: "int list \<Rightarrow> int list \<Rightarrow> int list" where
  "subMark [] ptr2 = []"
| "subMark (a # as) [] = a # as"
| "subMark (a # as) (b # bs) =
     (if a = b then -1 # subMark as bs
      else if a > b then subMark (a # as) bs
      else a # subMark as (b # bs))"

definition listSetSub :: "int list \<Rightarrow> int list \<Rightarrow> cellPool \<Rightarrow> int list \<times> cellPool" where
  "listSetSub set1 set2 p =
     (if set1 = [] then ([], listSetFree set2 p)
      else if set2 = [] then (set1, p)
      else sweep (subMark set1 set2) (listSetFree set2 p))"

fun getEleLoop :: "nat \<Rightarrow> int list \<Rightarrow> int" where
  "getEleLoop 0 s = (case s of [] \<Rightarrow> 0 | x # _ \<Rightarrow> x)"
| "getEleLoop (Suc k) s = (case s of [] \<Rightarrow> 0 | _ # xs \<Rightarrow> getEleLoop k xs)"

definition listSetGetEle :: "int \<Rightarrow> int list \<Rightarrow> int" where
  "listSetGetEle k s = (if k < 1 then 0 else sint (word_of_int (getEleLoop (nat (k - 1)) s) :: 32 word))"

fun listSetNumEle :: "int list \<Rightarrow> nat" where
  "listSetNumEle [] = 0"
| "listSetNumEle (_ # xs) = listSetNumEle xs + 1"

text \<open>The positions behind \<open>low\<close> and \<open>up\<close> at the end of the loop, 0 for a null pointer.\<close>

fun selectLoop :: "int \<Rightarrow> int \<Rightarrow> int list \<Rightarrow> nat \<Rightarrow> nat \<Rightarrow> nat \<Rightarrow> nat \<times> nat" where
  "selectLoop start e [] i low up = (low, up)"
| "selectLoop start e (x # xs) i low up =
     (if x \<le> e
      then selectLoop start e xs (i + 1) (if x < start then i + 1 else low) (if x \<le> e then i + 1 else up)
      else (low, up))"

definition listSetSelect :: "int \<Rightarrow> int \<Rightarrow> int list \<Rightarrow> cellPool \<Rightarrow> int list \<times> cellPool" where
  "listSetSelect start e s p =
     (if start > e then ([], listSetFree s p)
      else let (low, up) = selectLoop start e s 0 0 0
           in if (0 < low \<and> low = length s) \<or> up = 0 then ([], listSetFree s p)
              else let p = listSetFree (drop up s) p; s = take up s
                   in if 0 < low then (drop low s, listSetFree (take low s) p) else (s, p))"

section \<open>Iteration\<close>

text \<open>The iterator is the rest of the chain; \<open>None\<close> of \<open>listSetIteratorBegin\<close> is the null dereference.\<close>

definition listSetIteratorBegin :: "int list \<Rightarrow> (int \<times> int list) option" where
  "listSetIteratorBegin pos = (case pos of [] \<Rightarrow> None | x # xs \<Rightarrow> Some (x, xs))"

definition listSetIteratorGetNext :: "int list \<Rightarrow> int option \<times> int list" where
  "listSetIteratorGetNext pos = (case pos of [] \<Rightarrow> (None, []) | x # xs \<Rightarrow> (Some x, xs))"

section \<open>Sets in order\<close>

definition set_ok :: "int list \<Rightarrow> bool" where
  "set_ok s \<longleftrightarrow> sorted_wrt (<) s \<and> (\<forall>x \<in> set s. 0 \<le> x)"

definition avail :: "cellPool \<Rightarrow> nat" where
  "avail p = length (FreeSet p) + heapCells p"

lemma set_ok_simps [simp]:
  "set_ok []" "set_ok (x # xs) \<longleftrightarrow> 0 \<le> x \<and> (\<forall>y \<in> set xs. x < y) \<and> set_ok xs"
  by (auto simp: set_ok_def)

lemma avail_simps [simp]: "avail (listSetFree s p) = length s + avail p" "avail (collectFreeSet p) = avail p"
  by (simp_all add: avail_def listSetFree_def collectFreeSet_def)

lemma listSetAlloc_avail: "listSetAlloc p = (if avail p = 0 then None else listSetAlloc p)"
  "listSetAlloc p = Some q \<Longrightarrow> avail p = Suc (avail q)" "listSetAlloc p = None \<longleftrightarrow> avail p = 0"
  by (auto simp: listSetAlloc_def avail_def split: list.splits if_splits)

lemma set_ok_distinct: "set_ok s \<Longrightarrow> distinct s"
  by (induction s) auto

lemma set_ok_unique: "set_ok s \<Longrightarrow> set_ok t \<Longrightarrow> set s = set t \<Longrightarrow> s = t"
  unfolding set_ok_def using strict_sorted_equal by blast

lemma listSetMember_set [simp]: "listSetMember x s \<longleftrightarrow> x \<in> set s"
  by (induction s) auto

lemma listSetEqual_eq [simp]: "listSetEqual s t \<longleftrightarrow> s = t"
  by (induction s t rule: listSetEqual.induct) auto

lemma listSetNumEle_length [simp]: "listSetNumEle s = length s"
  by (induction s) simp_all

lemma unionLoop_mset: "mset (unionLoop s t) = mset s + mset t"
  by (induction s t rule: unionLoop.induct) simp_all

lemma unionLoop_set: "set (unionLoop s t) = set s \<union> set t"
  using unionLoop_mset [of s t] by (metis set_mset_mset set_mset_union)

lemma unionLoop_ok: "set_ok s \<Longrightarrow> set_ok t \<Longrightarrow> set s \<inter> set t = {} \<Longrightarrow> set_ok (unionLoop s t)"
proof (induction s t rule: unionLoop.induct)
  case (3 x xs y ys)
  show ?case
  proof (cases "x \<le> y")
    case True
    moreover have "x \<noteq> y" using "3.prems"(3) by auto
    ultimately show ?thesis using "3.IH"(1) "3.prems" by (auto simp: unionLoop_set)
  next
    case False
    then show ?thesis using "3.IH"(2) "3.prems" by (auto simp: unionLoop_set)
  qed
qed simp_all

text \<open>Sweeping removes the marked cells and gives them to the pool.\<close>

lemma sweepTail_spec:
  "fst (sweepTail s p) = filter (\<lambda>x. 0 \<le> x) s \<and> length (fst (sweepTail s p)) + avail (snd (sweepTail s p)) = length s + avail p"
  by (induction s p rule: sweepTail.induct) (auto simp: split_beta)

lemma sweep_spec:
  "fst (sweep s p) = filter (\<lambda>x. 0 \<le> x) s" "length (fst (sweep s p)) + avail (snd (sweep s p)) = length s + avail p"
  using sweepTail_spec [of "tl s" p] by (cases s; simp add: sweep_def split_beta)+

lemma intersectMark_length [simp]: "length (intersectMark s t) = length s"
  by (induction s t rule: intersectMark.induct) auto

lemma subMark_length [simp]: "length (subMark s t) = length s"
  by (induction s t rule: subMark.induct) auto

lemma intersectMark_spec:
  "set_ok s \<Longrightarrow> set_ok t \<Longrightarrow> filter (\<lambda>x. 0 \<le> x) (intersectMark s t) = filter (\<lambda>x. x \<in> set t) s"
proof (induction s t rule: intersectMark.induct)
  case (3 a as b bs)
  show ?case
  proof (cases a b rule: linorder_cases)
    case equal
    then have "filter (\<lambda>x. x \<in> set (b # bs)) as = filter (\<lambda>x. x \<in> set bs) as" using "3.prems" by (intro filter_cong) auto
    then show ?thesis using 3 equal by simp
  next
    case less
    then have "a \<notin> set (b # bs)" using "3.prems" by auto
    then show ?thesis using 3 less by simp
  next
    case greater
    then have "filter (\<lambda>x. x \<in> set (b # bs)) (a # as) = filter (\<lambda>x. x \<in> set bs) (a # as)" using "3.prems" by (intro filter_cong) auto
    then show ?thesis using 3 greater by simp
  qed
qed simp_all

lemma subMark_spec:
  "set_ok s \<Longrightarrow> set_ok t \<Longrightarrow> filter (\<lambda>x. 0 \<le> x) (subMark s t) = filter (\<lambda>x. x \<notin> set t) s"
proof (induction s t rule: subMark.induct)
  case (2 a as)
  then show ?case by (simp add: set_ok_def filter_id_conv)
next
  case (3 a as b bs)
  show ?case
  proof (cases a b rule: linorder_cases)
    case equal
    then have "filter (\<lambda>x. x \<notin> set (b # bs)) as = filter (\<lambda>x. x \<notin> set bs) as" using "3.prems" by (intro filter_cong) auto
    then show ?thesis using 3 equal by simp
  next
    case less
    then have "a \<notin> set (b # bs)" using "3.prems" by auto
    then show ?thesis using 3 less by simp
  next
    case greater
    then have "filter (\<lambda>x. x \<notin> set (b # bs)) (a # as) = filter (\<lambda>x. x \<notin> set bs) (a # as)" using "3.prems" by (intro filter_cong) auto
    then show ?thesis using 3 greater by simp
  qed
qed simp_all

lemma set_ok_filter: "set_ok s \<Longrightarrow> set_ok (filter P s)"
  by (simp add: set_ok_def sorted_wrt_filter)

lemma insertLoop_spec:
  "set_ok s \<Longrightarrow> 0 \<le> x \<Longrightarrow> x \<notin> set s \<Longrightarrow> set_ok (insertLoop x s) \<and> set (insertLoop x s) = insert x (set s) \<and> length (insertLoop x s) = Suc (length s)"
proof (induction s)
  case (Cons y s)
  then show ?case by (cases "y < x") (auto simp: not_less dest: order.strict_trans)
qed simp

lemma delLoop_spec: "fst (delLoop x s p) = remove1 x s \<and> length (fst (delLoop x s p)) + avail (snd (delLoop x s p)) = length s + avail p"
  by (induction x s p rule: delLoop.induct) (auto simp: split_beta)

lemma listSetDel_spec:
  "fst (listSetDel x s p) = remove1 x s" "length (fst (listSetDel x s p)) + avail (snd (listSetDel x s p)) = length s + avail p"
  using delLoop_spec [of x "tl s" p] by (cases s; simp add: listSetDel_def split_beta)+

lemma set_ok_remove1: "set_ok s \<Longrightarrow> set_ok (remove1 x s) \<and> set (remove1 x s) = set s - {x}"
  using set_ok_distinct [of s] set_ok_filter [of s "(\<noteq>) x"] by (simp add: distinct_remove1_removeAll removeAll_filter_not_eq) auto

lemma listSetInsert_spec:
  assumes "set_ok s" and "0 \<le> x" and "avail p \<noteq> 0"
  shows "set_ok (fst (listSetInsert x s p))" "set (fst (listSetInsert x s p)) = insert x (set s)"
    "length (fst (listSetInsert x s p)) + avail (snd (listSetInsert x s p)) = length s + avail p"
proof -
  obtain q where q: "listSetAlloc p = Some q" "avail p = Suc (avail q)" using assms(3) listSetAlloc_avail by (cases "listSetAlloc p") auto
  have i: "\<And>y ys. s = y # ys \<Longrightarrow> x \<notin> set s \<Longrightarrow> \<not> x < y \<Longrightarrow> set_ok (y # insertLoop x ys)"
    using insertLoop_spec assms(1,2) by fastforce
  show "set_ok (fst (listSetInsert x s p))" using assms(1,2) q(1) i
    by (cases s) (auto simp: listSetInsert_def dest: order.strict_trans)
  show "set (fst (listSetInsert x s p)) = insert x (set s)" using assms(1,2) q(1) insertLoop_spec [of "tl s" x]
    by (cases s) (auto simp: listSetInsert_def)
  show "length (fst (listSetInsert x s p)) + avail (snd (listSetInsert x s p)) = length s + avail p"
    using assms(1,2) q insertLoop_spec [of "tl s" x] by (cases s) (auto simp: listSetInsert_def)
qed

lemma selectLoop_spec:
  "set_ok s \<Longrightarrow> start \<le> e \<Longrightarrow> selectLoop start e s i low up =
    (if takeWhile (\<lambda>x. x < start) s = [] then low else i + length (takeWhile (\<lambda>x. x < start) s),
     if takeWhile (\<lambda>x. x \<le> e) s = [] then up else i + length (takeWhile (\<lambda>x. x \<le> e) s))"
proof (induction s arbitrary: i low up)
  case (Cons x s)
  show ?case
  proof (cases "x < start")
    case True
    then show ?thesis using Cons by auto
  next
    case False
    then have "takeWhile (\<lambda>x. x < start) s = []" using Cons.prems by (cases s) auto
    then show ?thesis using Cons False by auto
  qed
qed simp

lemma select_filter:
  "set_ok s \<Longrightarrow> start \<le> e \<Longrightarrow>
    drop (length (takeWhile (\<lambda>x. x < start) s)) (takeWhile (\<lambda>x. x \<le> e) s) = filter (\<lambda>x. start \<le> x \<and> x \<le> e) s"
proof (induction s)
  case (Cons x s)
  consider "x < start" | "start \<le> x" "x \<le> e" | "e < x" by linarith
  then show ?case
  proof cases
    case 2
    then have "takeWhile (\<lambda>x. x < start) s = []" using Cons.prems by (cases s) auto
    then show ?thesis using Cons 2 by simp
  next
    case 3
    then have "filter (\<lambda>x. start \<le> x \<and> x \<le> e) s = []" using Cons.prems by (auto simp: filter_empty_conv)
    then show ?thesis using 3 Cons.prems(2) by simp
  qed (use Cons in simp)
qed simp

lemma takeWhile_mono: "start \<le> e \<Longrightarrow> length (takeWhile (\<lambda>x. x < start) s) \<le> length (takeWhile (\<lambda>x. x \<le> e) s)" for e :: int
  by (induction s) auto

lemma listSetSelect_spec:
  assumes s: "set_ok s"
  shows "fst (listSetSelect start e s p) = filter (\<lambda>x. start \<le> x \<and> x \<le> e) s"
    "length (fst (listSetSelect start e s p)) + avail (snd (listSetSelect start e s p)) = length s + avail p"
proof -
  let ?low = "length (takeWhile (\<lambda>x. x < start) s)" and ?up = "length (takeWhile (\<lambda>x. x \<le> e) s)"
  have t: "take ?up s = takeWhile (\<lambda>x. x \<le> e) s" by (rule takeWhile_eq_take [symmetric])
  have up: "?up \<le> length s" by (rule length_takeWhile_le)
  show "fst (listSetSelect start e s p) = filter (\<lambda>x. start \<le> x \<and> x \<le> e) s"
  proof (cases "start \<le> e")
    case True
    have f: "filter (\<lambda>x. start \<le> x \<and> x \<le> e) s = drop ?low (take ?up s)" using select_filter [OF s True] t by simp
    have l: "?low = length s \<Longrightarrow> drop ?low (take ?up s) = []" by simp
    have "selectLoop start e s 0 0 0 = (?low, ?up)" using selectLoop_spec [OF s True] by auto
    then show ?thesis using True f l by (auto simp: listSetSelect_def Let_def)
  next
    case False
    then have "filter (\<lambda>x. start \<le> x \<and> x \<le> e) s = []" by (auto simp: filter_empty_conv)
    then show ?thesis using False by (simp add: listSetSelect_def)
  qed
  show "length (fst (listSetSelect start e s p)) + avail (snd (listSetSelect start e s p)) = length s + avail p"
  proof (cases "start \<le> e")
    case True
    have "selectLoop start e s 0 0 0 = (?low, ?up)" using selectLoop_spec [OF s True] by auto
    moreover have "?low \<le> ?up" by (rule takeWhile_mono [OF True])
    ultimately show ?thesis using up True by (auto simp: listSetSelect_def Let_def)
  qed (simp add: listSetSelect_def)
qed

section \<open>Sequences of operations\<close>

text \<open>
  An implementation of sets of integers: every operation that is ready keeps the
  invariant and changes the set as specified.
\<close>

fun all_ready :: "('s \<Rightarrow> 'o \<Rightarrow> bool) \<Rightarrow> ('s \<Rightarrow> 'o \<Rightarrow> 's) \<Rightarrow> 's \<Rightarrow> 'o list \<Rightarrow> bool" where
  "all_ready ready step s [] = True"
| "all_ready ready step s (op # ops) \<longleftrightarrow> ready s op \<and> all_ready ready step (step s op) ops"

locale int_set =
  fixes ok :: "'s \<Rightarrow> bool" and elems :: "'s \<Rightarrow> int set" and step :: "'s \<Rightarrow> 'o \<Rightarrow> 's"
    and spec :: "int set \<Rightarrow> 'o \<Rightarrow> int set" and ready :: "'s \<Rightarrow> 'o \<Rightarrow> bool"
  assumes step_ok: "ok s \<Longrightarrow> ready s op \<Longrightarrow> ok (step s op)"
    and step_elems: "ok s \<Longrightarrow> ready s op \<Longrightarrow> elems (step s op) = spec (elems s) op"
begin

lemma run_elems:
  "ok s \<Longrightarrow> all_ready ready step s ops \<Longrightarrow> ok (foldl step s ops) \<and> elems (foldl step s ops) = foldl spec (elems s) ops"
  by (induction ops arbitrary: s) (simp_all add: step_ok step_elems)

end

datatype setOp = SetInsert int | SetDel int | SetUnion "int list" | SetIntersect "int list" | SetSub "int list" | SetSelect int int

fun setStep :: "int list \<times> cellPool \<Rightarrow> setOp \<Rightarrow> int list \<times> cellPool" where
  "setStep (s, p) (SetInsert x) = listSetInsert x s p"
| "setStep (s, p) (SetDel x) = listSetDel x s p"
| "setStep (s, p) (SetUnion t) = listSetUnion s t p"
| "setStep (s, p) (SetIntersect t) = listSetIntersect s t p"
| "setStep (s, p) (SetSub t) = listSetSub s t p"
| "setStep (s, p) (SetSelect a b) = listSetSelect a b s p"

fun setSpec :: "int set \<Rightarrow> setOp \<Rightarrow> int set" where
  "setSpec S (SetInsert x) = insert x S"
| "setSpec S (SetDel x) = S - {x}"
| "setSpec S (SetUnion t) = S \<union> set t"
| "setSpec S (SetIntersect t) = S \<inter> set t"
| "setSpec S (SetSub t) = S - set t"
| "setSpec S (SetSelect a b) = {x \<in> S. a \<le> x \<and> x \<le> b}"

text \<open>There is a cell where one is needed, arguments are sets, and a union is of disjoint sets.\<close>

fun setReady :: "int list \<times> cellPool \<Rightarrow> setOp \<Rightarrow> bool" where
  "setReady (s, p) (SetInsert x) \<longleftrightarrow> 0 \<le> x \<and> avail p \<noteq> 0"
| "setReady (s, p) (SetDel x) \<longleftrightarrow> True"
| "setReady (s, p) (SetUnion t) \<longleftrightarrow> set_ok t \<and> set s \<inter> set t = {} \<and> avail p \<noteq> 0"
| "setReady (s, p) (SetIntersect t) \<longleftrightarrow> set_ok t"
| "setReady (s, p) (SetSub t) \<longleftrightarrow> set_ok t"
| "setReady (s, p) (SetSelect a b) \<longleftrightarrow> True"

lemma setStep_ok:
  assumes "set_ok s" and "setReady (s, p) op"
  shows "set_ok (fst (setStep (s, p) op)) \<and> set (fst (setStep (s, p) op)) = setSpec (set s) op"
proof (cases op)
  case (SetInsert x)
  then show ?thesis using listSetInsert_spec [of s x p] assms by simp
next
  case (SetDel x)
  then show ?thesis using set_ok_remove1 [OF assms(1)] by (simp add: listSetDel_spec)
next
  case (SetUnion t)
  then obtain q where "listSetAlloc p = Some q" using assms(2) listSetAlloc_avail(3) [of p] by auto
  then show ?thesis using SetUnion assms unionLoop_ok [of s t] by (simp add: listSetUnion_def unionLoop_set)
next
  case (SetIntersect t)
  then show ?thesis
    using assms set_ok_filter [of s "\<lambda>x. x \<in> set t"] by (auto simp: listSetIntersect_def sweep_spec intersectMark_spec)
next
  case (SetSub t)
  then show ?thesis
    using assms set_ok_filter [of s "\<lambda>x. x \<notin> set t"] by (auto simp: listSetSub_def sweep_spec subMark_spec)
next
  case (SetSelect a b)
  then show ?thesis using assms(1) set_ok_filter [OF assms(1)] by (auto simp: listSetSelect_spec)
qed

interpretation ls: int_set "\<lambda>s. set_ok (fst s)" "\<lambda>s. set (fst s)" setStep setSpec setReady
  by unfold_locales (metis prod.collapse setStep_ok)+

section \<open>Properties\<close>

text \<open>
  C26. Any sequence of insertions, deletions, intersections, differences,
  selections and unions of disjoint sets, of nonnegative numbers and with a cell
  left where an insertion or a union needs one, keeps the chain sorted and
  without repetitions, its elements are those of the same operations on sets, and
  it is the only such chain, so that \<open>listSetEqual\<close> decides equality.
\<close>

theorem listSet_refines:
  assumes "set_ok s" and "all_ready setReady setStep (s, p) ops"
  shows "let (s', p') = foldl setStep (s, p) ops in
    set_ok s' \<and> set s' = foldl setSpec (set s) ops \<and> listSetNumEle s' = card (foldl setSpec (set s) ops) \<and>
    (\<forall>x. listSetMember x s' \<longleftrightarrow> x \<in> foldl setSpec (set s) ops) \<and>
    (\<forall>t. set_ok t \<longrightarrow> (listSetEqual s' t \<longleftrightarrow> set t = foldl setSpec (set s) ops))"
proof -
  obtain s' p' where e: "foldl setStep (s, p) ops = (s', p')" by (cases "foldl setStep (s, p) ops")
  have r: "set_ok s'" "set s' = foldl setSpec (set s) ops"
    using ls.run_elems [of "(s, p)" ops] assms by (simp_all add: e)
  have n: "length s' = card (foldl setSpec (set s) ops)"
    using distinct_card [OF set_ok_distinct [OF r(1)]] r(2) by simp
  have "s' = t \<longleftrightarrow> set t = foldl setSpec (set s) ops" if "set_ok t" for t
    using r set_ok_unique [OF r(1) that] by metis
  with r n show ?thesis by (simp add: e)
qed

theorem listSet_refines_witness:
  "fst (foldl setStep ([], \<lparr>FreeSet = [], heapCells = 2\<rparr>) [SetInsert 7, SetInsert 3, SetDel 7]) = [3]"
  using listSet_refines [of "[]" "\<lparr>FreeSet = [], heapCells = 2\<rparr>" "[SetInsert 7, SetInsert 3, SetDel 7]"]
  by (simp add: avail_def listSetInsert_def listSetAlloc_def listSetDel_def listSetFree_def)

text \<open>
  C35. \<open>listSetUnion\<close> is a merge, not a union: an element of both sets is in the
  result twice, so that it is still a member after it has been deleted.
\<close>

theorem union_keeps_twice:
  assumes "x \<in> set s" and "x \<in> set t" and "avail p \<noteq> 0"
  shows "let (u, p) = listSetUnion s t p; (u, p) = listSetDel x u p in listSetMember x u"
proof -
  obtain q where q: "listSetAlloc p = Some q" using assms(3) listSetAlloc_avail(3) [of p] by auto
  have "count (mset (unionLoop s t)) x = count (mset s) x + count (mset t) x" by (simp add: unionLoop_mset)
  moreover have "0 < count (mset s) x" "0 < count (mset t) x" using assms(1,2) by simp_all
  ultimately have "2 \<le> count (mset (unionLoop s t)) x" by linarith
  then have "x \<in># mset (unionLoop s t) - {#x#}" by (simp add: in_diff_count)
  then have "x \<in> set (remove1 x (unionLoop s t))" by (metis mset_remove1 set_mset_mset)
  then show ?thesis using q by (simp add: listSetUnion_def listSetDel_spec split_beta)
qed

theorem union_keeps_twice_witness:
  "let (u, p) = listSetUnion [3, 5] [5] \<lparr>FreeSet = [], heapCells = 1\<rparr>; (u, p) = listSetDel 5 u p in listSetMember 5 u"
  by (rule union_keeps_twice) (simp_all add: avail_def)

end
