(* ===== verification/Hash_Table.thy ===== *)
theory Hash_Table
  imports Prelude "HOL-Library.Multiset"
begin

text \<open>
  The hash table of \<open>lsf/lib/lib.table.c\<close>: an array of slots, each a circular
  list of entries (key, data pointer), that is rebuilt with about twice as many
  slots when it holds 1.5 entries per slot.  mbatchd keeps its users, jobs and
  the per-user and per-host counters of a queue in such tables.

  A slot is the sequence of its entries in the order of the \<open>bwPtr\<close> links, the
  order in which every routine of the file walks it; \<open>insList_\<close> at the slot's
  header puts an entry in front of that sequence and \<open>remList_\<close> takes an entry
  out of it (theory \<open>Ring_Heap\<close> proves both of the pointer code).  An entry is
  named by its key, which is unique in a table.
\<close>

section \<open>The table\<close>

type_synonym 'd hEnt = "string \<times> 'd option"

record 'd hTab =
  slotPtr :: "'d hEnt list list"
  hNumEnts :: nat
  hSize :: nat

definition primes :: "nat list" where
  "primes = [101, 1009, 5009, 10007, 20011, 50021, 100003, 200003, 500009, 1030637]"

definition getClosestPrime :: "nat \<Rightarrow> nat" where
  "getClosestPrime x = (case find (\<lambda>p. x < p) primes of Some p \<Rightarrow> p | None \<Rightarrow> last primes)"

definition h_initTab :: "nat \<Rightarrow> 'd hTab" where
  "h_initTab numSlots =
     (let sz = getClosestPrime numSlots
      in \<lparr>slotPtr = replicate sz [], hNumEnts = 0, hSize = sz\<rparr>)"

text \<open>The hash value: C arithmetic on \<open>unsigned int\<close>, with \<open>char\<close> signed.\<close>

definition schar :: "char \<Rightarrow> uint32" where
  "schar c = (let n = of_char c in if n < (128 :: nat) then of_nat n else of_nat n - 256)"

definition hash_step :: "nat \<Rightarrow> uint32 \<Rightarrow> char \<Rightarrow> uint32" where
  "hash_step sz ha c = (ha * 128 + schar c) mod of_nat sz"

definition getAddr :: "nat \<Rightarrow> string \<Rightarrow> nat" where
  "getAddr sz key = unat (foldl (hash_step sz) 0 key)"

fun h_findEnt :: "string \<Rightarrow> 'd hEnt list \<Rightarrow> 'd hEnt option" where
  "h_findEnt key [] = None"
| "h_findEnt key (e # es) = (if fst e = key then Some e else h_findEnt key es)"

definition h_getEnt :: "'d hTab \<Rightarrow> string \<Rightarrow> 'd hEnt option" where
  "h_getEnt t key =
     (if hNumEnts t = 0 then None else h_findEnt key (slotPtr t ! getAddr (hSize t) key))"

text \<open>Linking an entry in at the header of a slot.\<close>

definition ins_slot :: "nat \<Rightarrow> 'd hEnt \<Rightarrow> 'd hTab \<Rightarrow> 'd hTab" where
  "ins_slot slot e t = t\<lparr>slotPtr := (slotPtr t)[slot := e # slotPtr t ! slot]\<rparr>"

fun resetSlot :: "'d hEnt list \<Rightarrow> 'd hTab \<Rightarrow> 'd hTab" where
  "resetSlot [] t = t"
| "resetSlot (e # es) t =
     (let t = ins_slot (getAddr (hSize t) (fst e)) e t
      in resetSlot es (t\<lparr>hNumEnts := hNumEnts t + 1\<rparr>))"

definition resetTab :: "'d hTab \<Rightarrow> 'd hTab" where
  "resetTab t = foldl (\<lambda>t es. resetSlot es t) (h_initTab (hSize t * 2)) (slotPtr t)"

definition h_addEnt :: "'d hTab \<Rightarrow> string \<Rightarrow> bool \<times> 'd hTab" where
  "h_addEnt t key =
     (case h_findEnt key (slotPtr t ! getAddr (hSize t) key) of
        Some e \<Rightarrow> (False, t)
      | None \<Rightarrow>
          let t = (if 3 * hSize t \<le> 2 * hNumEnts t then resetTab t else t);
              t = ins_slot (getAddr (hSize t) key) (key, None) t
          in (True, t\<lparr>hNumEnts := hNumEnts t + 1\<rparr>))"

text \<open>What callers do with the entry \<open>h_addEnt_\<close> returns: \<open>ent->hData = data\<close>.\<close>

definition set_hData :: "'d hTab \<Rightarrow> string \<Rightarrow> 'd \<Rightarrow> 'd hTab" where
  "set_hData t key d =
     (let slot = getAddr (hSize t) key
      in t\<lparr>slotPtr := (slotPtr t)[slot :=
             map (\<lambda>e. if fst e = key then (key, Some d) else e) (slotPtr t ! slot)]\<rparr>)"

definition h_delEnt :: "'d hTab \<Rightarrow> 'd hEnt option \<Rightarrow> 'd hTab" where
  "h_delEnt t ent =
     (case ent of
        None \<Rightarrow> t
      | Some e \<Rightarrow>
          let slot = getAddr (hSize t) (fst e)
          in t\<lparr>slotPtr := (slotPtr t)[slot := filter (\<lambda>x. fst x \<noteq> fst e) (slotPtr t ! slot)],
               hNumEnts := hNumEnts t - 1\<rparr>)"

section \<open>Iteration\<close>

text \<open>
  The search state \<open>sTab\<close>: the next slot and where the walk stands in the
  current one, \<open>None\<close> for the null pointer before the first step and the empty
  sequence when the walk has come back to the slot's header.
\<close>

record 'd sTab =
  nIndex :: nat
  hEntPtr :: "'d hEnt list option"

function h_nextEnt :: "'d hTab \<Rightarrow> 'd sTab \<Rightarrow> 'd hEnt option \<times> 'd sTab" where
  "h_nextEnt t s =
     (case hEntPtr s of
        Some (e # es) \<Rightarrow> (Some e, s\<lparr>hEntPtr := Some es\<rparr>)
      | _ \<Rightarrow>
          if hSize t \<le> nIndex s then (None, s)
          else (case slotPtr t ! nIndex s of
                  [] \<Rightarrow> h_nextEnt t (s\<lparr>nIndex := nIndex s + 1\<rparr>)
                | e # es \<Rightarrow> (Some e, s\<lparr>nIndex := nIndex s + 1, hEntPtr := Some es\<rparr>)))"
  by pat_completeness auto
termination
  by (relation "measure (\<lambda>(t, s). hSize t - nIndex s)") auto

declare h_nextEnt.simps [simp del]

definition h_firstEnt :: "'d hTab \<Rightarrow> 'd hEnt option \<times> 'd sTab" where
  "h_firstEnt t =
     (let s = \<lparr>nIndex = 0, hEntPtr = None\<rparr>
      in if slotPtr t \<noteq> [] then h_nextEnt t s else (None, s))"

text \<open>The loop of \<open>FOR_EACH_HTAB_ENTRY\<close>: the entries it visits, in order.\<close>

partial_function (option) for_each_loop ::
    "'d hTab \<Rightarrow> 'd hEnt option \<Rightarrow> 'd sTab \<Rightarrow> 'd hEnt list \<Rightarrow> 'd hEnt list option" where
  [code]: "for_each_loop t ent s acc =
     (case ent of
        None \<Rightarrow> Some acc
      | Some e \<Rightarrow> for_each_loop t (fst (h_nextEnt t s)) (snd (h_nextEnt t s)) (acc @ [e]))"

definition for_each_entry :: "'d hTab \<Rightarrow> 'd hEnt list option" where
  "for_each_entry t = for_each_loop t (fst (h_firstEnt t)) (snd (h_firstEnt t)) []"

section \<open>Invariant and abstraction\<close>

definition slots_ok :: "'d hTab \<Rightarrow> bool" where
  "slots_ok t \<longleftrightarrow>
     length (slotPtr t) = hSize t \<and> hSize t \<in> set primes \<and>
     (\<forall>i < hSize t. distinct (map fst (slotPtr t ! i)) \<and>
        (\<forall>e \<in> set (slotPtr t ! i). getAddr (hSize t) (fst e) = i))"

definition ht_ok :: "'d hTab \<Rightarrow> bool" where
  "ht_ok t \<longleftrightarrow> slots_ok t \<and> hNumEnts t = length (concat (slotPtr t))"

definition ht_ents :: "'d hTab \<Rightarrow> 'd hEnt list" where
  "ht_ents t = concat (slotPtr t)"

definition ht_map :: "'d hTab \<Rightarrow> string \<Rightarrow> 'd option option" where
  "ht_map t key = map_of (slotPtr t ! getAddr (hSize t) key) key"

lemma prime_pos: "p \<in> set primes \<Longrightarrow> 0 < p \<and> p < 2 ^ 32"
  by (auto simp: primes_def)

lemma getClosestPrime_in: "getClosestPrime x \<in> set primes"
proof (cases "find (\<lambda>p. x < p) primes")
  case None
  then show ?thesis by (simp add: getClosestPrime_def) (simp add: primes_def)
next
  case (Some p)
  then have "p \<in> set primes" by (auto simp: find_Some_iff)
  with Some show ?thesis by (simp add: getClosestPrime_def)
qed

lemma getAddr_less:
  assumes "p \<in> set primes"
  shows "getAddr p key < p"
proof -
  have p: "unat (of_nat p :: uint32) = p"
    using prime_pos [OF assms] by (simp add: unat_of_nat take_bit_nat_eq_self)
  have pos: "0 < p" using prime_pos [OF assms] by simp
  show ?thesis
  proof (cases key rule: rev_cases)
    case Nil
    with pos show ?thesis by (simp add: getAddr_def)
  next
    case (snoc ks c)
    have "unat (x mod of_nat p :: uint32) < p" for x :: uint32
      using p pos by (simp add: unat_mod_distrib)
    then show ?thesis by (simp add: getAddr_def snoc hash_step_def)
  qed
qed

lemma h_findEnt_map_of: "h_findEnt key es = map_option (Pair key) (map_of es key)"
  by (induction es) auto

lemma set_slot_concat: "i < length xss \<Longrightarrow> set (xss ! i) \<subseteq> set (concat xss)"
  using nth_mem by fastforce

lemma mset_concat_update:
  "i < length xss \<Longrightarrow> mset (concat (xss[i := ys])) + mset (xss ! i) = mset (concat xss) + mset ys"
proof (induction xss arbitrary: i)
  case (Cons xs xss)
  then show ?case by (cases i) (auto simp: ac_simps)
qed simp

lemma concat_keys_disjoint:
  assumes "slots_ok t" and "i < hSize t" and "e \<in> set (slotPtr t ! i)"
    and "j < hSize t" and "f \<in> set (slotPtr t ! j)" and "fst e = fst f"
  shows "i = j"
  using assms unfolding slots_ok_def by metis

lemma distinct_concat_keys:
  assumes "\<And>i. i < length xss \<Longrightarrow> distinct (map fst (xss ! i))"
    and "\<And>i j e f. i < length xss \<Longrightarrow> j < length xss \<Longrightarrow> e \<in> set (xss ! i) \<Longrightarrow>
      f \<in> set (xss ! j) \<Longrightarrow> fst e = fst f \<Longrightarrow> i = j"
  shows "distinct (map fst (concat xss))"
  using assms
proof (induction xss)
  case Nil
  then show ?case by simp
next
  case (Cons xs xss)
  have "distinct (map fst (concat xss))"
  proof (rule Cons.IH)
    fix i assume "i < length xss"
    then show "distinct (map fst (xss ! i))" using Cons.prems(1) [of "Suc i"] by simp
  next
    fix i j e f
    assume "i < length xss" "j < length xss" "e \<in> set (xss ! i)" "f \<in> set (xss ! j)" "fst e = fst f"
    then show "i = j" using Cons.prems(2) [of "Suc i" "Suc j" e f] by simp
  qed
  moreover have "distinct (map fst xs)" using Cons.prems(1) [of 0] by simp
  moreover have "fst ` set xs \<inter> fst ` set (concat xss) = {}"
  proof (rule ccontr)
    assume "fst ` set xs \<inter> fst ` set (concat xss) \<noteq> {}"
    then obtain e f ys where "e \<in> set xs" "ys \<in> set xss" "f \<in> set ys" "fst e = fst f"
      by fastforce
    moreover from this(2) obtain j where "j < length xss" "ys = xss ! j"
      by (metis in_set_conv_nth)
    ultimately show False using Cons.prems(2) [of 0 "Suc j" e f] by simp
  qed
  ultimately show ?case by simp
qed

lemma ht_ents_distinct:
  assumes "slots_ok t"
  shows "distinct (map fst (ht_ents t))"
proof -
  have l: "length (slotPtr t) = hSize t" using assms by (simp add: slots_ok_def)
  have "distinct (map fst (concat (slotPtr t)))"
  proof (rule distinct_concat_keys)
    fix i assume "i < length (slotPtr t)"
    then show "distinct (map fst (slotPtr t ! i))" using assms l by (simp add: slots_ok_def)
  next
    fix i j e f
    assume "i < length (slotPtr t)" "j < length (slotPtr t)"
      "e \<in> set (slotPtr t ! i)" "f \<in> set (slotPtr t ! j)" "fst e = fst f"
    then show "i = j" using concat_keys_disjoint [OF assms] l by metis
  qed
  then show ?thesis by (simp add: ht_ents_def)
qed

lemma ht_map_ents:
  assumes "slots_ok t"
  shows "ht_map t k = map_of (ht_ents t) k"
proof -
  let ?i = "getAddr (hSize t) k"
  have i: "?i < hSize t" and l: "length (slotPtr t) = hSize t"
    using assms getAddr_less by (auto simp: slots_ok_def)
  have sub: "set (slotPtr t ! ?i) \<subseteq> set (ht_ents t)"
    using i l set_slot_concat [of ?i "slotPtr t"] by (simp add: ht_ents_def)
  have d: "distinct (map fst (slotPtr t ! ?i))" using assms i by (simp add: slots_ok_def)
  show ?thesis
  proof (cases "ht_map t k")
    case (Some v)
    then have "(k, v) \<in> set (slotPtr t ! ?i)" by (auto simp: ht_map_def dest: map_of_SomeD)
    with sub show ?thesis using Some ht_ents_distinct [OF assms] by (auto simp: map_of_eq_Some_iff)
  next
    case None
    have "k \<notin> fst ` set (ht_ents t)"
    proof
      assume "k \<in> fst ` set (ht_ents t)"
      then obtain j e where "j < hSize t" "e \<in> set (slotPtr t ! j)" "fst e = k"
        using l by (auto simp: ht_ents_def in_set_conv_nth) (metis nth_mem fst_conv)
      moreover from this have "j = ?i" using assms by (auto simp: slots_ok_def)
      ultimately have "k \<in> fst ` set (slotPtr t ! ?i)" by auto
      with None show False by (auto simp: ht_map_def map_of_eq_None_iff)
    qed
    with None show ?thesis by (metis map_of_eq_None_iff)
  qed
qed

lemma ht_map_fun: "slots_ok t \<Longrightarrow> ht_map t = map_of (ht_ents t)"
  by (simp add: fun_eq_iff ht_map_ents)

lemma slots_ok_init: "slots_ok (h_initTab n)"
  using getClosestPrime_in by (auto simp: slots_ok_def h_initTab_def Let_def)

lemma ht_ents_init [simp]: "ht_ents (h_initTab n) = []"
  by (simp add: ht_ents_def h_initTab_def Let_def)

lemma ht_ok_init: "ht_ok (h_initTab n)"
  using slots_ok_init [of n] by (auto simp: ht_ok_def h_initTab_def Let_def)

text \<open>Linking a new key into its slot.\<close>

lemma ins_slot_ok:
  assumes ok: "slots_ok t" and new: "fst e \<notin> fst ` set (ht_ents t)"
  shows "slots_ok (ins_slot (getAddr (hSize t) (fst e)) e t)"
    and "mset (ht_ents (ins_slot (getAddr (hSize t) (fst e)) e t)) = add_mset e (mset (ht_ents t))"
    and "hSize (ins_slot (getAddr (hSize t) (fst e)) e t) = hSize t"
    and "hNumEnts (ins_slot (getAddr (hSize t) (fst e)) e t) = hNumEnts t"
proof -
  let ?i = "getAddr (hSize t) (fst e)"
  have i: "?i < hSize t" and l: "length (slotPtr t) = hSize t"
    using ok getAddr_less by (auto simp: slots_ok_def)
  have sub: "set (slotPtr t ! ?i) \<subseteq> set (ht_ents t)"
    using i l set_slot_concat [of ?i "slotPtr t"] by (simp add: ht_ents_def)
  with new have nk: "fst e \<notin> fst ` set (slotPtr t ! ?i)" by auto
  show "slots_ok (ins_slot ?i e t)"
    using ok i nk by (auto simp: slots_ok_def ins_slot_def nth_list_update)
  show "mset (ht_ents (ins_slot ?i e t)) = add_mset e (mset (ht_ents t))"
    using i l mset_concat_update [of ?i "slotPtr t" "e # slotPtr t ! ?i"]
    by (simp add: ht_ents_def ins_slot_def)
qed (simp_all add: ins_slot_def)

section \<open>Rebuilding keeps the entries\<close>

lemma resetSlot_ok:
  assumes "slots_ok t" and "distinct (map fst es)"
    and "fst ` set es \<inter> fst ` set (ht_ents t) = {}"
  shows "slots_ok (resetSlot es t) \<and> hSize (resetSlot es t) = hSize t \<and>
    hNumEnts (resetSlot es t) = hNumEnts t + length es \<and>
    mset (ht_ents (resetSlot es t)) = mset es + mset (ht_ents t)"
  using assms
proof (induction es arbitrary: t)
  case Nil
  then show ?case by simp
next
  case (Cons e es)
  let ?t = "(ins_slot (getAddr (hSize t) (fst e)) e t)\<lparr>hNumEnts := hNumEnts t + 1\<rparr>"
  have new: "fst e \<notin> fst ` set (ht_ents t)" using Cons.prems(3) by auto
  note ins = ins_slot_ok [OF Cons.prems(1) new]
  have ok: "slots_ok ?t" using ins(1) by (simp add: slots_ok_def)
  have ents: "mset (ht_ents ?t) = add_mset e (mset (ht_ents t))"
    using ins(2) by (simp add: ht_ents_def)
  then have "set (ht_ents ?t) = insert e (set (ht_ents t))"
    by (metis set_mset_add_mset_insert set_mset_mset)
  then have "fst ` set es \<inter> fst ` set (ht_ents ?t) = {}" using Cons.prems(2,3) by auto
  then have "slots_ok (resetSlot es ?t) \<and> hSize (resetSlot es ?t) = hSize ?t \<and>
      hNumEnts (resetSlot es ?t) = hNumEnts ?t + length es \<and>
      mset (ht_ents (resetSlot es ?t)) = mset es + mset (ht_ents ?t)"
    using Cons.IH [OF ok] Cons.prems(2) by simp
  then show ?case using ents ins(3,4) by (simp add: Let_def)
qed

lemma resetSlots_ok:
  assumes "slots_ok t" and "distinct (map fst (concat ess))"
    and "fst ` set (concat ess) \<inter> fst ` set (ht_ents t) = {}"
  shows "slots_ok (foldl (\<lambda>t es. resetSlot es t) t ess) \<and>
    hNumEnts (foldl (\<lambda>t es. resetSlot es t) t ess) = hNumEnts t + length (concat ess) \<and>
    mset (ht_ents (foldl (\<lambda>t es. resetSlot es t) t ess)) = mset (concat ess) + mset (ht_ents t)"
  using assms
proof (induction ess arbitrary: t)
  case Nil
  then show ?case by simp
next
  case (Cons es ess)
  have "distinct (map fst es)" "fst ` set es \<inter> fst ` set (ht_ents t) = {}"
    using Cons.prems(2,3) by auto
  note es = resetSlot_ok [OF Cons.prems(1) this]
  then have "mset (ht_ents (resetSlot es t)) = mset (es @ ht_ents t)" by simp
  then have "set (ht_ents (resetSlot es t)) = set (es @ ht_ents t)" by (rule mset_eq_setD)
  then have "fst ` set (ht_ents (resetSlot es t)) = fst ` set es \<union> fst ` set (ht_ents t)"
    by (simp add: image_Un)
  moreover have "fst ` set (concat ess) \<inter> fst ` set es = {}"
    using Cons.prems(2) by (simp add: Int_commute)
  moreover have "fst ` set (concat ess) \<inter> fst ` set (ht_ents t) = {}"
    using Cons.prems(3) by (simp add: image_Un Int_Un_distrib2)
  ultimately have "fst ` set (concat ess) \<inter> fst ` set (ht_ents (resetSlot es t)) = {}"
    by (simp add: Int_Un_distrib)
  then show ?case using Cons.IH [of "resetSlot es t"] es Cons.prems(2) by (auto simp: ac_simps)
qed

lemma resetTab_ok:
  assumes "ht_ok t"
  shows "ht_ok (resetTab t)" and "mset (ht_ents (resetTab t)) = mset (ht_ents t)"
proof -
  have d: "distinct (map fst (concat (slotPtr t)))"
    using ht_ents_distinct assms by (auto simp: ht_ok_def ht_ents_def)
  have r: "slots_ok (resetTab t) \<and> hNumEnts (resetTab t) = length (concat (slotPtr t)) \<and>
      mset (ht_ents (resetTab t)) = mset (concat (slotPtr t))"
    using resetSlots_ok [OF slots_ok_init d, of "hSize t * 2"]
    by (simp add: resetTab_def) (simp add: h_initTab_def Let_def)
  then show "mset (ht_ents (resetTab t)) = mset (ht_ents t)" by (simp add: ht_ents_def)
  with r show "ht_ok (resetTab t)"
    using mset_eq_length [of "ht_ents (resetTab t)" "ht_ents t"]
    by (simp add: ht_ok_def ht_ents_def)
qed

lemma map_of_mset_eq:
  assumes "mset xs = mset ys" and "distinct (map fst xs)"
  shows "map_of xs = map_of ys"
proof -
  have "mset (map fst xs) = mset (map fst ys)" using assms(1) by simp
  then have "distinct (map fst ys)" using assms(2) mset_eq_imp_distinct_iff by blast
  moreover have "set xs = set ys" using assms(1) by (rule mset_eq_setD)
  ultimately show ?thesis using assms(2) map_of_inject_set by blast
qed

lemma resetTab_map: "ht_ok t \<Longrightarrow> ht_map (resetTab t) = ht_map t"
  using resetTab_ok [of t] map_of_mset_eq [of "ht_ents (resetTab t)" "ht_ents t"]
    ht_map_ents [of t] ht_map_ents [of "resetTab t"] ht_ents_distinct [of "resetTab t"]
  by (auto simp: ht_ok_def fun_eq_iff)

section \<open>Each operation on the abstract map\<close>

lemma h_getEnt_map:
  assumes "ht_ok t"
  shows "h_getEnt t key = map_option (Pair key) (ht_map t key)"
proof (cases "hNumEnts t = 0")
  case True
  then have "ht_ents t = []" using assms by (simp add: ht_ok_def ht_ents_def)
  moreover have "slots_ok t" using assms by (simp add: ht_ok_def)
  ultimately show ?thesis using True by (simp add: h_getEnt_def ht_map_ents)
next
  case False
  then show ?thesis by (simp add: h_getEnt_def h_findEnt_map_of ht_map_def)
qed

lemma map_of_add_mset:
  assumes "mset xs = add_mset (k, v) (mset ys)" and "distinct (map fst xs)"
  shows "map_of xs = (map_of ys)(k \<mapsto> v)"
proof -
  have "map_of xs = map_of ((k, v) # ys)" using assms by (intro map_of_mset_eq) simp_all
  then show ?thesis by simp
qed

lemma add_new_ok:
  assumes "ht_ok t" and new: "ht_map t key = None"
  shows "ht_ok ((ins_slot (getAddr (hSize t) key) (key, d) t)\<lparr>hNumEnts := hNumEnts t + 1\<rparr>)"
    and "ht_map ((ins_slot (getAddr (hSize t) key) (key, d) t)\<lparr>hNumEnts := hNumEnts t + 1\<rparr>) =
      (ht_map t)(key \<mapsto> d)"
proof -
  let ?t = "(ins_slot (getAddr (hSize t) key) (key, d) t)\<lparr>hNumEnts := hNumEnts t + 1\<rparr>"
  have ok: "slots_ok t" and n: "hNumEnts t = length (ht_ents t)"
    using assms(1) by (auto simp: ht_ok_def ht_ents_def)
  have "fst (key, d) \<notin> fst ` set (ht_ents t)"
    using new ht_map_ents [OF ok] by (metis fst_conv map_of_eq_None_iff)
  note ins = ins_slot_ok [OF ok this]
  have ok': "slots_ok ?t" using ins(1) by (simp add: slots_ok_def)
  have ents: "mset (ht_ents ?t) = add_mset (key, d) (mset (ht_ents t))"
    using ins(2) by (simp add: ht_ents_def)
  then have "length (ht_ents ?t) = Suc (length (ht_ents t))"
    by (metis size_add_mset size_mset)
  with ok' n show "ht_ok ?t" by (simp add: ht_ok_def ht_ents_def)
  show "ht_map ?t = (ht_map t)(key \<mapsto> d)"
    using map_of_add_mset [OF ents ht_ents_distinct [OF ok']]
    unfolding ht_map_fun [OF ok] ht_map_fun [OF ok'] .
qed

lemma h_addEnt_found: "ht_map t key = Some d \<Longrightarrow> h_addEnt t key = (False, t)"
  by (simp add: h_addEnt_def h_findEnt_map_of ht_map_def)

lemma h_addEnt_new:
  assumes "ht_ok t" and "ht_map t key = None"
  shows "fst (h_addEnt t key)" and "ht_ok (snd (h_addEnt t key))"
    and "ht_map (snd (h_addEnt t key)) = (ht_map t)(key \<mapsto> None)"
proof -
  let ?t = "if 3 * hSize t \<le> 2 * hNumEnts t then resetTab t else t"
  have t: "ht_ok ?t" "ht_map ?t = ht_map t"
    using assms(1) resetTab_ok(1) resetTab_map by auto
  have eq: "h_addEnt t key =
    (True, (ins_slot (getAddr (hSize ?t) key) (key, None) ?t)\<lparr>hNumEnts := hNumEnts ?t + 1\<rparr>)"
    using assms(2)
    by (simp add: h_addEnt_def h_findEnt_map_of ht_map_def Let_def ins_slot_def)
  show "fst (h_addEnt t key)" by (simp add: eq)
  show "ht_ok (snd (h_addEnt t key))"
    using add_new_ok(1) [OF t(1), of key None] assms(2) t(2) by (simp add: eq)
  show "ht_map (snd (h_addEnt t key)) = (ht_map t)(key \<mapsto> None)"
    using add_new_ok(2) [OF t(1), of key None] assms(2) t(2) by (simp add: eq)
qed

lemma map_fst_set_data:
  "map fst (map (\<lambda>e. if fst e = key then (key, d) else e) es) = map fst es"
  by (induction es) auto

lemma map_of_set_data:
  "map_of (map (\<lambda>e. if fst e = key then (key, d) else e) es) k =
     (if k = key \<and> map_of es key \<noteq> None then Some d else map_of es k)"
  by (induction es) auto

lemma set_hData_ok:
  assumes "ht_ok t"
  shows "ht_ok (set_hData t key d)"
    and "ht_map (set_hData t key d) =
      (if ht_map t key = None then ht_map t else (ht_map t)(key \<mapsto> Some d))"
proof -
  let ?i = "getAddr (hSize t) key"
  have i: "?i < hSize t" and l: "length (slotPtr t) = hSize t"
    using assms getAddr_less by (auto simp: ht_ok_def slots_ok_def)
  have ok: "slots_ok (set_hData t key d)"
    using assms i
    by (auto simp: ht_ok_def slots_ok_def set_hData_def Let_def nth_list_update map_fst_set_data
        simp del: map_map)
  have "length (concat (slotPtr (set_hData t key d))) = length (concat (slotPtr t))"
    using arg_cong [OF mset_concat_update [of ?i "slotPtr t"
          "map (\<lambda>e. if fst e = key then (key, Some d) else e) (slotPtr t ! ?i)"], of size] i l
    by (simp add: set_hData_def Let_def flip: size_mset)
  with ok assms show "ht_ok (set_hData t key d)" by (simp add: ht_ok_def set_hData_def Let_def)
  have "getAddr (hSize t) k = ?i \<Longrightarrow> map_of (slotPtr t ! ?i) k = ht_map t k" for k
    by (simp add: ht_map_def)
  then show "ht_map (set_hData t key d) =
      (if ht_map t key = None then ht_map t else (ht_map t)(key \<mapsto> Some d))"
    using i l
    by (auto simp: fun_eq_iff ht_map_def set_hData_def Let_def nth_list_update map_of_set_data)
qed

lemma map_of_filter_key:
  "map_of (filter (\<lambda>x. fst x \<noteq> key) es) k = (if k = key then None else map_of es k)"
  by (induction es) auto

lemma length_filter_key:
  "distinct (map fst es) \<Longrightarrow> map_of es key = Some d \<Longrightarrow>
   length es = Suc (length (filter (\<lambda>x. fst x \<noteq> key) es))"
proof (induction es)
  case (Cons e es)
  show ?case
  proof (cases "fst e = key")
    case True
    with Cons.prems have "\<forall>x \<in> set es. fst x \<noteq> key" by (metis distinct.simps(2) image_eqI
          list.set_map list.simps(9))
    then have "filter (\<lambda>x. fst x \<noteq> key) es = es" by (simp add: filter_id_conv)
    with True show ?thesis by simp
  next
    case False
    with Cons show ?thesis by (cases e) auto
  qed
qed simp

lemma h_delEnt_ok:
  assumes "ht_ok t" and "ht_map t key = Some d"
  shows "ht_ok (h_delEnt t (Some (key, d)))"
    and "ht_map (h_delEnt t (Some (key, d))) = (ht_map t)(key := None)"
proof -
  let ?i = "getAddr (hSize t) key" and ?f = "\<lambda>es. filter (\<lambda>x. fst x \<noteq> key) (es :: 'a hEnt list)"
  have i: "?i < hSize t" and l: "length (slotPtr t) = hSize t"
    using assms(1) getAddr_less by (auto simp: ht_ok_def slots_ok_def)
  have ok: "slots_ok (h_delEnt t (Some (key, d)))"
    using assms(1) i
    by (auto simp: ht_ok_def slots_ok_def h_delEnt_def Let_def nth_list_update distinct_map_filter)
  have "length (slotPtr t ! ?i) = Suc (length (?f (slotPtr t ! ?i)))"
    using assms i by (intro length_filter_key) (auto simp: ht_ok_def slots_ok_def ht_map_def)
  then have "length (concat ((slotPtr t)[?i := ?f (slotPtr t ! ?i)])) + 1 = length (concat (slotPtr t))"
    using arg_cong [OF mset_concat_update [of ?i "slotPtr t" "?f (slotPtr t ! ?i)"], of size] i l
    by (simp flip: size_mset)
  with ok assms(1) show "ht_ok (h_delEnt t (Some (key, d)))"
    by (simp add: ht_ok_def h_delEnt_def Let_def)
  show "ht_map (h_delEnt t (Some (key, d))) = (ht_map t)(key := None)"
    using i l by (auto simp: fun_eq_iff ht_map_def h_delEnt_def Let_def nth_list_update map_of_filter_key)
qed

section \<open>The table as an interface\<close>

text \<open>
  What the clients of a keyed table rely on, whatever its representation: a
  lookup sees the last value stored under the key and nothing else.
\<close>

datatype ('k, 'v) tab_op = Put 'k 'v | Del 'k

fun tab_step :: "('t \<Rightarrow> 'k \<Rightarrow> 'v \<Rightarrow> 't) \<Rightarrow> ('t \<Rightarrow> 'k \<Rightarrow> 't) \<Rightarrow> 't \<Rightarrow> ('k, 'v) tab_op \<Rightarrow> 't" where
  "tab_step put del t (Put k v) = put t k v"
| "tab_step put del t (Del k) = del t k"

fun map_step :: "('k \<Rightarrow> 'v option) \<Rightarrow> ('k, 'v) tab_op \<Rightarrow> 'k \<Rightarrow> 'v option" where
  "map_step m (Put k v) = m(k \<mapsto> v)"
| "map_step m (Del k) = m(k := None)"

locale keyed_table =
  fixes init :: 't
    and get :: "'t \<Rightarrow> 'k \<Rightarrow> 'v option"
    and put :: "'t \<Rightarrow> 'k \<Rightarrow> 'v \<Rightarrow> 't"
    and del :: "'t \<Rightarrow> 'k \<Rightarrow> 't"
    and ok :: "'t \<Rightarrow> bool"
  assumes ok_init: "ok init"
    and get_init: "get init k = None"
    and ok_put: "ok t \<Longrightarrow> ok (put t k v)"
    and get_put: "ok t \<Longrightarrow> get (put t k v) k' = (if k' = k then Some v else get t k')"
    and ok_del: "ok t \<Longrightarrow> ok (del t k)"
    and get_del: "ok t \<Longrightarrow> get (del t k) k' = (if k' = k then None else get t k')"
begin

lemma run_from:
  "ok t \<Longrightarrow> ok (foldl (tab_step put del) t ops) \<and>
     get (foldl (tab_step put del) t ops) = foldl map_step (get t) ops"
proof (induction ops arbitrary: t)
  case (Cons x ops)
  have "ok (tab_step put del t x)" "get (tab_step put del t x) = map_step (get t) x"
    using Cons.prems by (cases x; auto simp: ok_put ok_del get_put get_del fun_eq_iff)+
  with Cons.IH show ?case by simp
qed simp

lemma run_init:
  "ok (foldl (tab_step put del) init ops) \<and>
     get (foldl (tab_step put del) init ops) = foldl map_step Map.empty ops"
proof -
  have "get init = Map.empty" using get_init by (simp add: fun_eq_iff)
  then show ?thesis using run_from [OF ok_init, of ops] by simp
qed

end

definition ht_get :: "'d hTab \<Rightarrow> string \<Rightarrow> 'd option" where
  "ht_get t k = (case h_getEnt t k of None \<Rightarrow> None | Some e \<Rightarrow> snd e)"

definition ht_put :: "'d hTab \<Rightarrow> string \<Rightarrow> 'd \<Rightarrow> 'd hTab" where
  "ht_put t k d = set_hData (snd (h_addEnt t k)) k d"

definition ht_del :: "'d hTab \<Rightarrow> string \<Rightarrow> 'd hTab" where
  "ht_del t k = h_delEnt t (h_getEnt t k)"

lemma ht_get_map: "ht_ok t \<Longrightarrow> ht_get t k = Option.bind (ht_map t k) id"
  by (cases "ht_map t k") (simp_all add: ht_get_def h_getEnt_map)

lemma ht_put_ok:
  assumes "ht_ok t"
  shows "ht_ok (ht_put t k d)" and "ht_map (ht_put t k d) = (ht_map t)(k \<mapsto> Some d)"
proof -
  have a: "ht_ok (snd (h_addEnt t k)) \<and> ht_map (snd (h_addEnt t k)) k \<noteq> None \<and>
      (ht_map (snd (h_addEnt t k)))(k \<mapsto> Some d) = (ht_map t)(k \<mapsto> Some d)"
    using assms h_addEnt_new [OF assms, of k] h_addEnt_found [of t k]
    by (cases "ht_map t k") auto
  then show "ht_ok (ht_put t k d)" using set_hData_ok(1) by (auto simp: ht_put_def)
  from a show "ht_map (ht_put t k d) = (ht_map t)(k \<mapsto> Some d)"
    using set_hData_ok(2) [of "snd (h_addEnt t k)" k d] by (auto simp: ht_put_def)
qed

lemma ht_del_ok:
  assumes "ht_ok t"
  shows "ht_ok (ht_del t k)" and "ht_map (ht_del t k) = (ht_map t)(k := None)"
  using assms h_delEnt_ok [OF assms, of k]
  by (cases "ht_map t k"; auto simp: ht_del_def h_getEnt_map h_delEnt_def fun_eq_iff)+

interpretation ht: keyed_table "h_initTab n" ht_get ht_put ht_del ht_ok
proof (unfold_locales, goal_cases)
  case 1 show ?case by (rule ht_ok_init)
next
  case (2 k) show ?case by (simp add: ht_get_def h_getEnt_def h_initTab_def Let_def)
next
  case (3 t k v) then show ?case by (rule ht_put_ok(1))
next
  case (4 t k v k') then show ?case by (simp add: ht_get_map ht_put_ok)
next
  case (5 t k) then show ?case by (rule ht_del_ok(1))
next
  case (6 t k k') then show ?case by (simp add: ht_get_map ht_del_ok)
qed

section \<open>Iteration visits every entry once\<close>

definition ents_from :: "'d hTab \<Rightarrow> 'd sTab \<Rightarrow> 'd hEnt list" where
  "ents_from t s = (case hEntPtr s of None \<Rightarrow> [] | Some es \<Rightarrow> es) @ concat (drop (nIndex s) (slotPtr t))"

lemma h_nextEnt_from:
  assumes "length (slotPtr t) = hSize t"
  shows "fst (h_nextEnt t s) = (case ents_from t s of [] \<Rightarrow> None | e # _ \<Rightarrow> Some e) \<and>
    (ents_from t s \<noteq> [] \<longrightarrow> ents_from t (snd (h_nextEnt t s)) = tl (ents_from t s))"
  using assms
proof (induction t s rule: h_nextEnt.induct)
  case (1 t s)
  show ?case
  proof (cases "hEntPtr s = None \<or> hEntPtr s = Some []")
    case False
    then obtain e es where "hEntPtr s = Some (e # es)"
      by (metis list.exhaust option.exhaust)
    then show ?thesis by (simp add: h_nextEnt.simps [of t s] ents_from_def)
  next
    case True
    then have fr: "ents_from t s = concat (drop (nIndex s) (slotPtr t))"
      by (auto simp: ents_from_def)
    show ?thesis
    proof (cases "hSize t \<le> nIndex s")
      case le: True
      then show ?thesis using True 1(3) fr by (auto simp: h_nextEnt.simps [of t s])
    next
      case lt: False
      then have dr: "drop (nIndex s) (slotPtr t) =
          slotPtr t ! nIndex s # drop (Suc (nIndex s)) (slotPtr t)"
        using 1(3) by (simp add: Cons_nth_drop_Suc)
      show ?thesis
      proof (cases "slotPtr t ! nIndex s")
        case Nil
        let ?s = "s\<lparr>nIndex := nIndex s + 1\<rparr>"
        have "ents_from t ?s = ents_from t s"
          using fr dr Nil True by (auto simp: ents_from_def)
        moreover have "h_nextEnt t s = h_nextEnt t ?s"
          using True lt Nil by (auto simp: h_nextEnt.simps [of t s])
        moreover have "fst (h_nextEnt t ?s) = (case ents_from t ?s of [] \<Rightarrow> None | e # _ \<Rightarrow> Some e) \<and>
          (ents_from t ?s \<noteq> [] \<longrightarrow> ents_from t (snd (h_nextEnt t ?s)) = tl (ents_from t ?s))"
          using 1 True lt Nil by auto
        ultimately show ?thesis by simp
      next
        case (Cons e es)
        then show ?thesis using True lt fr dr
          by (auto simp: h_nextEnt.simps [of t s] ents_from_def)
      qed
    qed
  qed
qed

lemma for_each_loop_from:
  assumes "length (slotPtr t) = hSize t" and "ents_from t s = es"
  shows "for_each_loop t (fst (h_nextEnt t s)) (snd (h_nextEnt t s)) acc = Some (acc @ es)"
  using assms(2)
proof (induction es arbitrary: s acc)
  case Nil
  then show ?case using h_nextEnt_from [OF assms(1), of s] by (simp add: for_each_loop.simps)
next
  case (Cons e es)
  then have "fst (h_nextEnt t s) = Some e" "ents_from t (snd (h_nextEnt t s)) = es"
    using h_nextEnt_from [OF assms(1), of s] by simp_all
  then show ?case using Cons.IH by (simp add: for_each_loop.simps [of t "Some e"])
qed

lemma for_each_entry_ents:
  assumes "ht_ok t"
  shows "for_each_entry t = Some (ht_ents t)"
proof -
  have l: "length (slotPtr t) = hSize t" and "0 < hSize t"
    using assms prime_pos by (auto simp: ht_ok_def slots_ok_def)
  then have "slotPtr t \<noteq> []" by auto
  then show ?thesis
    using for_each_loop_from [OF l, of "\<lparr>nIndex = 0, hEntPtr = None\<rparr>" "ht_ents t" "[]"]
    by (simp add: for_each_entry_def h_firstEnt_def Let_def ents_from_def ht_ents_def)
qed

lemma ht_ents_single:
  fixes d :: 'd
  shows "ht_ents (ht_put (h_initTab n) k d) = [(k, Some d)]"
proof -
  let ?es = "ht_ents (ht_put (h_initTab n) k d)"
  have ok: "slots_ok (ht_put (h_initTab n) k d)"
    using ht_put_ok(1) [OF ht_ok_init, of n k d] by (simp add: ht_ok_def)
  have "ht_map (h_initTab n :: 'd hTab) = Map.empty" using ht_map_fun [OF slots_ok_init] by simp
  then have m: "map_of ?es = [k \<mapsto> Some d]"
    using ht_put_ok(2) [OF ht_ok_init, of n k d] ht_map_fun [OF ok] by simp
  have d: "distinct (map fst ?es)" using ht_ents_distinct [OF ok] .
  have "set ?es = {(k, Some d)}"
  proof (rule set_eqI)
    fix e
    have "e \<in> set ?es \<longleftrightarrow> map_of ?es (fst e) = Some (snd e)" using map_of_eq_Some_iff [OF d] by simp
    then show "e \<in> set ?es \<longleftrightarrow> e \<in> {(k, Some d)}" using m by (cases e) auto
  qed
  moreover have "distinct ?es" using d by (simp add: distinct_map)
  ultimately have "length ?es = 1" "set ?es = {(k, Some d)}" using distinct_card [of ?es] by simp_all
  then show ?thesis by (cases ?es) auto
qed
section \<open>Properties\<close>

text \<open>
  C23.  Whatever sequence of stores and deletions is run on a new table, with
  the rebuilds they cause, the table keeps its invariant (every entry in the
  slot of its hash value, keys unique, the counter exact) and a lookup gives
  what a finite map gives after the same sequence.
\<close>

theorem table_refines_map:
  "ht_ok (foldl (tab_step ht_put ht_del) (h_initTab n) ops) \<and>
   ht_get (foldl (tab_step ht_put ht_del) (h_initTab n) ops) = foldl map_step Map.empty ops"
  by (rule ht.run_init)

text \<open>
  C27.  Rebuilding a table changes neither its lookups nor its entries, and
  afterwards the iteration of \<open>FOR_EACH_HTAB_ENTRY\<close> returns, visits every key
  once and no key twice, and sees what lookups see.
\<close>

theorem rebuild_then_iterate:
  assumes "ht_ok t"
  shows "ht_ok (resetTab t) \<and> ht_map (resetTab t) = ht_map t \<and>
    (\<exists>es. for_each_entry (resetTab t) = Some es \<and> distinct (map fst es) \<and> map_of es = ht_map t \<and>
      mset es = mset (ht_ents t))"
proof -
  have ok: "ht_ok (resetTab t)" using resetTab_ok(1) [OF assms] .
  then have "slots_ok (resetTab t)" by (simp add: ht_ok_def)
  then show ?thesis
    using ok resetTab_ok(2) [OF assms] resetTab_map [OF assms] for_each_entry_ents [OF ok]
      ht_ents_distinct [of "resetTab t"] ht_map_fun [of "resetTab t"] by simp
qed

theorem rebuild_then_iterate_witness:
  "\<exists>es. for_each_entry (resetTab (ht_put (h_initTab 4) ''lsfadmin'' (7 :: nat))) = Some es \<and>
     distinct (map fst es) \<and> map_of es ''lsfadmin'' = Some (Some 7)"
proof -
  let ?t = "ht_put (h_initTab 4) ''lsfadmin'' (7 :: nat)"
  have ok: "ht_ok ?t" using ht_put_ok(1) [OF ht_ok_init] .
  have "ht_map ?t ''lsfadmin'' = Some (Some 7)" by (simp add: ht_put_ok(2) [OF ht_ok_init])
  then show ?thesis using rebuild_then_iterate [OF ok] by auto
qed

end
