(* ===== verification/Bit_Set.thy ===== *)
theory Bit_Set
  imports Prelude
begin

unbundle bit_operations_syntax

text \<open>
  The bit sets of \<open>lsf/intlib/bitset.c\<close>: a growing array of 32 bit words with
  its width, its size in bits and a counter of elements, all \<open>unsigned int\<close>.
  mbatchd keeps the parents, ancestors, children and descendants of users and
  user groups and the hosts of a queue in such sets.

  An object is put into a set under an index: the value of \<open>getIndexByObject\<close>
  on it, or, for a set made without that function, the integer it points to,
  which is the parameter \<open>rd\<close> (a read of memory) here.  \<open>None\<close> as the result
  of an operation is a crash: an access outside the array, which includes the
  null array left behind when \<open>realloc\<close> fails (the parameter \<open>mem\<close> says
  whether it succeeds).
\<close>

section \<open>The set\<close>

datatype bs_err = BS_BADARG | BS_SETEMPTY | BS_NOMEM | BS_FUNC | BS_ISALREDY | BS_EINVAL | BS_NOOBSVR

datatype bs_event_type = BS_EVENT_ENTER | BS_EVENT_LEAVE | BS_EVENT_NULL

record 'o bs_observer =
  bo_name :: string
  bo_select :: "(bs_event_type \<Rightarrow> 'o \<Rightarrow> bool) option"
  bo_enter :: bool
  bo_leave :: bool

record 'o bitset =
  bitmask :: "uint32 list"
  setSize :: uint32
  setWidth :: uint32
  setNumElements :: uint32
  bs_allowObservers :: bool
  bs_observers :: "'o bs_observer list"
  getIndexByObject :: "('o \<Rightarrow> int) option"
  getObjectByIndex :: "(nat \<Rightarrow> 'o option) option"

definition WORDLENGTH :: nat where "WORDLENGTH = 32"

definition setCreate ::
    "int \<Rightarrow> ('o \<Rightarrow> int) option \<Rightarrow> (nat \<Rightarrow> 'o option) option \<Rightarrow> 'o bitset" where
  "setCreate sz directFunction inverseFunction =
     (let sz = (if 0 < sz then sz else int WORDLENGTH);
          width = (nat sz + WORDLENGTH - 1) div WORDLENGTH
      in \<lparr>bitmask = replicate width 0,
          setSize = of_nat width * of_nat WORDLENGTH,
          setWidth = of_nat width,
          setNumElements = 0,
          bs_allowObservers = False,
          bs_observers = [],
          getIndexByObject = directFunction,
          getObjectByIndex = inverseFunction\<rparr>)"

definition simpleSetCreate :: "int \<Rightarrow> 'o bitset" where
  "simpleSetCreate sz = setCreate sz None None"

text \<open>\<open>setDup\<close> allocates a zeroed set and copies the width and the mask.\<close>

definition setDup :: "'o bitset \<Rightarrow> 'o bitset" where
  "setDup s =
     \<lparr>bitmask = take (unat (setWidth s)) (bitmask s), setSize = 0, setWidth = setWidth s,
      setNumElements = 0, bs_allowObservers = False, bs_observers = [],
      getIndexByObject = None, getObjectByIndex = None\<rparr>"

definition setTestValue :: "'o bitset \<Rightarrow> nat \<Rightarrow> bool" where
  "setTestValue s v = (bitmask s ! (v div WORDLENGTH) AND push_bit (v mod WORDLENGTH) 1 \<noteq> 0)"

text \<open>The index of an object: \<open>Inl\<close> where the index function reports an error.\<close>

definition objIndex :: "('o \<Rightarrow> int) \<Rightarrow> 'o bitset \<Rightarrow> 'o \<Rightarrow> bs_err + int" where
  "objIndex rd s obj =
     (case getIndexByObject s of
        None \<Rightarrow> Inr (rd obj)
      | Some f \<Rightarrow> if f obj < 0 then Inl BS_FUNC else Inr (f obj))"

text \<open>
  \<open>setIsMember\<close> returns a \<open>bool_t\<close>, which is an \<open>int\<close>: 0, 1, or -1 on a failing
  index function.  The index is compared with the size as \<open>unsigned int\<close>.
\<close>

definition setIsMember :: "('o \<Rightarrow> int) \<Rightarrow> 'o bitset option \<Rightarrow> 'o \<Rightarrow> int \<times> bs_err option" where
  "setIsMember rd st obj =
     (case st of
        None \<Rightarrow> (0, Some BS_BADARG)
      | Some s \<Rightarrow>
          if setNumElements s = 0 then (0, Some BS_SETEMPTY)
          else (case objIndex rd s obj of
                  Inl e \<Rightarrow> (-1, Some e)
                | Inr x \<Rightarrow>
                    if setSize s \<le> word_of_int x then (0, None)
                    else (if setTestValue s (nat x) then 1 else 0, None)))"

definition setEnlarge :: "bool \<Rightarrow> 'o bitset \<Rightarrow> uint32 \<Rightarrow> 'o bitset option" where
  "setEnlarge mem s newSize =
     (let oldWidth = setWidth s;
          width = setWidth s + (newSize + 2)
      in if \<not> mem \<or> width < oldWidth then None
         else Some (s\<lparr>setWidth := width,
                      bitmask := bitmask s @ replicate (unat width - unat oldWidth) 0,
                      setSize := width * of_nat WORDLENGTH\<rparr>))"

fun bsNotify :: "bs_event_type \<Rightarrow> 'o \<Rightarrow> 'o bs_observer list \<Rightarrow> string list" where
  "bsNotify ev obj [] = []"
| "bsNotify ev obj (ob # obs) =
     (if (case bo_select ob of None \<Rightarrow> False | Some sel \<Rightarrow> \<not> sel ev obj)
      then bsNotify ev obj obs
      else (if ev = BS_EVENT_ENTER \<and> bo_enter ob \<or> ev = BS_EVENT_LEAVE \<and> bo_leave ob
            then bo_name ob # bsNotify ev obj obs
            else if ev = BS_EVENT_NULL then [] else bsNotify ev obj obs))"

definition setBit :: "'o bitset \<Rightarrow> nat \<Rightarrow> 'o bitset option" where
  "setBit s x =
     (let word = x div WORDLENGTH; offset = x mod WORDLENGTH
      in if word < length (bitmask s)
         then Some (s\<lparr>bitmask := (bitmask s)[word := bitmask s ! word OR push_bit offset 1]\<rparr>)
         else None)"

text \<open>
  \<open>setAddElement\<close>: return value, error number (if set), names of the observers
  whose enter callback is called, new set.
\<close>

definition setAddElement ::
    "bool \<Rightarrow> ('o \<Rightarrow> int) \<Rightarrow> 'o bitset option \<Rightarrow> 'o \<Rightarrow>
      (int \<times> bs_err option \<times> string list \<times> 'o bitset option) option" where
  "setAddElement mem rd st obj =
     (case st of
        None \<Rightarrow> Some (-1, Some BS_BADARG, [], None)
      | Some s \<Rightarrow>
          (case objIndex rd s obj of
             Inl e \<Rightarrow> Some (-1, Some e, [], Some s)
           | Inr x \<Rightarrow>
               if x < 0 then None
               else if word_of_int x < setSize s \<and> setTestValue s (nat x)
               then Some (-1, Some BS_ISALREDY, [], Some s)
               else Option.bind
                      (if setSize s \<le> word_of_int x then setEnlarge mem s (word_of_int x) else Some s)
                      (\<lambda>s. Option.bind (setBit s (nat x))
                        (\<lambda>s. let s = s\<lparr>setNumElements := setNumElements s + 1\<rparr>
                             in Some (0, None,
                                  if bs_allowObservers s
                                  then bsNotify BS_EVENT_ENTER obj (bs_observers s) else [],
                                  Some s)))))"

text \<open>
  \<open>setRemoveElement\<close>: the guard on a failing index function tests the wrong
  variable and never fires, so a negative index is only caught by the unsigned
  comparison with the size.  The bit is cleared and the counter decremented
  whether or not the element was there.
\<close>

definition setRemoveElement ::
    "('o \<Rightarrow> int) \<Rightarrow> 'o bitset option \<Rightarrow> 'o \<Rightarrow> (int \<times> bs_err option \<times> 'o bitset option) option" where
  "setRemoveElement rd st obj =
     (case st of
        None \<Rightarrow> Some (-1, Some BS_BADARG, None)
      | Some s \<Rightarrow>
          if setNumElements s = 0 then Some (-1, Some BS_SETEMPTY, Some s)
          else let x = (case getIndexByObject s of None \<Rightarrow> rd obj | Some f \<Rightarrow> f obj)
               in if setSize s \<le> word_of_int x then Some (0, None, Some s)
                  else let word = nat x div WORDLENGTH; offset = nat x mod WORDLENGTH
                       in if word < length (bitmask s)
                          then Some (0, None,
                             Some (s\<lparr>bitmask := (bitmask s)[word :=
                                        bitmask s ! word AND NOT (push_bit offset 1)],
                                     setNumElements := setNumElements s - 1\<rparr>))
                          else None)"

definition setClear :: "'o bitset option \<Rightarrow> int \<times> bs_err option \<times> 'o bitset option" where
  "setClear st =
     (case st of
        None \<Rightarrow> (-1, Some BS_BADARG, None)
      | Some s \<Rightarrow> (0, None, Some (s\<lparr>bitmask := map (\<lambda>_. 0) (bitmask s), setNumElements := 0\<rparr>)))"

section \<open>Counting bits\<close>

text \<open>
  The table \<open>nbits\<close> of the source holds the number of ones of every byte; the
  count of a word adds the entries of its four bytes.
\<close>

fun count_ones :: "nat \<Rightarrow> nat \<Rightarrow> nat" where
  "count_ones 0 n = 0"
| "count_ones (Suc k) n = n mod 2 + count_ones k (n div 2)"

definition nbits :: "nat list" where
  "nbits = [
    0, 1, 1, 2, 1, 2, 2, 3, 1, 2, 2, 3, 2, 3, 3, 4, 1, 2, 2, 3, 2, 3, 3, 4, 2, 3, 3, 4, 3, 4, 4, 5,
    1, 2, 2, 3, 2, 3, 3, 4, 2, 3, 3, 4, 3, 4, 4, 5, 2, 3, 3, 4, 3, 4, 4, 5, 3, 4, 4, 5, 4, 5, 5, 6,
    1, 2, 2, 3, 2, 3, 3, 4, 2, 3, 3, 4, 3, 4, 4, 5, 2, 3, 3, 4, 3, 4, 4, 5, 3, 4, 4, 5, 4, 5, 5, 6,
    2, 3, 3, 4, 3, 4, 4, 5, 3, 4, 4, 5, 4, 5, 5, 6, 3, 4, 4, 5, 4, 5, 5, 6, 4, 5, 5, 6, 5, 6, 6, 7,
    1, 2, 2, 3, 2, 3, 3, 4, 2, 3, 3, 4, 3, 4, 4, 5, 2, 3, 3, 4, 3, 4, 4, 5, 3, 4, 4, 5, 4, 5, 5, 6,
    2, 3, 3, 4, 3, 4, 4, 5, 3, 4, 4, 5, 4, 5, 5, 6, 3, 4, 4, 5, 4, 5, 5, 6, 4, 5, 5, 6, 5, 6, 6, 7,
    2, 3, 3, 4, 3, 4, 4, 5, 3, 4, 4, 5, 4, 5, 5, 6, 3, 4, 4, 5, 4, 5, 5, 6, 4, 5, 5, 6, 5, 6, 6, 7,
    3, 4, 4, 5, 4, 5, 5, 6, 4, 5, 5, 6, 5, 6, 6, 7, 4, 5, 5, 6, 5, 6, 6, 7, 5, 6, 6, 7, 6, 7, 7, 8]"

definition getNum1BitsInWord :: "uint32 \<Rightarrow> nat" where
  "getNum1BitsInWord w =
     (\<Sum>i\<leftarrow>[0..<4]. nbits ! unat (take_bit 8 (drop_bit (8 * i) w)))"

definition setGetNumElements :: "'o bitset option \<Rightarrow> int \<times> bs_err option" where
  "setGetNumElements st =
     (case st of
        None \<Rightarrow> (-1, Some BS_BADARG)
      | Some s \<Rightarrow> (int (\<Sum>w\<leftarrow>bitmask s. getNum1BitsInWord w), None))"

section \<open>Set operations\<close>

abbreviation (input) LS_SET_UNION :: int where "LS_SET_UNION \<equiv> 0"
abbreviation (input) LS_SET_INTERSECT :: int where "LS_SET_INTERSECT \<equiv> 1"
abbreviation (input) LS_SET_DIFFERENCE :: int where "LS_SET_DIFFERENCE \<equiv> 2"
abbreviation (input) LS_SET_ASSIGN :: int where "LS_SET_ASSIGN \<equiv> 5"

definition setOperate ::
    "bool \<Rightarrow> 'o bitset \<Rightarrow> 'o bitset \<Rightarrow> int \<Rightarrow> (bs_err option \<times> 'o bitset) option" where
  "setOperate mem dest src opr =
     (if opr \<notin> {LS_SET_UNION, LS_SET_INTERSECT, LS_SET_DIFFERENCE, LS_SET_ASSIGN}
      then Some (Some BS_EINVAL, dest)
      else Option.bind
        (if setWidth dest < setWidth src then setEnlarge mem dest (setWidth src) else Some dest)
        (\<lambda>dest.
          let n = unat (setWidth src);
              d = take n (bitmask dest);
              rest = drop n (bitmask dest);
              s = bitmask src
          in Some (None, dest\<lparr>bitmask :=
               (if opr = LS_SET_UNION then map2 (OR) d s @ rest
                else if opr = LS_SET_INTERSECT then map2 (AND) d s @ map (\<lambda>_. 0) rest
                else if opr = LS_SET_DIFFERENCE then map2 (XOR) d s @ rest
                else s @ map (\<lambda>_. 0) rest)\<rparr>)))"

section \<open>Iterators\<close>

record 'o bs_iter =
  bi_set :: "'o bitset"
  setCurrentBit :: nat
  bi_setSize :: uint32

definition setIteratorAttach :: "'o bitset \<Rightarrow> 'o bs_iter" where
  "setIteratorAttach s = \<lparr>bi_set = s, setCurrentBit = 0, bi_setSize = setSize s\<rparr>"

text \<open>
  The element under the iterator: \<open>ofbit\<close> is the conversion of the bit number
  to a pointer, which for bit 0 is the null pointer, \<open>None\<close>.
\<close>

function setIteratorGetNextElement ::
    "(nat \<Rightarrow> 'o option) \<Rightarrow> 'o bs_iter \<Rightarrow> 'o option \<times> bs_err option \<times> 'o bs_iter" where
  "setIteratorGetNextElement ofbit iter =
     (if setNumElements (bi_set iter) = 0 then (None, Some BS_SETEMPTY, iter)
      else if unat (setSize (bi_set iter)) \<le> setCurrentBit iter then (None, None, iter)
      else if setTestValue (bi_set iter) (setCurrentBit iter)
      then (case getObjectByIndex (bi_set iter) of
              None \<Rightarrow> (ofbit (setCurrentBit iter), None,
                        iter\<lparr>setCurrentBit := setCurrentBit iter + 1\<rparr>)
            | Some f \<Rightarrow>
                (case f (setCurrentBit iter) of
                   None \<Rightarrow> (None, Some BS_FUNC, iter)
                 | Some obj \<Rightarrow> (Some obj, None, iter\<lparr>setCurrentBit := setCurrentBit iter + 1\<rparr>)))
      else setIteratorGetNextElement ofbit (iter\<lparr>setCurrentBit := setCurrentBit iter + 1\<rparr>))"
  by pat_completeness auto
termination
  by (relation "measure (\<lambda>(ofbit, iter). unat (setSize (bi_set iter)) - setCurrentBit iter)") auto

declare setIteratorGetNextElement.simps [simp del]

definition setIteratorBegin ::
    "(nat \<Rightarrow> 'o option) \<Rightarrow> 'o bs_iter \<Rightarrow> 'o option \<times> bs_err option \<times> 'o bs_iter" where
  "setIteratorBegin ofbit iter = setIteratorGetNextElement ofbit iter"

definition setIteratorIsEndOfSet :: "'o bs_iter \<Rightarrow> bool" where
  "setIteratorIsEndOfSet iter = (unat (bi_setSize iter) \<le> setCurrentBit iter)"

text \<open>
  The loop of the macros \<open>FOR_EACH_USER_...\<close> of \<open>mbd.h\<close>: the objects visited
  until the iterator returns the null pointer.
\<close>

lemma next_element_advances:
  assumes "setIteratorGetNextElement ofbit iter = (Some obj, e, iter')"
  shows "setCurrentBit iter < setCurrentBit iter' \<and> bi_set iter' = bi_set iter \<and>
    setCurrentBit iter < unat (setSize (bi_set iter))"
  using assms
proof (induction ofbit iter rule: setIteratorGetNextElement.induct)
  case (1 ofbit iter)
  then show ?case
    by (auto simp: setIteratorGetNextElement.simps [of ofbit iter] split: if_splits option.splits)
qed

lemma bs_iter_left_less:
  assumes "fst (setIteratorGetNextElement ofbit iter) \<noteq> None"
  shows "unat (setSize (bi_set (snd (snd (setIteratorGetNextElement ofbit iter))))) -
      setCurrentBit (snd (snd (setIteratorGetNextElement ofbit iter))) <
    unat (setSize (bi_set iter)) - setCurrentBit iter"
proof -
  obtain obj e iter' where nx: "setIteratorGetNextElement ofbit iter = (Some obj, e, iter')"
    using assms by (metis option.exhaust prod.collapse)
  show ?thesis using next_element_advances [OF nx] by (simp add: nx diff_less_mono2)
qed

function bsForEachLoop ::
    "(nat \<Rightarrow> 'o option) \<Rightarrow> 'o option \<Rightarrow> 'o bs_iter \<Rightarrow> 'o list \<Rightarrow> 'o list" where
  "bsForEachLoop ofbit cur iter acc =
     (case cur of
        None \<Rightarrow> acc
      | Some obj \<Rightarrow>
          let nx = setIteratorGetNextElement ofbit iter
          in bsForEachLoop ofbit (fst nx) (snd (snd nx)) (acc @ [obj]))"
  by pat_completeness auto
termination
proof (relation "measure (\<lambda>(ofbit, cur, iter, acc). if cur = None then 0
    else Suc (unat (setSize (bi_set iter)) - setCurrentBit iter))")
  fix ofbit :: "nat \<Rightarrow> 'o option" and cur :: "'o option" and iter acc obj nx
  assume "cur = Some obj" and nx: "nx = setIteratorGetNextElement ofbit iter"
  then show "((ofbit, fst nx, snd (snd nx), acc @ [obj]), ofbit, cur, iter, acc) \<in>
      measure (\<lambda>(ofbit, cur, iter, acc). if cur = None then 0
        else Suc (unat (setSize (bi_set iter)) - setCurrentBit iter))"
    unfolding nx using bs_iter_left_less [of ofbit iter]
    by (cases "fst (setIteratorGetNextElement ofbit iter)") simp_all
qed simp

declare bsForEachLoop.simps [simp del]

definition bsForEach :: "(nat \<Rightarrow> 'o option) \<Rightarrow> 'o bitset \<Rightarrow> 'o list" where
  "bsForEach ofbit s =
     (let b = setIteratorBegin ofbit (setIteratorAttach s)
      in bsForEachLoop ofbit (fst b) (snd (snd b)) [])"

section \<open>Invariant and abstraction\<close>

definition bs_ok :: "'o bitset \<Rightarrow> bool" where
  "bs_ok s \<longleftrightarrow> length (bitmask s) = unat (setWidth s) \<and> unat (setSize s) = 32 * unat (setWidth s)"

definition bs_set :: "'o bitset \<Rightarrow> nat set" where
  "bs_set s = {i. i < 32 * length (bitmask s) \<and> bit (bitmask s ! (i div 32)) (i mod 32)}"

definition bs_counted :: "'o bitset \<Rightarrow> bool" where
  "bs_counted s \<longleftrightarrow> bs_ok s \<and> unat (setNumElements s) = card (bs_set s)"

lemma bs_set_finite [simp]: "finite (bs_set s)"
  by (rule finite_subset [of _ "{..<32 * length (bitmask s)}"]) (auto simp: bs_set_def)

lemma bs_set_iff:
  "i \<in> bs_set s \<longleftrightarrow> i div 32 < length (bitmask s) \<and> bit (bitmask s ! (i div 32)) (i mod 32)"
  by (simp add: bs_set_def div_less_iff_less_mult mult.commute)

lemma bit_or_single: "m < 32 \<Longrightarrow> bit ((w :: uint32) OR 2 ^ n) m \<longleftrightarrow> bit w m \<or> m = n"
  by (auto simp: bit_simps)

lemma bit_clear_single:
  "m < 32 \<Longrightarrow> bit ((w :: uint32) AND NOT (2 ^ n)) m \<longleftrightarrow> bit w m \<and> m \<noteq> n"
  by (auto simp: bit_simps)

lemma setTestValue_iff:
  "v < 32 * length (bitmask s) \<Longrightarrow> setTestValue s v \<longleftrightarrow> v \<in> bs_set s"
  by (simp add: setTestValue_def bs_set_def WORDLENGTH_def bit_iff_and_push_bit_not_eq_0)

lemma bs_set_less: "bs_ok s \<Longrightarrow> v \<in> bs_set s \<Longrightarrow> v < unat (setSize s)"
  by (simp add: bs_ok_def bs_set_def)

lemma word_of_int_less:
  fixes x :: int
  assumes "0 \<le> x" and "x < 2 ^ 32"
  shows "(word_of_int x :: uint32) < w \<longleftrightarrow> nat x < unat w"
proof -
  have "unat (word_of_int x :: uint32) = nat x"
    using assms by (simp add: unat_eq_nat_uint uint_word_of_int_eq take_bit_int_eq_self)
  then show ?thesis by (simp add: word_less_nat_alt)
qed

lemma unat_word_of_int: "0 \<le> x \<Longrightarrow> x < 2 ^ 32 \<Longrightarrow> unat (word_of_int x :: uint32) = nat x"
  by (simp add: unat_eq_nat_uint uint_word_of_int_eq take_bit_int_eq_self)

lemma div_mod_32_eq: "i div 32 = x div 32 \<and> i mod 32 = x mod 32 \<longleftrightarrow> i = (x :: nat)"
  by (metis div_mult_mod_eq)

lemma bs_set_update:
  "k < length (bitmask s) \<Longrightarrow> i \<in> bs_set (s\<lparr>bitmask := (bitmask s)[k := w]\<rparr>) \<longleftrightarrow>
     (if i div 32 = k then bit w (i mod 32) else i \<in> bs_set s)"
  by (auto simp: bs_set_iff)

lemma bs_set_or:
  assumes "x div 32 < length (bitmask s)"
  shows "bs_set (s\<lparr>bitmask := (bitmask s)[x div 32 := bitmask s ! (x div 32) OR push_bit (x mod 32) 1]\<rparr>) =
    insert x (bs_set s)"
proof (rule set_eqI)
  fix i
  show "i \<in> bs_set (s\<lparr>bitmask := (bitmask s)[x div 32 := bitmask s ! (x div 32) OR
      push_bit (x mod 32) 1]\<rparr>) \<longleftrightarrow> i \<in> insert x (bs_set s)"
  proof (cases "i div 32 = x div 32")
    case True
    then have "i mod 32 = x mod 32 \<longleftrightarrow> i = x" using div_mod_32_eq by blast
    with True assms show ?thesis by (auto simp: bs_set_update bit_or_single bs_set_iff)
  next
    case False
    with assms show ?thesis by (auto simp: bs_set_update)
  qed
qed

lemma bs_set_clear_bit:
  assumes "x div 32 < length (bitmask s)"
  shows "bs_set (s\<lparr>bitmask := (bitmask s)[x div 32 := bitmask s ! (x div 32) AND
      NOT (push_bit (x mod 32) 1)]\<rparr>) = bs_set s - {x}"
proof (rule set_eqI)
  fix i
  show "i \<in> bs_set (s\<lparr>bitmask := (bitmask s)[x div 32 := bitmask s ! (x div 32) AND
      NOT (push_bit (x mod 32) 1)]\<rparr>) \<longleftrightarrow> i \<in> bs_set s - {x}"
  proof (cases "i div 32 = x div 32")
    case True
    then have "i mod 32 = x mod 32 \<longleftrightarrow> i = x" using div_mod_32_eq by blast
    with True assms show ?thesis by (auto simp: bs_set_update bit_clear_single bs_set_iff)
  next
    case False
    with assms show ?thesis by (auto simp: bs_set_update)
  qed
qed

lemma setBit_ok:
  assumes "x < 32 * length (bitmask s)"
  shows "\<exists>s'. setBit s x = Some s' \<and> bs_set s' = insert x (bs_set s) \<and>
    length (bitmask s') = length (bitmask s) \<and> setWidth s' = setWidth s \<and>
    setSize s' = setSize s \<and> setNumElements s' = setNumElements s \<and>
    bs_allowObservers s' = bs_allowObservers s \<and> bs_observers s' = bs_observers s \<and>
    getIndexByObject s' = getIndexByObject s \<and> getObjectByIndex s' = getObjectByIndex s"
proof -
  have w: "x div 32 < length (bitmask s)" using assms by simp
  then show ?thesis using bs_set_or [OF w] by (simp add: setBit_def Let_def WORDLENGTH_def)
qed

lemma setEnlarge_ok:
  assumes ok: "bs_ok s" and b: "unat (setWidth s) + unat n + 2 < 2 ^ 27"
  shows "\<exists>s'. setEnlarge True s n = Some s' \<and> bs_ok s' \<and> bs_set s' = bs_set s \<and>
    unat (setWidth s') = unat (setWidth s) + unat n + 2 \<and>
    setNumElements s' = setNumElements s \<and>
    bs_allowObservers s' = bs_allowObservers s \<and> bs_observers s' = bs_observers s \<and>
    getIndexByObject s' = getIndexByObject s \<and> getObjectByIndex s' = getObjectByIndex s"
proof -
  let ?w = "setWidth s + (n + 2)"
  have n2: "unat (n + 2) = unat n + 2" using b by (simp add: unat_word_ariths)
  have w: "unat ?w = unat (setWidth s) + unat n + 2"
    using b n2 by (simp add: unat_word_ariths)
  have sz: "unat (?w * of_nat WORDLENGTH) = 32 * unat ?w"
    using b w by (simp add: unat_word_ariths WORDLENGTH_def)
  have "\<not> ?w < setWidth s" using w by (simp add: word_less_nat_alt)
  moreover have "bs_set (s\<lparr>setWidth := ?w, bitmask := bitmask s @ replicate (unat ?w - unat (setWidth s)) 0,
      setSize := ?w * of_nat WORDLENGTH\<rparr>) = bs_set s"
    by (auto simp: set_eq_iff bs_set_iff nth_append nth_replicate)
  ultimately show ?thesis using ok w sz by (auto simp: setEnlarge_def Let_def bs_ok_def)
qed

section \<open>Adding and removing\<close>

lemma card_bs_set_le: "card (bs_set s) \<le> 32 * length (bitmask s)"
proof -
  have "card (bs_set s) \<le> card {..<32 * length (bitmask s)}"
    by (rule card_mono) (auto simp: bs_set_def)
  then show ?thesis by simp
qed

lemma counted_grow:
  assumes c: "unat (setNumElements s) = card (bs_set s)" and ok: "bs_ok s'"
    and new: "x \<notin> bs_set s" and ins: "bs_set s' = insert x (bs_set s)"
  shows "unat (setNumElements s + 1) = card (bs_set s')"
proof -
  have "Suc (card (bs_set s)) = card (bs_set s')" using new ins by simp
  also have "\<dots> \<le> 32 * length (bitmask s')" by (rule card_bs_set_le)
  also have "\<dots> = unat (setSize s')" using ok by (simp add: bs_ok_def)
  also have "\<dots> < 2 ^ 32" using unat_uint32_less [of "setSize s'"] by simp
  finally have lt: "Suc (card (bs_set s)) < 2 ^ 32" .
  have "unat (setNumElements s + 1) = Suc (unat (setNumElements s)) mod 2 ^ 32"
    by (simp add: unat_word_ariths)
  then show ?thesis using lt c new ins by simp
qed

lemma setAddElement_present:
  assumes "bs_ok s" and "objIndex rd s obj = Inr x" and "0 \<le> x" and "nat x \<in> bs_set s"
  shows "setAddElement mem rd (Some s) obj = Some (-1, Some BS_ISALREDY, [], Some s)"
proof -
  have lt: "nat x < unat (setSize s)" using bs_set_less assms by blast
  then have "x < 2 ^ 32" using unat_uint32_less [of "setSize s"] assms(3) by simp
  with assms lt show ?thesis
    by (simp add: setAddElement_def word_of_int_less setTestValue_iff bs_ok_def)
qed

lemma setAddElement_new:
  assumes c: "bs_counted s" and x: "objIndex rd s obj = Inr x" "0 \<le> x" "nat x \<notin> bs_set s"
    and b: "unat (setWidth s) + nat x + 2 < 2 ^ 27"
  shows "\<exists>s'. setAddElement True rd (Some s) obj =
      Some (0, None, if bs_allowObservers s then bsNotify BS_EVENT_ENTER obj (bs_observers s) else [],
        Some s') \<and>
    bs_counted s' \<and> bs_set s' = insert (nat x) (bs_set s) \<and>
    (nat x < unat (setSize s) \<longrightarrow> setSize s' = setSize s)"
proof -
  have ok: "bs_ok s" using c by (simp add: bs_counted_def)
  have x32: "x < 2 ^ 32" using b by simp
  let ?e = "if setSize s \<le> word_of_int x then setEnlarge True s (word_of_int x) else Some s"
  have "\<exists>s1. ?e = Some s1 \<and> bs_ok s1 \<and> bs_set s1 = bs_set s \<and>
      setNumElements s1 = setNumElements s \<and> bs_allowObservers s1 = bs_allowObservers s \<and>
      bs_observers s1 = bs_observers s \<and> nat x < 32 * length (bitmask s1) \<and>
      (nat x < unat (setSize s) \<longrightarrow> setSize s1 = setSize s)"
  proof (cases "nat x < unat (setSize s)")
    case True
    then have "\<not> setSize s \<le> word_of_int x" using word_of_int_less [OF x(2) x32] by (simp add: not_le)
    with True show ?thesis using ok by (auto simp: bs_ok_def)
  next
    case False
    then have le: "setSize s \<le> word_of_int x"
      using word_of_int_less [OF x(2) x32, of "setSize s"] by (simp add: not_less)
    have "unat (word_of_int x :: uint32) = nat x" using x x32 by (simp add: unat_word_of_int)
    with b obtain s1 where s1: "setEnlarge True s (word_of_int x) = Some s1" "bs_ok s1"
      "bs_set s1 = bs_set s" "unat (setWidth s1) = unat (setWidth s) + nat x + 2"
      "setNumElements s1 = setNumElements s" "bs_allowObservers s1 = bs_allowObservers s"
      "bs_observers s1 = bs_observers s"
      using setEnlarge_ok [OF ok, of "word_of_int x"] by auto
    moreover from s1(2,4) have "nat x < 32 * length (bitmask s1)" by (simp add: bs_ok_def)
    ultimately show ?thesis using False le by auto
  qed
  then obtain s1 where s1: "?e = Some s1" "bs_ok s1" "bs_set s1 = bs_set s"
    "setNumElements s1 = setNumElements s" "bs_allowObservers s1 = bs_allowObservers s"
    "bs_observers s1 = bs_observers s" "nat x < 32 * length (bitmask s1)"
    "nat x < unat (setSize s) \<longrightarrow> setSize s1 = setSize s" by blast
  obtain s2 where s2: "setBit s1 (nat x) = Some s2" "bs_set s2 = insert (nat x) (bs_set s1)"
    "length (bitmask s2) = length (bitmask s1)" "setWidth s2 = setWidth s1"
    "setSize s2 = setSize s1" "setNumElements s2 = setNumElements s1"
    "bs_allowObservers s2 = bs_allowObservers s1" "bs_observers s2 = bs_observers s1"
    using setBit_ok [OF s1(7)] by blast
  let ?s = "s2\<lparr>setNumElements := setNumElements s2 + 1\<rparr>"
  have ok2: "bs_ok ?s" using s1(2) s2 by (simp add: bs_ok_def)
  have set: "bs_set ?s = insert (nat x) (bs_set s)" using s2(2) s1(3) by (simp add: bs_set_def)
  have "unat (setNumElements ?s) = card (bs_set ?s)"
    using counted_grow [OF _ ok2 x(3) set] c s1(4) s2(6) by (simp add: bs_counted_def)
  moreover have "\<not> (word_of_int x < setSize s \<and> setTestValue s (nat x))"
    using x ok x32 by (auto simp: word_of_int_less setTestValue_iff bs_ok_def)
  ultimately have "setAddElement True rd (Some s) obj =
      Some (0, None, if bs_allowObservers s then bsNotify BS_EVENT_ENTER obj (bs_observers s) else [],
        Some ?s)" "bs_counted ?s"
    using x s1 s2 ok2 by (auto simp: setAddElement_def bs_counted_def Let_def)
  then show ?thesis using set s1(8) s2(5) by auto
qed

lemma setRemoveElement_present:
  assumes c: "bs_counted s" and idx: "objIndex rd s obj = Inr x" "0 \<le> x" "nat x \<in> bs_set s"
  shows "\<exists>s'. setRemoveElement rd (Some s) obj = Some (0, None, Some s') \<and>
    bs_counted s' \<and> bs_set s' = bs_set s - {nat x} \<and> setSize s' = setSize s"
proof -
  have ok: "bs_ok s" using c by (simp add: bs_counted_def)
  have lt: "nat x < unat (setSize s)" using bs_set_less [OF ok idx(3)] .
  then have x32: "x < 2 ^ 32" using unat_uint32_less [of "setSize s"] idx(2) by simp
  have w: "nat x div 32 < length (bitmask s)" using idx(3) by (simp add: bs_set_iff)
  have pos: "0 < card (bs_set s)" using idx(3) by (auto simp: card_gt_0_iff)
  have ne: "setNumElements s \<noteq> 0" using c pos by (auto simp: bs_counted_def)
  have x: "(case getIndexByObject s of None \<Rightarrow> rd obj | Some f \<Rightarrow> f obj) = x"
    using idx(1) by (auto simp: objIndex_def split: option.splits if_splits)
  let ?s = "s\<lparr>bitmask := (bitmask s)[nat x div 32 := bitmask s ! (nat x div 32) AND
      NOT (push_bit (nat x mod 32) 1)], setNumElements := setNumElements s - 1\<rparr>"
  have set: "bs_set ?s = bs_set s - {nat x}"
    using bs_set_clear_bit [OF w] by (simp add: bs_set_def)
  have "unat (setNumElements s - 1) = unat (setNumElements s) - 1"
    using ne by (simp add: unat_minus_one)
  then have "bs_counted ?s" using c set idx(3) by (simp add: bs_counted_def bs_ok_def)
  moreover have "setRemoveElement rd (Some s) obj = Some (0, None, Some ?s)"
    using ne x w lt word_of_int_less [OF idx(2) x32, of "setSize s"]
    by (simp add: setRemoveElement_def Let_def WORDLENGTH_def flip: not_less)
  ultimately show ?thesis using set by auto
qed

lemma setIsMember_iff:
  assumes c: "bs_counted s" and idx: "objIndex rd s obj = Inr x" "0 \<le> x" "x < 2 ^ 32"
  shows "fst (setIsMember rd (Some s) obj) = (if nat x \<in> bs_set s then 1 else 0)"
proof (cases "setNumElements s = 0")
  case True
  then have "bs_set s = {}" using c by (simp add: bs_counted_def)
  with True show ?thesis by (simp add: setIsMember_def)
next
  case False
  have ok: "bs_ok s" using c by (simp add: bs_counted_def)
  show ?thesis
  proof (cases "nat x < unat (setSize s)")
    case True
    then show ?thesis using False idx ok word_of_int_less [OF idx(2,3), of "setSize s"]
      by (simp add: setIsMember_def setTestValue_iff bs_ok_def flip: not_less)
  next
    case out: False
    then have "nat x \<notin> bs_set s" using bs_set_less [OF ok] by blast
    with out show ?thesis using False idx word_of_int_less [OF idx(2,3), of "setSize s"]
      by (simp add: setIsMember_def flip: not_less)
  qed
qed

lemma setCreate_counted:
  assumes "sz \<le> 2 ^ 30"
  shows "bs_counted (setCreate sz f g) \<and> bs_set (setCreate sz f g) = {}"
proof -
  define n where "n = (nat (if 0 < sz then sz else 32) + 32 - 1) div 32"
  have n: "32 * n < 2 ^ 32" using assms by (auto simp: n_def)
  have c: "setCreate sz f g = \<lparr>bitmask = replicate n 0, setSize = of_nat n * 32,
      setWidth = of_nat n, setNumElements = 0, bs_allowObservers = False, bs_observers = [],
      getIndexByObject = f, getObjectByIndex = g\<rparr>"
    by (simp add: setCreate_def Let_def WORDLENGTH_def n_def)
  have "unat (of_nat n :: uint32) = n" using n by (simp add: unat_of_nat_uint32)
  moreover from this have "unat (of_nat n * 32 :: uint32) = 32 * n"
    using n by (simp add: unat_word_ariths)
  ultimately show ?thesis by (auto simp: bs_counted_def bs_ok_def c bs_set_iff)
qed

lemma setClear_counted:
  "bs_ok s \<Longrightarrow> \<exists>s'. setClear (Some s) = (0, None, Some s') \<and> bs_counted s' \<and> bs_set s' = {}"
  by (auto simp: setClear_def bs_counted_def bs_ok_def bs_set_iff)

section \<open>The binary operations\<close>

lemma bs_set_map2:
  assumes "length d = n" and "length ws = n" and "bitmask s = map2 f d ws @ rest"
  shows "i \<in> bs_set s \<longleftrightarrow> (if i div 32 < n then bit (f (d ! (i div 32)) (ws ! (i div 32))) (i mod 32)
    else i div 32 < n + length rest \<and> bit (rest ! (i div 32 - n)) (i mod 32))"
  using assms by (auto simp: bs_set_iff nth_append)

lemma bit_beyond: "i div 32 < length xs \<Longrightarrow> bit (map (\<lambda>_. 0 :: uint32) xs ! (i div 32)) k \<longleftrightarrow> False"
  by simp

lemma setOperate_set:
  assumes d: "bs_ok dest" and s: "bs_ok src"
    and b: "unat (setWidth dest) + unat (setWidth src) + 2 < 2 ^ 27"
    and opr: "opr \<in> {LS_SET_UNION, LS_SET_INTERSECT, LS_SET_DIFFERENCE, LS_SET_ASSIGN}"
  shows "\<exists>r. setOperate True dest src opr = Some (None, r) \<and> bs_ok r \<and>
    setNumElements r = setNumElements dest \<and>
    bs_set r = (if opr = LS_SET_UNION then bs_set dest \<union> bs_set src
      else if opr = LS_SET_INTERSECT then bs_set dest \<inter> bs_set src
      else if opr = LS_SET_DIFFERENCE then (bs_set dest - bs_set src) \<union> (bs_set src - bs_set dest)
      else bs_set src)"
proof -
  let ?e = "if setWidth dest < setWidth src then setEnlarge True dest (setWidth src) else Some dest"
  have "\<exists>d1. ?e = Some d1 \<and> bs_ok d1 \<and> bs_set d1 = bs_set dest \<and>
      setNumElements d1 = setNumElements dest \<and> unat (setWidth src) \<le> length (bitmask d1)"
  proof (cases "setWidth dest < setWidth src")
    case True
    then show ?thesis using setEnlarge_ok [OF d b] by (auto simp: bs_ok_def)
  next
    case False
    then show ?thesis using d by (auto simp: bs_ok_def word_less_nat_alt)
  qed
  then obtain d1 where d1: "?e = Some d1" "bs_ok d1" "bs_set d1 = bs_set dest"
    "setNumElements d1 = setNumElements dest" "unat (setWidth src) \<le> length (bitmask d1)" by blast
  let ?n = "unat (setWidth src)" and ?w = "bitmask src"
  let ?t = "take ?n (bitmask d1)" and ?r = "drop ?n (bitmask d1)"
  let ?m = "if opr = LS_SET_UNION then map2 (OR) ?t ?w @ ?r
      else if opr = LS_SET_INTERSECT then map2 (AND) ?t ?w @ map (\<lambda>_. 0) ?r
      else if opr = LS_SET_DIFFERENCE then map2 (XOR) ?t ?w @ ?r
      else ?w @ map (\<lambda>_. 0) ?r"
  have lw: "length ?w = ?n" using s by (simp add: bs_ok_def)
  have lt: "length ?t = ?n" using d1(5) by simp
  have eq: "setOperate True dest src opr = Some (None, d1\<lparr>bitmask := ?m\<rparr>)"
    using opr d1(1) by (auto simp: setOperate_def Let_def)
  have "length ?m = length (bitmask d1)" using d1(5) lw by simp
  then have ok: "bs_ok (d1\<lparr>bitmask := ?m\<rparr>)" using d1(2) by (simp add: bs_ok_def)
  have mem: "i \<in> bs_set dest \<longleftrightarrow> i div 32 < length (bitmask d1) \<and> bit (bitmask d1 ! (i div 32)) (i mod 32)"
    for i using d1(3) bs_set_iff [of i d1] by simp
  have "bs_set (d1\<lparr>bitmask := ?m\<rparr>) =
     (if opr = LS_SET_UNION then bs_set dest \<union> bs_set src
      else if opr = LS_SET_INTERSECT then bs_set dest \<inter> bs_set src
      else if opr = LS_SET_DIFFERENCE then (bs_set dest - bs_set src) \<union> (bs_set src - bs_set dest)
      else bs_set src)"
  proof (rule set_eqI)
    fix i
    show "i \<in> bs_set (d1\<lparr>bitmask := ?m\<rparr>) \<longleftrightarrow> i \<in>
     (if opr = LS_SET_UNION then bs_set dest \<union> bs_set src
      else if opr = LS_SET_INTERSECT then bs_set dest \<inter> bs_set src
      else if opr = LS_SET_DIFFERENCE then (bs_set dest - bs_set src) \<union> (bs_set src - bs_set dest)
      else bs_set src)"
    proof (cases "i div 32 < ?n")
      case True
      then show ?thesis using lw lt d1(5)
        by (auto simp: mem bs_set_iff [of i src] bs_set_iff [of i "d1\<lparr>bitmask := ?m\<rparr>"] nth_append
            bit_or_iff bit_and_iff bit_xor_iff)
    next
      case False
      then have "i \<notin> bs_set src" using lw by (simp add: bs_set_iff)
      with False show ?thesis using lw lt d1(5)
        by (auto simp: mem bs_set_iff [of i "d1\<lparr>bitmask := ?m\<rparr>"] nth_append)
    qed
  qed
  with ok eq d1(4) show ?thesis by auto
qed

section \<open>Counting\<close>

lemma nbits_correct: "nbits = map (count_ones 8) [0..<256]"
  by code_simp

lemma count_ones_sum: "count_ones k n = (\<Sum>i<k. of_bool (bit n i))"
proof (induction k arbitrary: n)
  case (Suc k)
  have "(\<Sum>i<Suc k. of_bool (bit n i)) = of_bool (odd n) + (\<Sum>i<k. of_bool (bit (n div 2) i) :: nat)"
    by (simp add: sum.lessThan_Suc_shift bit_0 bit_Suc del: sum.lessThan_Suc)
  then show ?case using Suc.IH [of "n div 2"] by (simp add: mod_2_eq_odd)
qed simp

lemma nbits_byte:
  fixes b :: uint32
  shows "nbits ! unat (take_bit 8 b) = (\<Sum>j<8. of_bool (bit b j))"
proof -
  have "unat (take_bit 8 b) < 256"
    using take_bit_nat_less_exp [of 8 "unat b"] by (simp add: unsigned_take_bit_eq)
  then have "nbits ! unat (take_bit 8 b) = (\<Sum>j<8. of_bool (bit (unat (take_bit 8 b)) j))"
    by (simp add: nbits_correct count_ones_sum)
  also have "\<dots> = (\<Sum>j<8. of_bool (bit b j))"
    by (rule sum.cong) (auto simp: bit_simps)
  finally show ?thesis .
qed

lemma getNum1BitsInWord_sum: "getNum1BitsInWord w = (\<Sum>i<32. of_bool (bit w i))"
proof -
  let ?f = "\<lambda>i. of_bool (bit w i) :: nat"
  have "getNum1BitsInWord w = (\<Sum>i<4. \<Sum>j<8. ?f (i * 8 + j))"
    by (simp only: getNum1BitsInWord_def nbits_byte bit_drop_bit_eq o_def mult.commute
        interv_sum_list_conv_sum_set_nat atLeast0LessThan set_upt)
  also have "\<dots> = (\<Sum>i<4. sum ?f {i * 8..<i * 8 + 8})"
    by (simp only: sum.atLeastLessThan_shift_0 [of ?f] lessThan_atLeast0 add_diff_cancel_right'
        o_def add.commute)
  also have "\<dots> = (\<Sum>i<4 * 8. ?f i)" by (rule sum.nat_group)
  finally show ?thesis by simp
qed

lemma card_bits: "card {i. i < (n :: nat) \<and> P i} = (\<Sum>i<n. of_bool (P i))"
proof -
  have "{i. i < n \<and> P i} = {..<n} \<inter> {i. P i}" by auto
  then show ?thesis by simp
qed

lemma bs_set_snoc:
  assumes "bitmask s' = bitmask s @ [w]"
  shows "bs_set s' = bs_set s \<union> (+) (32 * length (bitmask s)) ` {i. i < 32 \<and> bit w i}"
proof (rule set_eqI)
  fix i
  let ?n = "length (bitmask s)"
  have "i div 32 = ?n \<longleftrightarrow> (\<exists>j<32. i = 32 * ?n + j)"
    by (metis div_less div_mult_mod_eq div_mult_self4 mod_less_divisor mult.commute
        add.right_neutral zero_less_numeral zero_neq_numeral add.commute)
  then show "i \<in> bs_set s' \<longleftrightarrow>
      i \<in> bs_set s \<union> (+) (32 * length (bitmask s)) ` {i. i < 32 \<and> bit w i}"
    using assms by (auto simp: bs_set_iff nth_append less_Suc_eq)
qed

lemma setGetNumElements_card:
  "setGetNumElements (Some s) = (int (card (bs_set s)), None)"
proof -
  have "(\<Sum>w\<leftarrow>ws. getNum1BitsInWord w) = card (bs_set (s\<lparr>bitmask := ws\<rparr>))" for ws
  proof (induction ws rule: rev_induct)
    case Nil
    then show ?case by (simp add: bs_set_def)
  next
    case (snoc w ws)
    let ?A = "bs_set (s\<lparr>bitmask := ws\<rparr>)" and ?B = "(+) (32 * length ws) ` {i. i < 32 \<and> bit w i}"
    have "bs_set (s\<lparr>bitmask := ws @ [w]\<rparr>) = ?A \<union> ?B"
      using bs_set_snoc [of "s\<lparr>bitmask := ws @ [w]\<rparr>" "s\<lparr>bitmask := ws\<rparr>" w] by simp
    moreover have "?A \<inter> ?B = {}" by (auto simp: bs_set_def)
    moreover have "card ?B = getNum1BitsInWord w"
      by (simp add: card_image inj_on_def card_bits getNum1BitsInWord_sum)
    ultimately show ?case using snoc by (simp add: card_Un_disjoint)
  qed
  from this [of "bitmask s"] show ?thesis by (simp add: setGetNumElements_def)
qed

section \<open>Iteration\<close>

definition bits_from :: "'o bitset \<Rightarrow> nat \<Rightarrow> nat list" where
  "bits_from s c = filter (\<lambda>i. i \<in> bs_set s) [c..<unat (setSize s)]"

lemma bits_from_all:
  assumes "bs_ok s"
  shows "bits_from s 0 = sorted_list_of_set (bs_set s)"
proof -
  have "set (bits_from s 0) = bs_set s"
    using bs_set_less [OF assms] by (auto simp: bits_from_def)
  moreover have "sorted (bits_from s 0)" "distinct (bits_from s 0)"
    by (simp_all add: bits_from_def sorted_wrt_filter)
  ultimately show ?thesis using sorted_list_of_set.idem_if_sorted_distinct by metis
qed

lemma next_element_bits:
  assumes ok: "bs_ok (bi_set iter)" and ne: "setNumElements (bi_set iter) \<noteq> 0"
    and f: "getObjectByIndex (bi_set iter) = Some f"
    and tot: "\<forall>i \<in> bs_set (bi_set iter). f i = Some (g i)"
  shows "case bits_from (bi_set iter) (setCurrentBit iter) of
      [] \<Rightarrow> fst (setIteratorGetNextElement ofbit iter) = None
    | i # is \<Rightarrow> fst (setIteratorGetNextElement ofbit iter) = Some (g i) \<and>
        snd (snd (setIteratorGetNextElement ofbit iter)) = iter\<lparr>setCurrentBit := Suc i\<rparr> \<and>
        bits_from (bi_set iter) (Suc i) = is"
  using assms
proof (induction ofbit iter rule: setIteratorGetNextElement.induct)
  case (1 ofbit iter)
  let ?s = "bi_set iter" and ?c = "setCurrentBit iter"
  note unf = setIteratorGetNextElement.simps [of ofbit iter]
  show ?case
  proof (cases "unat (setSize ?s) \<le> ?c")
    case True
    then show ?thesis using 1(3) by (simp add: unf bits_from_def)
  next
    case lt: False
    then have up: "[?c..<unat (setSize ?s)] = ?c # [Suc ?c..<unat (setSize ?s)]"
      by (simp add: upt_conv_Cons)
    have mem: "setTestValue ?s ?c \<longleftrightarrow> ?c \<in> bs_set ?s"
      using lt 1(2) by (simp add: setTestValue_iff bs_ok_def)
    show ?thesis
    proof (cases "?c \<in> bs_set ?s")
      case True
      then show ?thesis using lt mem 1(3,4,5) by (simp add: unf bits_from_def up)
    next
      case False
      let ?it = "iter\<lparr>setCurrentBit := ?c + 1\<rparr>"
      have "setIteratorGetNextElement ofbit iter = setIteratorGetNextElement ofbit ?it"
        using lt mem False 1(3) by (simp add: unf)
      moreover have "bits_from ?s ?c = bits_from ?s (Suc ?c)"
        using False by (simp add: bits_from_def up)
      moreover have "iter\<lparr>setCurrentBit := Suc ?c, setCurrentBit := i\<rparr> = iter\<lparr>setCurrentBit := i\<rparr>" for i
        by simp
      ultimately show ?thesis using 1(1) [OF 1(3) lt] mem False 1(2-) by (simp split: list.splits)
    qed
  qed
qed

lemma bsForEachLoop_bits:
  assumes "bs_ok s" and "setNumElements s \<noteq> 0" and "getObjectByIndex s = Some f"
    and "\<forall>i \<in> bs_set s. f i = Some (g i)" and "bi_set iter = s"
    and "bits_from s (setCurrentBit iter) = is"
  shows "bsForEachLoop ofbit (fst (setIteratorGetNextElement ofbit iter))
      (snd (snd (setIteratorGetNextElement ofbit iter))) acc = acc @ map g is"
  using assms(5,6)
proof (induction "is" arbitrary: iter acc)
  case Nil
  then show ?case using next_element_bits [of iter f g ofbit] assms
    by (simp add: bsForEachLoop.simps)
next
  case (Cons i "is")
  let ?nx = "setIteratorGetNextElement ofbit iter"
  have nx: "fst ?nx = Some (g i)" "snd (snd ?nx) = iter\<lparr>setCurrentBit := Suc i\<rparr>"
    "bits_from s (Suc i) = is"
    using next_element_bits [of iter f g ofbit] assms Cons.prems by simp_all
  then show ?case using Cons.IH [of "iter\<lparr>setCurrentBit := Suc i\<rparr>" "acc @ [g i]"] Cons.prems
    by (simp add: bsForEachLoop.simps [of ofbit "Some (g i)"] Let_def)
qed

section \<open>The set as an interface\<close>

text \<open>
  A client's calls, in any order, and the set of objects they are to keep.  A
  call is legal when it adds an object or removes one that is there: removing
  another object decrements the element counter all the same.
\<close>

datatype 'o bs_call = BAdd 'o | BRem 'o

fun callObj :: "'o bs_call \<Rightarrow> 'o" where
  "callObj (BAdd x) = x"
| "callObj (BRem x) = x"

fun doCall :: "('s \<Rightarrow> 'o \<Rightarrow> 's) \<Rightarrow> ('s \<Rightarrow> 'o \<Rightarrow> 's) \<Rightarrow> 's \<Rightarrow> 'o bs_call \<Rightarrow> 's" where
  "doCall add rem s (BAdd x) = add s x"
| "doCall add rem s (BRem x) = rem s x"

fun keepCall :: "'o set \<Rightarrow> 'o bs_call \<Rightarrow> 'o set" where
  "keepCall A (BAdd x) = insert x A"
| "keepCall A (BRem x) = A - {x}"

fun legalCalls :: "'o set \<Rightarrow> 'o bs_call list \<Rightarrow> bool" where
  "legalCalls A [] = True"
| "legalCalls A (BAdd x # cs) = legalCalls (insert x A) cs"
| "legalCalls A (BRem x # cs) = (x \<in> A \<and> legalCalls (A - {x}) cs)"

text \<open>
  What the daemons rely on when they keep objects with an index (users, hosts,
  queues) in a set created with room for all of them.
\<close>

locale object_set =
  fixes idx :: "'o \<Rightarrow> nat"
    and add :: "'s \<Rightarrow> 'o \<Rightarrow> 's"
    and rem :: "'s \<Rightarrow> 'o \<Rightarrow> 's"
    and mem :: "'s \<Rightarrow> 'o \<Rightarrow> bool"
    and elems :: "'s \<Rightarrow> nat set"
    and cap :: "'s \<Rightarrow> nat"
    and ok :: "'s \<Rightarrow> bool"
  assumes ok_add: "ok s \<Longrightarrow> idx x < cap s \<Longrightarrow> ok (add s x)"
    and cap_add: "ok s \<Longrightarrow> idx x < cap s \<Longrightarrow> cap (add s x) = cap s"
    and elems_add: "ok s \<Longrightarrow> idx x < cap s \<Longrightarrow> elems (add s x) = insert (idx x) (elems s)"
    and mem_iff: "ok s \<Longrightarrow> idx x < cap s \<Longrightarrow> mem s x \<longleftrightarrow> idx x \<in> elems s"
    and ok_rem: "ok s \<Longrightarrow> idx x \<in> elems s \<Longrightarrow> ok (rem s x)"
    and cap_rem: "ok s \<Longrightarrow> idx x \<in> elems s \<Longrightarrow> cap (rem s x) = cap s"
    and elems_rem: "ok s \<Longrightarrow> idx x \<in> elems s \<Longrightarrow> elems (rem s x) = elems s - {idx x}"
begin

lemma doCall_refines:
  assumes "ok s" and "elems s = idx ` A" and "A \<subseteq> U" and "inj_on idx U" and "\<forall>x \<in> U. idx x < cap s"
    and "callObj c \<in> U" and "legalCalls A [c]"
  shows "ok (doCall add rem s c) \<and> cap (doCall add rem s c) = cap s \<and> elems (doCall add rem s c) = idx ` keepCall A c \<and>
    keepCall A c \<subseteq> U"
proof (cases c)
  case (BAdd x)
  with assms show ?thesis by (simp add: ok_add cap_add elems_add)
next
  case (BRem x)
  then have x: "x \<in> A" "idx x \<in> elems s" using assms by auto
  then have "idx ` (A - {x}) = idx ` A - {idx x}"
    using inj_on_image_set_diff [OF assms(4), of A "{x}"] assms(3) by auto
  with BRem x assms show ?thesis by (auto simp: ok_rem cap_rem elems_rem)
qed

lemma calls_refine:
  assumes "ok s" and "elems s = idx ` A" and "A \<subseteq> U" and "inj_on idx U" and "\<forall>x \<in> U. idx x < cap s"
    and "callObj ` set cs \<subseteq> U" and "legalCalls A cs"
  shows "ok (foldl (doCall add rem) s cs) \<and> cap (foldl (doCall add rem) s cs) = cap s \<and>
    elems (foldl (doCall add rem) s cs) = idx ` foldl keepCall A cs \<and> foldl keepCall A cs \<subseteq> U"
  using assms
proof (induction cs arbitrary: s A)
  case Nil
  then show ?case by simp
next
  case (Cons c cs)
  have l: "legalCalls A [c]" "legalCalls (keepCall A c) cs" using Cons.prems(7) by (cases c; simp)+
  note d = doCall_refines [OF Cons.prems(1-5) _ l(1)]
  show ?case using Cons.IH [of "doCall add rem s c" "keepCall A c"] d Cons.prems l(2) by simp
qed

lemma mem_calls:
  assumes "ok s" and "elems s = idx ` A" and "A \<subseteq> U" and "inj_on idx U" and "\<forall>x \<in> U. idx x < cap s"
    and "callObj ` set cs \<subseteq> U" and "legalCalls A cs" and "y \<in> U"
  shows "mem (foldl (doCall add rem) s cs) y \<longleftrightarrow> y \<in> foldl keepCall A cs"
  using calls_refine [OF assms(1-7)] assms(4,5,8) mem_iff [of "foldl (doCall add rem) s cs" y]
    inj_on_image_mem_iff [OF assms(4,8)] by simp

end

definition bs_add :: "'o bitset \<Rightarrow> 'o \<Rightarrow> 'o bitset" where
  "bs_add s x = (case setAddElement True (\<lambda>_. 0) (Some s) x of
                   Some (_, _, _, Some s') \<Rightarrow> s' | _ \<Rightarrow> s)"

definition bs_rem :: "'o bitset \<Rightarrow> 'o \<Rightarrow> 'o bitset" where
  "bs_rem s x = (case setRemoveElement (\<lambda>_. 0) (Some s) x of
                   Some (_, _, Some s') \<Rightarrow> s' | _ \<Rightarrow> s)"

definition bs_mem :: "'o bitset \<Rightarrow> 'o \<Rightarrow> bool" where
  "bs_mem s x = (fst (setIsMember (\<lambda>_. 0) (Some s) x) = 1)"

definition bs_indexed :: "('o \<Rightarrow> nat) \<Rightarrow> 'o bitset \<Rightarrow> bool" where
  "bs_indexed idx s \<longleftrightarrow>
     bs_counted s \<and> unat (setSize s) \<le> 2 ^ 25 \<and> getIndexByObject s = Some (\<lambda>x. int (idx x))"

lemma objIndex_indexed: "bs_indexed idx s \<Longrightarrow> objIndex rd s x = Inr (int (idx x))"
  by (simp add: bs_indexed_def objIndex_def)

lemma setBit_fields:
  "setBit s x = Some s' \<Longrightarrow>
     getIndexByObject s' = getIndexByObject s \<and> getObjectByIndex s' = getObjectByIndex s"
  by (auto simp: setBit_def Let_def split: if_splits)

lemma setEnlarge_fields:
  "setEnlarge m s n = Some s' \<Longrightarrow>
     getIndexByObject s' = getIndexByObject s \<and> getObjectByIndex s' = getObjectByIndex s"
  by (auto simp: setEnlarge_def Let_def split: if_splits)

lemma setAddElement_funs:
  "setAddElement m rd (Some s) x = Some (r, e, l, Some s') \<Longrightarrow>
     getIndexByObject s' = getIndexByObject s \<and> getObjectByIndex s' = getObjectByIndex s"
  by (auto simp: setAddElement_def Let_def bind_eq_Some_conv dest!: setBit_fields setEnlarge_fields
      split: sum.splits if_splits)

lemma getObjectByIndex_add [simp]: "getObjectByIndex (bs_add s x) = getObjectByIndex s"
  by (auto simp: bs_add_def split: option.splits dest: setAddElement_funs)

lemma setRemoveElement_index_fun:
  "setRemoveElement rd (Some s) x = Some (r, e, Some s') \<Longrightarrow>
     getIndexByObject s' = getIndexByObject s"
  by (auto simp: setRemoveElement_def Let_def split: if_splits)

lemma bs_add_ok:
  assumes i: "bs_indexed idx s" and lt: "idx x < unat (setSize s)"
  shows "bs_indexed idx (bs_add s x) \<and> unat (setSize (bs_add s x)) = unat (setSize s) \<and>
    bs_set (bs_add s x) = insert (idx x) (bs_set s)"
proof (cases "idx x \<in> bs_set s")
  case True
  then have "setAddElement True (\<lambda>_. 0) (Some s) x = Some (-1, Some BS_ISALREDY, [], Some s)"
    using setAddElement_present [of s "\<lambda>_. 0" x "int (idx x)"] i objIndex_indexed [OF i]
    by (simp add: bs_indexed_def bs_counted_def)
  with True i show ?thesis by (auto simp: bs_add_def insert_absorb)
next
  case False
  have "unat (setWidth s) + nat (int (idx x)) + 2 < 2 ^ 27"
    using i lt by (simp add: bs_indexed_def bs_counted_def bs_ok_def)
  with False obtain l s' where s': "setAddElement True (\<lambda>_. 0) (Some s) x = Some (0, None, l, Some s')"
    "bs_counted s'" "bs_set s' = insert (idx x) (bs_set s)" "setSize s' = setSize s"
    using setAddElement_new [of s "\<lambda>_. 0" x "int (idx x)"] i objIndex_indexed [OF i] lt
    by (auto simp: bs_indexed_def)
  with i show ?thesis using setAddElement_funs [OF s'(1)] by (simp add: bs_add_def bs_indexed_def)
qed

lemma bs_rem_ok:
  assumes i: "bs_indexed idx s" and m: "idx x \<in> bs_set s"
  shows "bs_indexed idx (bs_rem s x) \<and> unat (setSize (bs_rem s x)) = unat (setSize s) \<and>
    bs_set (bs_rem s x) = bs_set s - {idx x}"
proof -
  obtain s' where s': "setRemoveElement (\<lambda>_. 0) (Some s) x = Some (0, None, Some s')"
    "bs_counted s'" "bs_set s' = bs_set s - {idx x}" "setSize s' = setSize s"
    using setRemoveElement_present [of s "\<lambda>_. 0" x "int (idx x)"] i m objIndex_indexed [OF i]
    by (auto simp: bs_indexed_def)
  with i show ?thesis using setRemoveElement_index_fun [OF s'(1)] by (simp add: bs_rem_def bs_indexed_def)
qed

lemma bs_mem_iff:
  assumes "bs_indexed idx s" and "idx x < unat (setSize s)"
  shows "bs_mem s x \<longleftrightarrow> idx x \<in> bs_set s"
proof -
  have "int (idx x) < 2 ^ 32" using assms unat_uint32_less [of "setSize s"] by simp
  then show ?thesis
    using setIsMember_iff [of s "\<lambda>_. 0" x "int (idx x)"] assms objIndex_indexed [OF assms(1)]
    by (simp add: bs_mem_def bs_indexed_def)
qed

interpretation bs: object_set idx bs_add bs_rem bs_mem bs_set "\<lambda>s. unat (setSize s)" "bs_indexed idx"
  for idx :: "'o \<Rightarrow> nat"
  by unfold_locales (simp_all add: bs_add_ok bs_rem_ok bs_mem_iff)

section \<open>Properties\<close>

text \<open>A set of the numbers themselves, with room for 64 of them.\<close>

definition bs64 :: "nat bitset" where
  "bs64 = setCreate 64 (Some int) (Some Some)"

lemma bs64_indexed: "bs_indexed id bs64" "unat (setSize bs64) = 64" "bs_set bs64 = {}"
proof -
  have "bs_counted bs64" and "bs_set bs64 = {}"
    using setCreate_counted [of 64 "Some int" "Some Some :: (nat \<Rightarrow> nat option) option"] by (simp_all add: bs64_def)
  moreover have "unat (setSize bs64) = 64"
    by (simp add: bs64_def setCreate_def Let_def WORDLENGTH_def)
  ultimately show "bs_indexed id bs64" "unat (setSize bs64) = 64" "bs_set bs64 = {}"
    by (simp_all add: bs_indexed_def) (simp add: bs64_def setCreate_def Let_def)
qed

text \<open>
  C25.  A bit set that counts its elements right, has room for all objects of a
  universe and holds a subset \<open>A\<close> of them behaves as that set under any
  sequence of additions and removals (of objects that are there when they are
  removed): afterwards \<open>setIsMember\<close> answers yes on exactly the objects of the
  universe that the same additions and removals leave in \<open>A\<close>, and the element
  counter is still right.
\<close>

theorem bitset_membership:
  assumes "bs_indexed idx s" and "bs_set s = idx ` A" and "A \<subseteq> U" and "inj_on idx U"
    and "\<forall>x \<in> U. idx x < unat (setSize s)" and "callObj ` set cs \<subseteq> U" and "legalCalls A cs"
  shows "(\<forall>y \<in> U. bs_mem (foldl (doCall bs_add bs_rem) s cs) y \<longleftrightarrow> y \<in> foldl keepCall A cs) \<and>
    bs_set (foldl (doCall bs_add bs_rem) s cs) = idx ` foldl keepCall A cs \<and>
    unat (setNumElements (foldl (doCall bs_add bs_rem) s cs)) = card (bs_set (foldl (doCall bs_add bs_rem) s cs))"
  using bs.mem_calls [OF assms] bs.calls_refine [OF assms]
  by (simp add: bs_indexed_def bs_counted_def)

theorem bitset_membership_witness:
  "bs_mem (foldl (doCall bs_add bs_rem) bs64 [BAdd 3, BAdd 40, BRem 3, BAdd 40, BAdd 7]) 40 \<and>
   \<not> bs_mem (foldl (doCall bs_add bs_rem) bs64 [BAdd 3, BAdd 40, BRem 3, BAdd 40, BAdd 7]) 3"
  using bitset_membership [of id bs64 "{}" "{..<64}" "[BAdd 3, BAdd 40, BRem 3, BAdd 40, BAdd 7]"]
    bs64_indexed by (simp add: ball_conj_distrib)

text \<open>
  C28.  The binary operations compute union, intersection and assignment of the
  sets of bits, whatever the two widths, and enlarge the destination where
  needed; the operation called difference computes the symmetric difference.
  None of them touches the element counter of the destination.
\<close>

theorem bitset_operations:
  assumes "bs_ok dest" and "bs_ok src" and "unat (setWidth dest) + unat (setWidth src) + 2 < 2 ^ 27"
    and "opr \<in> {LS_SET_UNION, LS_SET_INTERSECT, LS_SET_DIFFERENCE, LS_SET_ASSIGN}"
  shows "\<exists>r. setOperate True dest src opr = Some (None, r) \<and> bs_ok r \<and>
    setNumElements r = setNumElements dest \<and>
    bs_set r = (if opr = LS_SET_UNION then bs_set dest \<union> bs_set src
      else if opr = LS_SET_INTERSECT then bs_set dest \<inter> bs_set src
      else if opr = LS_SET_DIFFERENCE then (bs_set dest - bs_set src) \<union> (bs_set src - bs_set dest)
      else bs_set src)"
  using assms by (rule setOperate_set)

theorem bitset_operations_witness:
  "\<exists>r. setOperate True (bs_add bs64 3) (bs_add bs64 40) LS_SET_UNION = Some (None, r) \<and> bs_ok r \<and>
     bs_set r = {3, 40}"
proof -
  have i: "bs_indexed id (bs_add bs64 3)" "bs_set (bs_add bs64 3) = {3}" "unat (setSize (bs_add bs64 3)) = 64"
    "bs_indexed id (bs_add bs64 40)" "bs_set (bs_add bs64 40) = {40}" "unat (setSize (bs_add bs64 40)) = 64"
    using bs_add_ok [OF bs64_indexed(1), of 3] bs_add_ok [OF bs64_indexed(1), of 40] bs64_indexed(2,3) by simp_all
  then have "bs_ok (bs_add bs64 3)" "bs_ok (bs_add bs64 40)" by (simp_all add: bs_indexed_def bs_counted_def)
  moreover from this have "unat (setWidth (bs_add bs64 3)) = 2" "unat (setWidth (bs_add bs64 40)) = 2"
    using i by (simp_all add: bs_ok_def)
  ultimately show ?thesis
    using bitset_operations [of "bs_add bs64 3" "bs_add bs64 40" LS_SET_UNION] i by auto
qed

text \<open>
  C33.  \<open>setGetNumElements\<close>, which adds table entries for the bytes of the mask,
  returns the number of elements of the set, whatever the element counter says.
\<close>

theorem bitset_count:
  "setGetNumElements (Some s) = (int (card (bs_set s)), None)"
  by (rule setGetNumElements_card)

text \<open>
  C32.  The loop of \<open>FOR_EACH_USER_ANCESTOR_UGRP\<close> and its relatives over a set
  with an inverse index function that knows every element returns.  If the
  element counter is not zero it visits the object of every element once, in
  increasing order of the index, whether or not the counter is right; if the
  counter is zero it visits nothing, even where bits are set.
\<close>

theorem bitset_iteration:
  assumes "bs_ok s" and "getObjectByIndex s = Some f" and "\<forall>i \<in> bs_set s. f i = Some (g i)"
  shows "bsForEach ofbit s =
    (if setNumElements s = 0 then [] else map g (sorted_list_of_set (bs_set s)))"
proof (cases "setNumElements s = 0")
  case True
  then show ?thesis
    by (simp add: bsForEach_def Let_def setIteratorBegin_def setIteratorAttach_def
        setIteratorGetNextElement.simps bsForEachLoop.simps)
next
  case False
  then show ?thesis
    using bsForEachLoop_bits [OF assms(1) False assms(2,3), of "setIteratorAttach s" _ ofbit "[]"]
    by (simp add: bsForEach_def Let_def setIteratorBegin_def setIteratorAttach_def
        bits_from_all [OF assms(1)])
qed

theorem bitset_iteration_witness:
  "bsForEach (\<lambda>_. None) (bs_add (bs_add bs64 40) 3) = [3, 40]"
proof -
  let ?s = "bs_add (bs_add bs64 40) 3"
  have a: "bs_indexed id (bs_add bs64 40)" "bs_set (bs_add bs64 40) = {40}"
    "unat (setSize (bs_add bs64 40)) = 64"
    using bs_add_ok [OF bs64_indexed(1), of 40] bs64_indexed(2,3) by simp_all
  have b: "bs_indexed id ?s" "bs_set ?s = {3, 40}"
    using bs_add_ok [OF a(1), of 3] a(2,3) by auto
  have "getObjectByIndex ?s = Some Some" by (simp add: bs64_def setCreate_def Let_def)
  moreover have "setNumElements ?s \<noteq> 0" using b by (auto simp: bs_indexed_def bs_counted_def)
  ultimately show ?thesis
    using bitset_iteration [of ?s Some "\<lambda>i. i" "\<lambda>_. None"] b by (simp add: bs_indexed_def bs_counted_def)
qed

text \<open>
  C34.  Since the operations leave the counter alone, a union into an empty set
  is invisible to \<open>setIsMember\<close>, which answers no for every object when the
  counter is zero, although the bits are there.
\<close>

theorem union_into_empty_not_seen:
  assumes "bs_counted dest" and "bs_set dest = {}" and "bs_ok src"
    and "unat (setWidth dest) + unat (setWidth src) + 2 < 2 ^ 27"
  shows "\<exists>r. setOperate True dest src LS_SET_UNION = Some (None, r) \<and> bs_set r = bs_set src \<and>
    setIsMember rd (Some r) obj = (0, Some BS_SETEMPTY)"
proof -
  have "bs_ok dest" and z: "setNumElements dest = 0"
    using assms(1,2) by (simp_all add: bs_counted_def unat_eq_0)
  then obtain r where "setOperate True dest src LS_SET_UNION = Some (None, r)"
    "setNumElements r = 0" "bs_set r = bs_set src"
    using setOperate_set [of dest src LS_SET_UNION] assms(2-4) by auto
  then show ?thesis by (simp add: setIsMember_def)
qed

theorem union_into_empty_witness:
  "\<exists>r. setOperate True bs64 (bs_add bs64 3) LS_SET_UNION = Some (None, r) \<and> bs_set r = {3} \<and>
     setIsMember (\<lambda>_. 0) (Some r) 3 = (0, Some BS_SETEMPTY)"
proof -
  have "bs_indexed id (bs_add bs64 3)" "bs_set (bs_add bs64 3) = {3}"
    using bs_add_ok [OF bs64_indexed(1), of 3] bs64_indexed(2,3) by simp_all
  moreover have "unat (setSize (bs_add bs64 3)) = 64"
    using bs_add_ok [OF bs64_indexed(1), of 3] bs64_indexed(2) by simp
  moreover have "unat (setWidth bs64) = 2"
    by (simp add: bs64_def setCreate_def Let_def WORDLENGTH_def)
  ultimately show ?thesis
    using union_into_empty_not_seen [of bs64 "bs_add bs64 3"] bs64_indexed(1,3)
    by (simp add: bs_indexed_def bs_counted_def bs_ok_def)
qed

end
