(* ===== verification/Mbd_Groups.thy ===== *)
theory Mbd_Groups
  imports Hash_Table
begin

text \<open>
  Host and user groups of mbatchd (\<open>lsbatch/daemons/mbd.grp.c\<close>).  A group has a
  hash table of direct members and an array of subgroups; a group with neither
  stands for all users (or hosts).  The subgroups form a tree: the
  configuration files refer to groups defined earlier only.
\<close>

section \<open>The group tree\<close>

datatype gData = GData (group: string) (memberTab: "unit hTab") (gPtr: "gData list")

definition MAX_LSB_NAME_LEN :: nat where "MAX_LSB_NAME_LEN = 60"

definition gDirectMember :: "string \<Rightarrow> gData \<Rightarrow> bool" where
  "gDirectMember word gp =
     (if gPtr gp = [] \<and> hNumEnts (memberTab gp) = 0 then True
      else h_getEnt (memberTab gp) word \<noteq> None)"

fun gMember :: "string \<Rightarrow> gData \<Rightarrow> bool"
and gMemberLoop :: "string \<Rightarrow> gData list \<Rightarrow> bool" where
  "gMember word (GData n t gs) = (if gDirectMember word (GData n t gs) then True else gMemberLoop word gs)"
| "gMemberLoop word [] = False"
| "gMemberLoop word (g # gs) = (if gMember word g then True else gMemberLoop word gs)"

fun gMemberForShare :: "string \<Rightarrow> gData \<Rightarrow> bool"
and gMemberForShareLoop :: "string \<Rightarrow> gData list \<Rightarrow> bool" where
  "gMemberForShare word (GData n t gs) =
     (if gDirectMember word (GData n t gs) then True else gMemberForShareLoop word gs)"
| "gMemberForShareLoop word [] = False"
| "gMemberForShareLoop word (g # gs) =
     (if group g = word then True
      else if gMemberForShare word g then True
      else gMemberForShareLoop word gs)"

fun getGrpData :: "gData list \<Rightarrow> string \<Rightarrow> gData option" where
  "getGrpData [] name = None"
| "getGrpData (g # gs) name = (if name = group g then Some g else getGrpData gs name)"

fun getGroup :: "gData list \<Rightarrow> string \<Rightarrow> gData option" where
  "getGroup [] member = None"
| "getGroup (g # gs) member = (if gMember member g then Some g else getGroup gs member)"

section \<open>Counting and expanding\<close>

text \<open>The functions below accumulate in a \<open>static\<close> counter, here an argument and a result.\<close>

fun countEntries :: "gData \<Rightarrow> nat \<Rightarrow> nat"
and countEntriesLoop :: "gData list \<Rightarrow> nat \<Rightarrow> nat" where
  "countEntries (GData n t gs) num = countEntriesLoop gs (num + hNumEnts t)"
| "countEntriesLoop [] num = num"
| "countEntriesLoop (g # gs) num = countEntriesLoop gs (countEntries g num)"

text \<open>\<open>fillMembers\<close> writes names at the growing index \<open>mcnt\<close>: the array written so far.\<close>

fun fillMembers :: "gData \<Rightarrow> string list \<Rightarrow> string list option"
and fillMembersLoop :: "gData list \<Rightarrow> string list \<Rightarrow> string list option" where
  "fillMembers (GData n t gs) tab =
     Option.bind (for_each_entry t) (\<lambda>es. fillMembersLoop gs (tab @ map fst es))"
| "fillMembersLoop [] tab = Some tab"
| "fillMembersLoop (g # gs) tab = Option.bind (fillMembers g tab) (fillMembersLoop gs)"

text \<open>\<open>expandGrp\<close>: the size of the allocated array and what is written into it.\<close>

definition expandGrp :: "gData \<Rightarrow> string \<Rightarrow> (nat \<times> string list) option" where
  "expandGrp gp gName =
     (let num = countEntries gp 0
      in if num = 0 then Some (1, [gName])
         else map_option (Pair num) (fillMembers gp []))"

fun sumMembers :: "gData \<Rightarrow> bool \<Rightarrow> nat \<Rightarrow> nat \<times> nat"
and sumMembersLoop :: "gData list \<Rightarrow> nat \<Rightarrow> nat \<times> nat" where
  "sumMembers (GData n t gs) r num =
     (if gs = [] \<and> hNumEnts t = 0 \<and> r then (0, num)
      else let num = num + hNumEnts t
           in if \<not> r then (num + length gs, num + length gs) else sumMembersLoop gs num)"
| "sumMembersLoop [] num = (num, num)"
| "sumMembersLoop (g # gs) num =
     (let (ret, num) = sumMembers g True num
      in if ret = 0 then (0, num) else sumMembersLoop gs num)"

fun catNames :: "string list \<Rightarrow> string" where
  "catNames [] = []"
| "catNames (x # xs) = x @ '' '' @ catNames xs"

definition catGroupName :: "string \<Rightarrow> string" where
  "catGroupName nm = (if last nm \<noteq> CHR ''/'' then nm @ ''/ '' else nm @ '' '')"

fun catMembers :: "gData \<Rightarrow> bool \<Rightarrow> string \<Rightarrow> string option"
and catMembersLoop :: "gData list \<Rightarrow> bool \<Rightarrow> string \<Rightarrow> string option" where
  "catMembers (GData n t gs) r cbuf =
     Option.bind (for_each_entry t) (\<lambda>es. catMembersLoop gs r (cbuf @ catNames (map fst es)))"
| "catMembersLoop [] r cbuf = Some cbuf"
| "catMembersLoop (g # gs) r cbuf =
     (if \<not> r then catMembersLoop gs r (cbuf @ catGroupName (group g))
      else Option.bind (catMembers g r cbuf) (catMembersLoop gs r))"

text \<open>
  \<open>getGroupMembers\<close>: the size of the buffer (\<open>None\<close> for a copy of a literal) and
  the text in it.
\<close>

definition getGroupMembers :: "gData \<Rightarrow> bool \<Rightarrow> (nat option \<times> string) option" where
  "getGroupMembers gp r =
     (let numMembers = fst (sumMembers gp r 0)
      in if numMembers = 0 then Some (None, ''all'')
         else map_option (Pair (Some (numMembers * MAX_LSB_NAME_LEN))) (catMembers gp r []))"

section \<open>Specification\<close>

definition tab_names :: "unit hTab \<Rightarrow> string list" where
  "tab_names t = map fst (ht_ents t)"

fun g_ok :: "gData \<Rightarrow> bool" where
  "g_ok (GData n t gs) = (ht_ok t \<and> (\<forall>g \<in> set gs. g_ok g))"

text \<open>The names listed anywhere in a group, in the order of the walk.\<close>

fun g_names :: "gData \<Rightarrow> string list" where
  "g_names (GData n t gs) = tab_names t @ concat (map g_names gs)"

text \<open>Whether an all-users group is in the tree.\<close>

fun g_has_all :: "gData \<Rightarrow> bool" where
  "g_has_all (GData n t gs) = (gs = [] \<and> tab_names t = [] \<or> (\<exists>g \<in> set gs. g_has_all g))"

lemma tab_names_length: "ht_ok t \<Longrightarrow> length (tab_names t) = hNumEnts t"
  by (simp add: tab_names_def ht_ok_def ht_ents_def)

lemma tab_names_walk: "ht_ok t \<Longrightarrow> for_each_entry t = Some (ht_ents t)"
  by (rule for_each_entry_ents)

lemma tab_names_Nil: "ht_ok t \<Longrightarrow> tab_names t = [] \<longleftrightarrow> hNumEnts t = 0"
  using tab_names_length by fastforce

lemma h_getEnt_names:
  assumes "ht_ok t"
  shows "h_getEnt t word \<noteq> None \<longleftrightarrow> word \<in> set (tab_names t)"
proof -
  have "slots_ok t" using assms by (simp add: ht_ok_def)
  then have "ht_map t word \<noteq> None \<longleftrightarrow> word \<in> set (map fst (ht_ents t))"
    by (simp add: ht_map_ents map_of_eq_None_iff)
  then show ?thesis using assms by (simp add: h_getEnt_map tab_names_def)
qed

lemma gDirectMember_spec:
  "ht_ok t \<Longrightarrow> gDirectMember word (GData n t gs) \<longleftrightarrow> gs = [] \<and> tab_names t = [] \<or> word \<in> set (tab_names t)"
  using h_getEnt_names [of t word] tab_names_Nil [of t] by (auto simp: gDirectMember_def)

lemma gMember_spec:
  "g_ok g \<Longrightarrow> gMember word g \<longleftrightarrow> word \<in> set (g_names g) \<or> g_has_all g"
  "\<forall>g \<in> set gs. g_ok g \<Longrightarrow>
     gMemberLoop word gs \<longleftrightarrow> (\<exists>g \<in> set gs. word \<in> set (g_names g) \<or> g_has_all g)"
  by (induction word g and word gs rule: gMember_gMemberLoop.induct)
    (auto simp: gDirectMember_spec)

lemma countEntries_spec:
  "g_ok g \<Longrightarrow> countEntries g num = num + length (g_names g)"
  "\<forall>g \<in> set gs. g_ok g \<Longrightarrow> countEntriesLoop gs num = num + length (concat (map g_names gs))"
  by (induction g num and gs num rule: countEntries_countEntriesLoop.induct)
    (auto simp: tab_names_length)

lemma fillMembers_spec:
  "g_ok g \<Longrightarrow> fillMembers g tab = Some (tab @ g_names g)"
  "\<forall>g \<in> set gs. g_ok g \<Longrightarrow> fillMembersLoop gs tab = Some (tab @ concat (map g_names gs))"
  by (induction g tab and gs tab rule: fillMembers_fillMembersLoop.induct)
    (auto simp: tab_names_walk tab_names_def)

lemma sumMembers_rec_spec:
  "g_ok g \<Longrightarrow> r \<Longrightarrow>
     (if g_has_all g then fst (sumMembers g r num) = 0
      else sumMembers g r num = (num + length (g_names g), num + length (g_names g)) \<and>
           0 < length (g_names g))"
  "\<forall>g \<in> set gs. g_ok g \<Longrightarrow>
     (if \<exists>g \<in> set gs. g_has_all g then fst (sumMembersLoop gs num) = 0
      else sumMembersLoop gs num =
             (num + length (concat (map g_names gs)), num + length (concat (map g_names gs))) \<and>
           (gs \<noteq> [] \<longrightarrow> 0 < length (concat (map g_names gs))))"
proof (induction g r num and gs num rule: sumMembers_sumMembersLoop.induct)
  case (1 n t gs r num)
  then show ?case by (auto simp: tab_names_Nil tab_names_length Let_def split: if_splits)
next
  case (3 g gs num)
  show ?case
  proof (cases "g_has_all g")
    case True
    with 3 show ?thesis by (auto simp: Let_def split: prod.splits)
  next
    case False
    with 3 show ?thesis by (auto simp: Let_def split: prod.splits if_splits)
  qed
qed simp_all

lemma length_catNames:
  "\<forall>x \<in> set xs. length x + 1 < k \<Longrightarrow> length (catNames xs) \<le> length xs * (k - 1)"
  by (induction xs) auto


lemma catNames_append: "catNames (xs @ ys) = catNames xs @ catNames ys"
  by (induction xs) auto

lemma catMembers_rec_spec:
  "g_ok g \<Longrightarrow> r \<Longrightarrow> catMembers g r cbuf = Some (cbuf @ catNames (g_names g))"
  "\<forall>g \<in> set gs. g_ok g \<Longrightarrow> r \<Longrightarrow>
     catMembersLoop gs r cbuf = Some (cbuf @ catNames (concat (map g_names gs)))"
  by (induction g r cbuf and gs r cbuf rule: catMembers_catMembersLoop.induct)
    (auto simp: tab_names_walk tab_names_def catNames_append)

text \<open>The two shapes of \<open>getGroupMembers\<close>, and that the text fits its buffer.\<close>

lemma catMembersLoop_flat:
  "catMembersLoop gs False cbuf = Some (cbuf @ concat (map (\<lambda>g. catGroupName (group g)) gs))"
  by (induction gs arbitrary: cbuf) auto

lemma catMembers_flat_spec:
  "ht_ok t \<Longrightarrow> catMembers (GData n t gs) False cbuf =
     Some (cbuf @ catNames (tab_names t) @ concat (map (\<lambda>g. catGroupName (group g)) gs))"
  by (simp add: tab_names_walk tab_names_def catMembersLoop_flat)

lemma length_concat_bound:
  "\<forall>x \<in> set xs. length (f x) \<le> k \<Longrightarrow> length (concat (map f xs)) \<le> length xs * k"
  by (induction xs) auto

lemma fits_buffer: "0 < n \<Longrightarrow> l \<le> n * (k - 1) \<Longrightarrow> 0 < k \<Longrightarrow> l < n * (k :: nat)"
  by (metis diff_less le_neq_implies_less less_le_trans linorder_not_less mult_less_mono2
      nat_less_le zero_less_one)

lemma getGroupMembers_rec:
  assumes "g_ok g" and "\<not> g_has_all g" and "\<forall>x \<in> set (g_names g). length x + 1 < MAX_LSB_NAME_LEN"
  shows "\<exists>txt. getGroupMembers g True = Some (Some (length (g_names g) * MAX_LSB_NAME_LEN), txt) \<and>
    length txt < length (g_names g) * MAX_LSB_NAME_LEN"
proof -
  have n: "fst (sumMembers g True 0) = length (g_names g)" "0 < length (g_names g)"
    using sumMembers_rec_spec(1) [OF assms(1), of True 0] assms(2) by simp_all
  have "length (catNames (g_names g)) < length (g_names g) * MAX_LSB_NAME_LEN"
    using fits_buffer [OF n(2) length_catNames [OF assms(3)]] by (simp add: MAX_LSB_NAME_LEN_def)
  then show ?thesis using n catMembers_rec_spec(1) [OF assms(1), of True "[]"]
    by (simp add: getGroupMembers_def Let_def)
qed

lemma getGroupMembers_flat:
  assumes ok: "ht_ok t" and ne: "tab_names t \<noteq> [] \<or> gs \<noteq> []"
    and len: "\<forall>x \<in> set (tab_names t). length x + 1 < MAX_LSB_NAME_LEN"
      "\<forall>g \<in> set gs. length (catGroupName (group g)) < MAX_LSB_NAME_LEN"
  shows "\<exists>txt. getGroupMembers (GData n t gs) False =
      Some (Some ((length (tab_names t) + length gs) * MAX_LSB_NAME_LEN), txt) \<and>
    length txt < (length (tab_names t) + length gs) * MAX_LSB_NAME_LEN"
proof -
  let ?k = "length (tab_names t) + length gs"
  have n: "fst (sumMembers (GData n t gs) False 0) = ?k" "0 < ?k"
    using ok ne by (auto simp: tab_names_length Let_def tab_names_Nil)
  have "\<forall>g \<in> set gs. length (catGroupName (group g)) \<le> MAX_LSB_NAME_LEN - 1"
    using len(2) by auto
  then have "length (concat (map (\<lambda>g. catGroupName (group g)) gs)) \<le> length gs * (MAX_LSB_NAME_LEN - 1)"
    by (rule length_concat_bound)
  moreover have "length (catNames (tab_names t)) \<le> length (tab_names t) * (MAX_LSB_NAME_LEN - 1)"
    using len(1) length_catNames by blast
  ultimately have "length (catNames (tab_names t) @ concat (map (\<lambda>g. catGroupName (group g)) gs)) \<le>
      ?k * (MAX_LSB_NAME_LEN - 1)" by (simp add: add_mult_distrib)
  then have "length (catNames (tab_names t) @ concat (map (\<lambda>g. catGroupName (group g)) gs)) <
      ?k * MAX_LSB_NAME_LEN"
    by (rule fits_buffer [OF n(2)]) (simp add: MAX_LSB_NAME_LEN_def)
  then show ?thesis using n catMembers_flat_spec [OF ok, of n gs "[]"]
    by (simp add: getGroupMembers_def Let_def del: catMembers.simps sumMembers.simps)
qed

section \<open>Properties\<close>

definition grp1 :: gData where
  "grp1 = GData ''dev'' (ht_put (h_initTab 4) ''ann'' ()) [GData ''ops'' (ht_put (h_initTab 4) ''bob'' ()) []]"

lemma grp1_facts: "g_ok grp1" "g_names grp1 = [''ann'', ''bob'']" "\<not> g_has_all grp1"
  by (simp_all add: grp1_def tab_names_def ht_ents_single ht_put_ok(1) [OF ht_ok_init])

text \<open>
  C36.  \<open>gMember\<close> answers whether the name is listed in the group or in any group
  below it, or the group or one below it is an empty group, which stands for
  everybody.
\<close>

theorem gMember_tree:
  "g_ok g \<Longrightarrow> gMember word g \<longleftrightarrow> word \<in> set (g_names g) \<or> g_has_all g"
  by (rule gMember_spec(1))

theorem gMember_tree_witness: "gMember ''bob'' grp1 \<and> \<not> gMember ''eve'' grp1"
  using gMember_tree [OF grp1_facts(1), of "''bob''"] gMember_tree [OF grp1_facts(1), of "''eve''"]
    grp1_facts(2,3) by simp

text \<open>
  C37.  \<open>expandGrp\<close> returns and fills the array it allocated exactly: it writes
  one name per entry it counted, all the names listed in the tree, and the
  group's own name when there is none.
\<close>

theorem expandGrp_exact:
  assumes "g_ok g"
  shows "\<exists>sz tab. expandGrp g nm = Some (sz, tab) \<and> length tab = sz \<and>
    tab = (if g_names g = [] then [nm] else g_names g)"
  using countEntries_spec(1) [OF assms, of 0] fillMembers_spec(1) [OF assms, of "[]"]
  by (simp add: expandGrp_def Let_def)

theorem expandGrp_exact_witness:
  "\<exists>sz tab. expandGrp grp1 ''dev'' = Some (sz, tab) \<and> length tab = sz \<and> tab = [''ann'', ''bob'']"
  using expandGrp_exact [OF grp1_facts(1), of "''dev''"] grp1_facts(2) by simp

text \<open>
  C38.  \<open>getGroupMembers\<close> returns.  If every member's name has at most 58
  characters (two fewer than \<open>MAX_LSB_NAME_LEN\<close>: a blank follows it, and one
  zero ends the text) and every direct subgroup's name at most 57, or 58 when
  it ends in a slash, then the text it builds, with its terminating zero, fits
  the buffer it allocated, both for the recursive and for the direct listing.
  It answers \<open>all\<close> exactly for an empty group, or when asked to recurse and an
  empty group is in the tree.
\<close>

theorem getGroupMembers_fits:
  assumes "g_ok (GData n t gs)"
    and "\<forall>x \<in> set (g_names (GData n t gs)). length x + 1 < MAX_LSB_NAME_LEN"
    and "\<forall>g \<in> set gs. length (group g) + (if last (group g) = CHR ''/'' then 1 else 2) < MAX_LSB_NAME_LEN"
  shows "\<exists>b txt. getGroupMembers (GData n t gs) r = Some (b, txt) \<and>
    (b = None \<longleftrightarrow> (if r then g_has_all (GData n t gs) else tab_names t = [] \<and> gs = [])) \<and>
    (\<forall>sz. b = Some sz \<longrightarrow> length txt < sz)"
proof (cases r)
  case True
  show ?thesis
  proof (cases "g_has_all (GData n t gs)")
    case all: True
    then have "fst (sumMembers (GData n t gs) True 0) = 0"
      using sumMembers_rec_spec(1) [OF assms(1), of True 0] by simp
    then show ?thesis using True all by (simp add: getGroupMembers_def del: sumMembers.simps)
  next
    case False
    then show ?thesis using True getGroupMembers_rec [OF assms(1) False] assms(2) by auto
  qed
next
  case False
  have ok: "ht_ok t" using assms(1) by simp
  show ?thesis
  proof (cases "tab_names t = [] \<and> gs = []")
    case True
    then show ?thesis using False tab_names_Nil [OF ok] by (simp add: getGroupMembers_def)
  next
    case ne: False
    moreover have "\<forall>x \<in> set (tab_names t). length x + 1 < MAX_LSB_NAME_LEN" using assms(2) by auto
    moreover have "\<forall>g \<in> set gs. length (catGroupName (group g)) < MAX_LSB_NAME_LEN"
      using assms(3) by (auto simp: catGroupName_def split: if_splits)
    ultimately obtain tx sz where "getGroupMembers (GData n t gs) False = Some (Some sz, tx)"
      and "length tx < sz" using getGroupMembers_flat [OF ok, of gs n] by blast
    then show ?thesis using False ne by auto
  qed
qed

theorem getGroupMembers_fits_witness:
  "\<exists>b txt. getGroupMembers grp1 True = Some (b, txt) \<and> b \<noteq> None \<and> (\<forall>sz. b = Some sz \<longrightarrow> length txt < sz)"
proof -
  obtain n t gs where g: "grp1 = GData n t gs" by (cases grp1)
  have "group ` set gs = {''ops''}" using g by (auto simp: grp1_def)
  then have "\<forall>g \<in> set gs. group g = ''ops''" by auto
  then show ?thesis
    using getGroupMembers_fits [of n t gs True] grp1_facts g by (auto simp: MAX_LSB_NAME_LEN_def)
qed



end
