(* ===== verification/Job_Status.thy ===== *)
theory Job_Status
  imports Prelude
begin

unbundle bit_operations_syntax

text \<open>
  The status word of a job (\<open>lsbatch/lsbatch.h\<close>, \<open>lsbatch/daemons/daemons.h\<close>):
  the state proper in the low 20 bits, one bit per state with a few legal
  combinations, and flags of the daemons above them.  \<open>jstate\<close> is the state
  without the \<open>UNKWN\<close> bit, the value every \<open>switch\<close> over a job's state looks
  at; the lemmas reduce each bit test of the code to it.
\<close>

section \<open>The bits\<close>

definition JOB_STAT_NULL :: uint32 where "JOB_STAT_NULL = 0x00"
definition JOB_STAT_PEND :: uint32 where "JOB_STAT_PEND = 0x01"
definition JOB_STAT_PSUSP :: uint32 where "JOB_STAT_PSUSP = 0x02"
definition JOB_STAT_RUN :: uint32 where "JOB_STAT_RUN = 0x04"
definition JOB_STAT_SSUSP :: uint32 where "JOB_STAT_SSUSP = 0x08"
definition JOB_STAT_USUSP :: uint32 where "JOB_STAT_USUSP = 0x10"
definition JOB_STAT_EXIT :: uint32 where "JOB_STAT_EXIT = 0x20"
definition JOB_STAT_DONE :: uint32 where "JOB_STAT_DONE = 0x40"
definition JOB_STAT_PDONE :: uint32 where "JOB_STAT_PDONE = 0x80"
definition JOB_STAT_PERR :: uint32 where "JOB_STAT_PERR = 0x100"
definition JOB_STAT_WAIT :: uint32 where "JOB_STAT_WAIT = 0x200"
definition JOB_STAT_UNKWN :: uint32 where "JOB_STAT_UNKWN = 0x10000"

definition MASK_INT_JOB_STAT :: uint32 where "MASK_INT_JOB_STAT = 0x000FFFFF"
definition JOB_STAT_VOID :: uint32 where "JOB_STAT_VOID = 0x00100000"
definition JOB_STAT_RSRC_PREEMPT_WAIT :: uint32 where "JOB_STAT_RSRC_PREEMPT_WAIT = 0x00400000"
definition JOB_STAT_KILL :: uint32 where "JOB_STAT_KILL = 0x00800000"
definition JOB_STAT_MODIFY_ONCE :: uint32 where "JOB_STAT_MODIFY_ONCE = 0x01000000"
definition JOB_STAT_ZOMBIE :: uint32 where "JOB_STAT_ZOMBIE = 0x02000000"
definition JOB_STAT_PRE_EXEC :: uint32 where "JOB_STAT_PRE_EXEC = 0x04000000"
definition JOB_STAT_SIGNAL :: uint32 where "JOB_STAT_SIGNAL = 0x08000000"
definition JOB_STAT_CHKPNTED_ONCE :: uint32 where "JOB_STAT_CHKPNTED_ONCE = 0x10000000"
definition JOB_STAT_RESERVE :: uint32 where "JOB_STAT_RESERVE = 0x20000000"
definition JOB_STAT_MIG :: uint32 where "JOB_STAT_MIG = 0x40000000"
definition JOB_STAT_POST_EXEC :: uint32 where "JOB_STAT_POST_EXEC = 0x80000000"

lemmas stat_consts =
  JOB_STAT_NULL_def JOB_STAT_PEND_def JOB_STAT_PSUSP_def JOB_STAT_RUN_def JOB_STAT_SSUSP_def
  JOB_STAT_USUSP_def JOB_STAT_EXIT_def JOB_STAT_DONE_def JOB_STAT_PDONE_def JOB_STAT_PERR_def
  JOB_STAT_WAIT_def JOB_STAT_UNKWN_def MASK_INT_JOB_STAT_def

lemmas stat_flags =
  JOB_STAT_VOID_def JOB_STAT_RSRC_PREEMPT_WAIT_def JOB_STAT_KILL_def JOB_STAT_MODIFY_ONCE_def
  JOB_STAT_ZOMBIE_def JOB_STAT_PRE_EXEC_def JOB_STAT_SIGNAL_def JOB_STAT_CHKPNTED_ONCE_def
  JOB_STAT_RESERVE_def JOB_STAT_MIG_def JOB_STAT_POST_EXEC_def

section \<open>The macros\<close>

definition MASK_STATUS :: "uint32 \<Rightarrow> uint32" where
  "MASK_STATUS s = s AND MASK_INT_JOB_STAT"

text \<open>The C test \<open>s & b\<close> used as a condition.\<close>

definition has :: "uint32 \<Rightarrow> uint32 \<Rightarrow> bool" where
  "has s b \<longleftrightarrow> s AND b \<noteq> 0"

definition IS_PEND :: "uint32 \<Rightarrow> bool" where
  "IS_PEND s \<longleftrightarrow> has s JOB_STAT_PEND \<or> has s JOB_STAT_PSUSP"

definition IS_START :: "uint32 \<Rightarrow> bool" where
  "IS_START s \<longleftrightarrow> has s JOB_STAT_RUN \<or> has s JOB_STAT_SSUSP \<or> has s JOB_STAT_USUSP"

definition IS_FINISH :: "uint32 \<Rightarrow> bool" where
  "IS_FINISH s \<longleftrightarrow> has s JOB_STAT_DONE \<or> has s JOB_STAT_EXIT"

definition IS_SUSP :: "uint32 \<Rightarrow> bool" where
  "IS_SUSP s \<longleftrightarrow> has s JOB_STAT_PSUSP \<or> has s JOB_STAT_SSUSP \<or> has s JOB_STAT_USUSP"

definition IS_POST_DONE :: "uint32 \<Rightarrow> bool" where
  "IS_POST_DONE s \<longleftrightarrow> s AND JOB_STAT_PDONE = JOB_STAT_PDONE"

definition IS_POST_ERR :: "uint32 \<Rightarrow> bool" where
  "IS_POST_ERR s \<longleftrightarrow> s AND JOB_STAT_PERR = JOB_STAT_PERR"

definition IS_POST_FINISH :: "uint32 \<Rightarrow> bool" where
  "IS_POST_FINISH s \<longleftrightarrow> IS_POST_DONE s \<or> IS_POST_ERR s"

definition SET_STATE :: "uint32 \<Rightarrow> uint32 \<Rightarrow> uint32" where
  "SET_STATE s n = (s AND NOT MASK_INT_JOB_STAT) OR n"

text \<open>The value that \<open>MASK_STATUS (s & ~JOB_STAT_UNKWN)\<close> has everywhere in the code.\<close>

definition jstate :: "uint32 \<Rightarrow> uint32" where
  "jstate s = MASK_STATUS (s AND NOT JOB_STAT_UNKWN)"

lemmas stat_preds = IS_PEND_def IS_START_def IS_FINISH_def IS_SUSP_def

section \<open>Bit tests see the state only\<close>

lemma jstate_and: "jstate s = s AND 0xEFFFF"
  by (simp add: jstate_def MASK_STATUS_def stat_consts and.assoc)

text \<open>A test for bits of the state reads them off \<open>jstate\<close>.\<close>

lemma has_jstate:
  assumes "0xEFFFF AND b = b"
  shows "has s b \<longleftrightarrow> jstate s AND b \<noteq> 0"
  using assms by (simp add: has_def jstate_and and.assoc)

lemma has_state [stat_simps]:
  "has s JOB_STAT_PEND \<longleftrightarrow> jstate s AND 0x01 \<noteq> 0"
  "has s JOB_STAT_PSUSP \<longleftrightarrow> jstate s AND 0x02 \<noteq> 0"
  "has s JOB_STAT_RUN \<longleftrightarrow> jstate s AND 0x04 \<noteq> 0"
  "has s JOB_STAT_SSUSP \<longleftrightarrow> jstate s AND 0x08 \<noteq> 0"
  "has s JOB_STAT_USUSP \<longleftrightarrow> jstate s AND 0x10 \<noteq> 0"
  "has s JOB_STAT_EXIT \<longleftrightarrow> jstate s AND 0x20 \<noteq> 0"
  "has s JOB_STAT_DONE \<longleftrightarrow> jstate s AND 0x40 \<noteq> 0"
  "has s JOB_STAT_WAIT \<longleftrightarrow> jstate s AND 0x200 \<noteq> 0"
  "has s (JOB_STAT_RUN OR JOB_STAT_WAIT) \<longleftrightarrow> jstate s AND 0x204 \<noteq> 0"
  by (simp_all add: has_jstate stat_consts)

text \<open>The states a job goes through, as values of \<open>jstate\<close>.\<close>

definition job_states :: "uint32 list" where
  "job_states = [JOB_STAT_PEND, JOB_STAT_PSUSP, JOB_STAT_RUN, JOB_STAT_RUN OR JOB_STAT_WAIT,
     JOB_STAT_SSUSP, JOB_STAT_USUSP, JOB_STAT_EXIT, JOB_STAT_DONE]"

definition stat_ok :: "uint32 \<Rightarrow> bool" where
  "stat_ok s \<longleftrightarrow> jstate s \<in> set job_states"

lemma stat_ok_cases [consumes 1, case_names PEND PSUSP RUN RWAIT SSUSP USUSP EXIT DONE]:
  assumes "stat_ok s"
  obtains "jstate s = 0x01" | "jstate s = 0x02" | "jstate s = 0x04" | "jstate s = 0x204"
    | "jstate s = 0x08" | "jstate s = 0x10" | "jstate s = 0x20" | "jstate s = 0x40"
  using assms by (auto simp: stat_ok_def job_states_def stat_consts)

lemma stat_ok_partition:
  assumes "stat_ok s"
  shows "(IS_PEND s \<or> IS_START s \<or> IS_FINISH s) \<and> \<not> (IS_PEND s \<and> IS_START s) \<and>
    \<not> (IS_PEND s \<and> IS_FINISH s) \<and> \<not> (IS_START s \<and> IS_FINISH s)"
  using assms by (cases rule: stat_ok_cases) (simp_all add: stat_preds stat_simps)

text \<open>Changing flags leaves the state alone, and setting a state leaves the flags alone.\<close>

lemma jstate_flags [stat_simps]:
  "jstate (s AND NOT JOB_STAT_RESERVE) = jstate s" "jstate (s OR JOB_STAT_RESERVE) = jstate s"
  "jstate (s AND NOT JOB_STAT_MIG) = jstate s" "jstate (s OR JOB_STAT_MIG) = jstate s"
  "jstate (s AND NOT JOB_STAT_PRE_EXEC) = jstate s" "jstate (s OR JOB_STAT_ZOMBIE) = jstate s"
  "jstate (s AND NOT JOB_STAT_ZOMBIE) = jstate s" "jstate (s OR JOB_STAT_SIGNAL) = jstate s"
  "jstate (s AND NOT JOB_STAT_SIGNAL) = jstate s"
  "jstate (NOT JOB_STAT_RESERVE AND s) = jstate s" "jstate (JOB_STAT_RESERVE OR s) = jstate s"
  by (simp_all add: jstate_and stat_flags and.assoc bit.conj_disj_distrib2 and.commute [of _ s])

lemma jstate_SET_STATE [stat_simps]: "jstate (SET_STATE s n) = jstate n"
proof -
  have "(s AND NOT MASK_INT_JOB_STAT) AND 0xEFFFF = 0"
    by (simp add: stat_consts and.assoc)
  then show ?thesis by (simp add: SET_STATE_def jstate_and bit.conj_disj_distrib2)
qed

lemma jstate_MASK [stat_simps]: "jstate (MASK_STATUS s) = jstate s"
  by (simp add: jstate_and MASK_STATUS_def stat_consts and.assoc)

lemma has_RESERVE_flags [stat_simps]:
  "\<not> has (s AND NOT JOB_STAT_RESERVE) JOB_STAT_RESERVE" "has (s OR JOB_STAT_RESERVE) JOB_STAT_RESERVE"
  "\<not> has (NOT JOB_STAT_RESERVE AND s) JOB_STAT_RESERVE" "has (JOB_STAT_RESERVE OR s) JOB_STAT_RESERVE"
  by (simp_all add: has_def stat_flags and.assoc bit.conj_disj_distrib2 and.left_commute)

text \<open>All tests of the code on a well-formed status, decided by its state.\<close>

lemma stat_table [consumes 1, case_names PEND PSUSP RUN RWAIT SSUSP USUSP EXIT DONE]:
  assumes "stat_ok s"
  obtains
    "jstate s = JOB_STAT_PEND" "has s JOB_STAT_PEND" "\<not> has s JOB_STAT_PSUSP" "\<not> has s JOB_STAT_RUN" "\<not> has s JOB_STAT_SSUSP"
    "\<not> has s JOB_STAT_USUSP" "\<not> has s JOB_STAT_WAIT" "IS_PEND s" "\<not> IS_START s" "\<not> IS_FINISH s"
  | "jstate s = JOB_STAT_PSUSP" "\<not> has s JOB_STAT_PEND" "has s JOB_STAT_PSUSP" "\<not> has s JOB_STAT_RUN" "\<not> has s JOB_STAT_SSUSP"
    "\<not> has s JOB_STAT_USUSP" "\<not> has s JOB_STAT_WAIT" "IS_PEND s" "\<not> IS_START s" "\<not> IS_FINISH s"
  | "jstate s = JOB_STAT_RUN" "\<not> has s JOB_STAT_PEND" "\<not> has s JOB_STAT_PSUSP" "has s JOB_STAT_RUN" "\<not> has s JOB_STAT_SSUSP"
    "\<not> has s JOB_STAT_USUSP" "\<not> has s JOB_STAT_WAIT" "\<not> IS_PEND s" "IS_START s" "\<not> IS_FINISH s"
  | "jstate s = JOB_STAT_RUN OR JOB_STAT_WAIT" "\<not> has s JOB_STAT_PEND" "\<not> has s JOB_STAT_PSUSP" "has s JOB_STAT_RUN" "\<not> has s JOB_STAT_SSUSP"
    "\<not> has s JOB_STAT_USUSP" "has s JOB_STAT_WAIT" "\<not> IS_PEND s" "IS_START s" "\<not> IS_FINISH s"
  | "jstate s = JOB_STAT_SSUSP" "\<not> has s JOB_STAT_PEND" "\<not> has s JOB_STAT_PSUSP" "\<not> has s JOB_STAT_RUN" "has s JOB_STAT_SSUSP"
    "\<not> has s JOB_STAT_USUSP" "\<not> has s JOB_STAT_WAIT" "\<not> IS_PEND s" "IS_START s" "\<not> IS_FINISH s"
  | "jstate s = JOB_STAT_USUSP" "\<not> has s JOB_STAT_PEND" "\<not> has s JOB_STAT_PSUSP" "\<not> has s JOB_STAT_RUN" "\<not> has s JOB_STAT_SSUSP"
    "has s JOB_STAT_USUSP" "\<not> has s JOB_STAT_WAIT" "\<not> IS_PEND s" "IS_START s" "\<not> IS_FINISH s"
  | "jstate s = JOB_STAT_EXIT" "\<not> has s JOB_STAT_PEND" "\<not> has s JOB_STAT_PSUSP" "\<not> has s JOB_STAT_RUN" "\<not> has s JOB_STAT_SSUSP"
    "\<not> has s JOB_STAT_USUSP" "\<not> has s JOB_STAT_WAIT" "\<not> IS_PEND s" "\<not> IS_START s" "IS_FINISH s"
  | "jstate s = JOB_STAT_DONE" "\<not> has s JOB_STAT_PEND" "\<not> has s JOB_STAT_PSUSP" "\<not> has s JOB_STAT_RUN" "\<not> has s JOB_STAT_SSUSP"
    "\<not> has s JOB_STAT_USUSP" "\<not> has s JOB_STAT_WAIT" "\<not> IS_PEND s" "\<not> IS_START s" "IS_FINISH s"
  using assms
  by (cases rule: stat_ok_cases) (simp_all add: stat_preds stat_simps, simp_all add: stat_consts has_jstate)

lemma stat_distinct [simp]:
  "JOB_STAT_PEND \<noteq> JOB_STAT_PSUSP" "JOB_STAT_PEND \<noteq> JOB_STAT_RUN" "JOB_STAT_PEND \<noteq> JOB_STAT_SSUSP"
  "JOB_STAT_PEND \<noteq> JOB_STAT_USUSP" "JOB_STAT_PEND \<noteq> JOB_STAT_EXIT" "JOB_STAT_PEND \<noteq> JOB_STAT_DONE"
  "JOB_STAT_PEND \<noteq> JOB_STAT_RUN OR JOB_STAT_WAIT"
  "JOB_STAT_PSUSP \<noteq> JOB_STAT_PEND" "JOB_STAT_PSUSP \<noteq> JOB_STAT_RUN" "JOB_STAT_PSUSP \<noteq> JOB_STAT_SSUSP"
  "JOB_STAT_PSUSP \<noteq> JOB_STAT_USUSP" "JOB_STAT_PSUSP \<noteq> JOB_STAT_EXIT" "JOB_STAT_PSUSP \<noteq> JOB_STAT_DONE"
  "JOB_STAT_PSUSP \<noteq> JOB_STAT_RUN OR JOB_STAT_WAIT"
  "JOB_STAT_RUN \<noteq> JOB_STAT_PEND" "JOB_STAT_RUN \<noteq> JOB_STAT_PSUSP" "JOB_STAT_RUN \<noteq> JOB_STAT_SSUSP"
  "JOB_STAT_RUN \<noteq> JOB_STAT_USUSP" "JOB_STAT_RUN \<noteq> JOB_STAT_EXIT" "JOB_STAT_RUN \<noteq> JOB_STAT_DONE"
  "JOB_STAT_RUN \<noteq> JOB_STAT_RUN OR JOB_STAT_WAIT"
  "JOB_STAT_SSUSP \<noteq> JOB_STAT_PEND" "JOB_STAT_SSUSP \<noteq> JOB_STAT_PSUSP" "JOB_STAT_SSUSP \<noteq> JOB_STAT_RUN"
  "JOB_STAT_SSUSP \<noteq> JOB_STAT_USUSP" "JOB_STAT_SSUSP \<noteq> JOB_STAT_EXIT" "JOB_STAT_SSUSP \<noteq> JOB_STAT_DONE"
  "JOB_STAT_SSUSP \<noteq> JOB_STAT_RUN OR JOB_STAT_WAIT"
  "JOB_STAT_USUSP \<noteq> JOB_STAT_PEND" "JOB_STAT_USUSP \<noteq> JOB_STAT_PSUSP" "JOB_STAT_USUSP \<noteq> JOB_STAT_RUN"
  "JOB_STAT_USUSP \<noteq> JOB_STAT_SSUSP" "JOB_STAT_USUSP \<noteq> JOB_STAT_EXIT" "JOB_STAT_USUSP \<noteq> JOB_STAT_DONE"
  "JOB_STAT_USUSP \<noteq> JOB_STAT_RUN OR JOB_STAT_WAIT"
  "JOB_STAT_EXIT \<noteq> JOB_STAT_PEND" "JOB_STAT_EXIT \<noteq> JOB_STAT_PSUSP" "JOB_STAT_EXIT \<noteq> JOB_STAT_RUN"
  "JOB_STAT_EXIT \<noteq> JOB_STAT_SSUSP" "JOB_STAT_EXIT \<noteq> JOB_STAT_USUSP" "JOB_STAT_EXIT \<noteq> JOB_STAT_DONE"
  "JOB_STAT_EXIT \<noteq> JOB_STAT_RUN OR JOB_STAT_WAIT"
  "JOB_STAT_DONE \<noteq> JOB_STAT_PEND" "JOB_STAT_DONE \<noteq> JOB_STAT_PSUSP" "JOB_STAT_DONE \<noteq> JOB_STAT_RUN"
  "JOB_STAT_DONE \<noteq> JOB_STAT_SSUSP" "JOB_STAT_DONE \<noteq> JOB_STAT_USUSP" "JOB_STAT_DONE \<noteq> JOB_STAT_EXIT"
  "JOB_STAT_DONE \<noteq> JOB_STAT_RUN OR JOB_STAT_WAIT"
  "JOB_STAT_RUN OR JOB_STAT_WAIT \<noteq> JOB_STAT_PEND" "JOB_STAT_RUN OR JOB_STAT_WAIT \<noteq> JOB_STAT_PSUSP"
  "JOB_STAT_RUN OR JOB_STAT_WAIT \<noteq> JOB_STAT_RUN" "JOB_STAT_RUN OR JOB_STAT_WAIT \<noteq> JOB_STAT_SSUSP"
  "JOB_STAT_RUN OR JOB_STAT_WAIT \<noteq> JOB_STAT_USUSP" "JOB_STAT_RUN OR JOB_STAT_WAIT \<noteq> JOB_STAT_EXIT"
  "JOB_STAT_RUN OR JOB_STAT_WAIT \<noteq> JOB_STAT_DONE"
  by (simp_all add: stat_consts)

end
