(* ===== verification/Jgrp_Tree.thy ===== *)
theory Jgrp_Tree
  imports Job_Status "HOL-Library.Monad_Syntax"
begin

unbundle bit_operations_syntax

text \<open>
  The tree of job groups and job arrays of \<open>lsbatch/daemons/mbd.jgrp.c\<close>.  A node
  links to its parent, its first child and its two siblings; groups and arrays
  count the jobs below them by state.  The nodes are a store from addresses to
  records.  A loop that follows \<open>parent\<close> or \<open>right\<close> links returns \<open>None\<close> where it
  would not end.
\<close>

section \<open>Nodes\<close>

definition JGRP_NODE_JOB :: int where "JGRP_NODE_JOB = 1"
definition JGRP_NODE_GROUP :: int where "JGRP_NODE_GROUP = 2"
definition JGRP_NODE_ARRAY :: int where "JGRP_NODE_ARRAY = 3"

definition JGRP_COUNT_NJOBS :: nat where "JGRP_COUNT_NJOBS = 0"
definition JGRP_COUNT_PEND :: nat where "JGRP_COUNT_PEND = 1"
definition JGRP_COUNT_NPSUSP :: nat where "JGRP_COUNT_NPSUSP = 2"
definition JGRP_COUNT_NRUN :: nat where "JGRP_COUNT_NRUN = 3"
definition JGRP_COUNT_NSSUSP :: nat where "JGRP_COUNT_NSSUSP = 4"
definition JGRP_COUNT_NUSUSP :: nat where "JGRP_COUNT_NUSUSP = 5"
definition JGRP_COUNT_NEXIT :: nat where "JGRP_COUNT_NEXIT = 6"
definition JGRP_COUNT_NDONE :: nat where "JGRP_COUNT_NDONE = 7"
definition NUM_JGRP_COUNTERS :: nat where "NUM_JGRP_COUNTERS = 8"

lemmas jgrp_consts = JGRP_COUNT_NJOBS_def JGRP_COUNT_PEND_def JGRP_COUNT_NPSUSP_def JGRP_COUNT_NRUN_def
  JGRP_COUNT_NSSUSP_def JGRP_COUNT_NUSUSP_def JGRP_COUNT_NEXIT_def JGRP_COUNT_NDONE_def NUM_JGRP_COUNTERS_def

text \<open>
  \<open>g_job\<close> is \<open>JOB_DATA\<close> of a job node, \<open>g_counts\<close> the counters of \<open>JGRP_DATA\<close> or
  \<open>ARRAY_DATA\<close> (both start with the same fields), \<open>g_jobArray\<close> and \<open>g_maxJLimit\<close>
  belong to \<open>ARRAY_DATA\<close>.
\<close>

record jgTreeNode =
  g_parent :: addr
  g_child :: addr
  g_left :: addr
  g_right :: addr
  g_nodeType :: int
  g_name :: string
  g_job :: addr
  g_counts :: "nat \<Rightarrow> int"
  g_userId :: int
  g_userName :: string
  g_fromPlatform :: uint32
  g_jobArray :: addr
  g_maxJLimit :: int

type_synonym jgstore = "addr \<Rightarrow> jgTreeNode"

text \<open>\<open>depEntry\<close> is \<open>treeObserverDep->entry\<close>.\<close>

record jgrp =
  jgD :: jgstore
  groupRoot :: addr
  depEntry :: addr

datatype treeEventType = TREE_EVENT_ADD | TREE_EVENT_CLIP | TREE_EVENT_CTRL | TREE_EVENT_NULL

definition upd_g :: "addr \<Rightarrow> (jgTreeNode \<Rightarrow> jgTreeNode) \<Rightarrow> jgstore \<Rightarrow> jgstore" where
  "upd_g a f t = t(a := f (t a))"

section \<open>Walking\<close>

partial_function (option) treeLexUp :: "jgstore \<Rightarrow> addr \<Rightarrow> addr option" where
  [code]: "treeLexUp t parent =
     (if parent = NULL then Some NULL
      else if g_right (t parent) \<noteq> NULL then Some (g_right (t parent))
      else treeLexUp t (g_parent (t parent)))"

definition treeLexNext :: "jgstore \<Rightarrow> addr \<Rightarrow> addr option" where
  "treeLexNext t node =
     (if node = NULL then Some NULL
      else if g_child (t node) \<noteq> NULL then Some (g_child (t node))
      else if g_right (t node) \<noteq> NULL then Some (g_right (t node))
      else treeLexUp t (g_parent (t node)))"

definition treeNextSib :: "jgstore \<Rightarrow> addr \<Rightarrow> addr option" where
  "treeNextSib t node =
     (if node = NULL then Some NULL
      else if g_right (t node) \<noteq> NULL then Some (g_right (t node))
      else treeLexUp t (g_parent (t node)))"

text \<open>The nodes that a loop \<open>for (n = root; n; n = treeLexNext (n))\<close> visits.\<close>

partial_function (option) treeWalk :: "jgstore \<Rightarrow> addr \<Rightarrow> addr list option" where
  [code]: "treeWalk t n =
     (if n = NULL then Some []
      else do { m \<leftarrow> treeLexNext t n; ns \<leftarrow> treeWalk t m; Some (n # ns) })"

partial_function (option) ancestorLoop :: "jgstore \<Rightarrow> addr \<Rightarrow> addr \<Rightarrow> bool option" where
  [code]: "ancestorLoop t x ndPtr =
     (if ndPtr = NULL then Some False
      else if ndPtr = x then Some True
      else ancestorLoop t x (g_parent (t ndPtr)))"

definition isAncestor :: "jgstore \<Rightarrow> addr \<Rightarrow> addr \<Rightarrow> bool option" where
  "isAncestor t x y = (if x = NULL \<or> y = NULL then Some False else ancestorLoop t x (g_parent (t y)))"

partial_function (option) childLoop :: "jgstore \<Rightarrow> addr \<Rightarrow> addr \<Rightarrow> bool option" where
  [code]: "childLoop t y ndPtr =
     (if ndPtr = NULL then Some False
      else if ndPtr = y then Some True
      else childLoop t y (g_right (t ndPtr)))"

definition isChild :: "jgstore \<Rightarrow> addr \<Rightarrow> addr \<Rightarrow> bool option" where
  "isChild t x y = (if x = NULL \<or> y = NULL then Some False else childLoop t y (g_child (t x)))"

partial_function (option) findTreeNode :: "jgstore \<Rightarrow> addr \<Rightarrow> string \<Rightarrow> addr option" where
  [code]: "findTreeNode t nPtr name =
     (if nPtr = NULL then Some NULL
      else if g_name (t nPtr) = name then Some nPtr
      else findTreeNode t (g_right (t nPtr)) name)"

section \<open>Counters\<close>

definition getIndexOfJStatus :: "uint32 \<Rightarrow> nat" where
  "getIndexOfJStatus st =
     (let m = MASK_STATUS (st AND NOT JOB_STAT_UNKWN AND NOT JOB_STAT_PDONE AND NOT JOB_STAT_PERR)
      in if m = JOB_STAT_PEND \<or> m = JOB_STAT_RUN OR JOB_STAT_WAIT then JGRP_COUNT_PEND
         else if m = JOB_STAT_PSUSP then JGRP_COUNT_NPSUSP
         else if m = JOB_STAT_RUN then JGRP_COUNT_NRUN
         else if m = JOB_STAT_SSUSP then JGRP_COUNT_NSSUSP
         else if m = JOB_STAT_USUSP then JGRP_COUNT_NUSUSP
         else if m = JOB_STAT_EXIT \<or> m = JOB_STAT_EXIT OR JOB_STAT_WAIT then JGRP_COUNT_NEXIT
         else if m = JOB_STAT_DONE \<or> m = JOB_STAT_DONE OR JOB_STAT_WAIT then JGRP_COUNT_NDONE
         else 8)"

definition addCount :: "int \<Rightarrow> nat \<Rightarrow> (nat \<Rightarrow> int) \<Rightarrow> nat \<Rightarrow> int" where
  "addCount d i c = c(i := c i + d)"

text \<open>The body of the loop for one node with counters.\<close>

definition moveCount :: "uint32 \<Rightarrow> uint32 \<Rightarrow> (nat \<Rightarrow> int) \<Rightarrow> nat \<Rightarrow> int" where
  "moveCount oldStatus newStatus c =
     (let c = (if oldStatus \<noteq> JOB_STAT_NULL
               then addCount (-1) JGRP_COUNT_NJOBS (addCount (-1) (getIndexOfJStatus oldStatus) c) else c)
      in if newStatus \<noteq> JOB_STAT_NULL
         then addCount 1 JGRP_COUNT_NJOBS (addCount 1 (getIndexOfJStatus newStatus) c) else c)"

partial_function (option) updJgrpCountByJStatus :: "addr \<Rightarrow> uint32 \<Rightarrow> uint32 \<Rightarrow> jgstore \<Rightarrow> jgstore option" where
  [code]: "updJgrpCountByJStatus gPtr oldStatus newStatus t =
     (if gPtr = NULL then Some t
      else updJgrpCountByJStatus (g_parent (t gPtr)) oldStatus newStatus
        (if g_nodeType (t gPtr) = JGRP_NODE_GROUP \<or> g_nodeType (t gPtr) = JGRP_NODE_ARRAY
         then upd_g gPtr (\<lambda>n. n\<lparr>g_counts := moveCount oldStatus newStatus (g_counts n)\<rparr>) t else t))"

partial_function (option) countByOpLoop :: "addr \<Rightarrow> int \<Rightarrow> addr \<Rightarrow> jgstore \<Rightarrow> jgstore option" where
  [code]: "countByOpLoop jg factor parent t =
     (if parent = NULL then Some t
      else countByOpLoop jg factor (g_parent (t parent))
        (if g_nodeType (t jg) = JGRP_NODE_GROUP \<or> g_nodeType (t jg) = JGRP_NODE_ARRAY
         then upd_g parent (\<lambda>n. n\<lparr>g_counts := (\<lambda>i. if i < NUM_JGRP_COUNTERS
                then g_counts n i + factor * g_counts (t jg) i else g_counts n i)\<rparr>) t
         else t))"

definition updJgrpCountByOp :: "addr \<Rightarrow> int \<Rightarrow> jgstore \<Rightarrow> jgstore option" where
  "updJgrpCountByOp jg factor t = countByOpLoop jg factor (g_parent (t jg)) t"

section \<open>Linking\<close>

definition treeObserverEvalDep :: "addr \<Rightarrow> treeEventType \<Rightarrow> jgrp \<Rightarrow> jgrp option" where
  "treeObserverEvalDep operand ev g =
     (case ev of
        TREE_EVENT_CLIP \<Rightarrow> do {
          b \<leftarrow> (if depEntry g = operand then Some True else isAncestor (jgD g) operand (depEntry g));
          if b then do { e \<leftarrow> treeNextSib (jgD g) operand; Some (g\<lparr>depEntry := e\<rparr>) } else Some g }
      | TREE_EVENT_CTRL \<Rightarrow> do {
          b \<leftarrow> (if depEntry g = operand then Some True else isAncestor (jgD g) operand (depEntry g));
          Some (if b then g\<lparr>depEntry := operand\<rparr> else g) }
      | _ \<Rightarrow> Some g)"

partial_function (option) lastSibling :: "jgstore \<Rightarrow> addr \<Rightarrow> addr option" where
  [code]: "lastSibling t nPtr = (if g_right (t nPtr) = NULL then Some nPtr else lastSibling t (g_right (t nPtr)))"

text \<open>Returns the first sibling and the store.\<close>

definition treeLinkSibling :: "addr \<Rightarrow> addr \<Rightarrow> jgstore \<Rightarrow> (addr \<times> jgstore) option" where
  "treeLinkSibling sib1 sib2 t =
     (if sib1 = NULL then Some (sib2, t)
      else if sib2 = NULL then Some (sib1, t)
      else do { n \<leftarrow> lastSibling t sib1;
                Some (sib1, upd_g sib2 (\<lambda>x. x\<lparr>g_left := n\<rparr>) (upd_g n (\<lambda>x. x\<lparr>g_right := sib2\<rparr>) t)) })"

partial_function (option) setParents :: "addr \<Rightarrow> addr \<Rightarrow> jgstore \<Rightarrow> jgstore option" where
  [code]: "setParents parent nPtr t =
     (let t = upd_g nPtr (\<lambda>x. x\<lparr>g_parent := parent\<rparr>) t
      in if g_right (t nPtr) = NULL then Some t else setParents parent (g_right (t nPtr)) t)"

text \<open>
  The counting at the end of an insertion; \<open>node\<close> and \<open>stat\<close> give \<open>jgrpNode\<close> and
  \<open>jStatus\<close> of a job.
\<close>

definition countNew :: "(addr \<Rightarrow> addr) \<Rightarrow> (addr \<Rightarrow> uint32) \<Rightarrow> addr \<Rightarrow> jgstore \<Rightarrow> jgstore option" where
  "countNew node stat c t =
     (if g_nodeType (t c) = JGRP_NODE_JOB
      then updJgrpCountByJStatus (node (g_job (t c))) JOB_STAT_NULL (stat (g_job (t c))) t
      else updJgrpCountByOp c 1 t)"

definition treeInsertChild ::
    "(addr \<Rightarrow> addr) \<Rightarrow> (addr \<Rightarrow> uint32) \<Rightarrow> addr \<Rightarrow> addr \<Rightarrow> jgrp \<Rightarrow> (addr \<times> jgrp) option" where
  "treeInsertChild node stat parent child g =
     (if parent = NULL then Some (child, g)
      else if child = NULL then Some (parent, g)
      else do {
        t \<leftarrow> (if g_child (jgD g parent) \<noteq> NULL
              then do { (c, t) \<leftarrow> treeLinkSibling (g_child (jgD g parent)) child (jgD g);
                        Some (upd_g parent (\<lambda>x. x\<lparr>g_child := c\<rparr>) t) }
              else Some (upd_g parent (\<lambda>x. x\<lparr>g_child := child\<rparr>) (jgD g)));
        t \<leftarrow> setParents parent child t;
        t \<leftarrow> countNew node stat child t;
        g \<leftarrow> treeObserverEvalDep child TREE_EVENT_ADD (g\<lparr>jgD := t\<rparr>);
        Some (parent, g) })"

definition treeInsertLeft ::
    "(addr \<Rightarrow> addr) \<Rightarrow> (addr \<Rightarrow> uint32) \<Rightarrow> addr \<Rightarrow> addr \<Rightarrow> jgrp \<Rightarrow> jgrp option" where
  "treeInsertLeft node stat nd sub g =
     (if nd = NULL \<or> sub = NULL then Some g
      else do {
        let t = upd_g sub (\<lambda>x. x\<lparr>g_right := nd\<rparr>) (jgD g);
        let t = upd_g sub (\<lambda>x. x\<lparr>g_left := g_left (t nd)\<rparr>) t;
        let t = upd_g sub (\<lambda>x. x\<lparr>g_parent := g_parent (t nd)\<rparr>) t;
        let t = (if g_left (t nd) \<noteq> NULL then upd_g (g_left (t nd)) (\<lambda>x. x\<lparr>g_right := sub\<rparr>) t else t);
        let t = upd_g nd (\<lambda>x. x\<lparr>g_left := sub\<rparr>) t;
        t \<leftarrow> countNew node stat sub t;
        treeObserverEvalDep sub TREE_EVENT_ADD (g\<lparr>jgD := t\<rparr>) })"

definition treeInsertRight ::
    "(addr \<Rightarrow> addr) \<Rightarrow> (addr \<Rightarrow> uint32) \<Rightarrow> addr \<Rightarrow> addr \<Rightarrow> jgrp \<Rightarrow> jgrp option" where
  "treeInsertRight node stat nd sub g =
     (if nd = NULL \<or> sub = NULL then Some g
      else do {
        let t = upd_g sub (\<lambda>x. x\<lparr>g_right := g_right (jgD g nd)\<rparr>) (jgD g);
        let t = upd_g sub (\<lambda>x. x\<lparr>g_left := nd\<rparr>) t;
        let t = upd_g sub (\<lambda>x. x\<lparr>g_parent := g_parent (t nd)\<rparr>) t;
        let t = (if g_right (t nd) \<noteq> NULL then upd_g (g_right (t nd)) (\<lambda>x. x\<lparr>g_left := sub\<rparr>) t else t);
        let t = upd_g nd (\<lambda>x. x\<lparr>g_right := sub\<rparr>) t;
        t \<leftarrow> countNew node stat sub t;
        treeObserverEvalDep sub TREE_EVENT_ADD (g\<lparr>jgD := t\<rparr>) })"

text \<open>The links around a node that \<open>treeClip\<close> closes.\<close>

definition clipLinks :: "addr \<Rightarrow> jgstore \<Rightarrow> jgstore" where
  "clipLinks nd t =
     (let t = (if g_left (t nd) \<noteq> NULL then upd_g (g_left (t nd)) (\<lambda>x. x\<lparr>g_right := g_right (t nd)\<rparr>) t
               else if g_parent (t nd) \<noteq> NULL then upd_g (g_parent (t nd)) (\<lambda>x. x\<lparr>g_child := g_right (t nd)\<rparr>) t
               else t)
      in if g_right (t nd) \<noteq> NULL then upd_g (g_right (t nd)) (\<lambda>x. x\<lparr>g_left := g_left (t nd)\<rparr>) t else t)"

definition treeClip :: "(addr \<Rightarrow> addr) \<Rightarrow> (addr \<Rightarrow> uint32) \<Rightarrow> addr \<Rightarrow> jgrp \<Rightarrow> jgrp option" where
  "treeClip node stat nd g =
     (if nd = NULL then Some g
      else do {
        let t = clipLinks nd (jgD g);
        t \<leftarrow> (if g_nodeType (t nd) = JGRP_NODE_JOB
              then updJgrpCountByJStatus (node (g_job (t nd))) (stat (g_job (t nd))) JOB_STAT_NULL t
              else updJgrpCountByOp nd (-1) t);
        g \<leftarrow> treeObserverEvalDep nd TREE_EVENT_CLIP (g\<lparr>jgD := t\<rparr>);
        Some (g\<lparr>jgD := upd_g nd (\<lambda>x. x\<lparr>g_parent := NULL, g_left := NULL, g_right := NULL\<rparr>) (jgD g)\<rparr>) })"

end
