(* ===== verification/Mbd_State.thy ===== *)
theory Mbd_State
  imports Complex_Main Job_Status Hash_Table Bit_Set Mbd_Groups Jgrp_Tree
begin

unbundle bit_operations_syntax

text \<open>
  The part of mbatchd's memory that the job handling code works on
  (\<open>lsbatch/daemons/mbd.h\<close>): queues, users, hosts, jobs and the submission data
  shared by the elements of a job array, each as a store from addresses to
  records, and the global variables.

  Conventions.  The null pointer is address 0.  A \<open>float\<close> is an exact rational;
  the counters are unbounded integers (the C code adds and subtracts slot
  counts, which stay far from the range of \<open>int\<close>).  \<open>reasonTb\<close> of the records is
  the row \<open>reasonTb[1]\<close>, the only one these routines touch.  Calls of routines
  that are not modelled are recorded in \<open>calls\<close>, in order; they write log
  files, mail, messages to other daemons, or fields that are not part of this
  state.  \<open>died\<close> is set where the C code would dereference a null pointer, call
  \<open>mbdDie\<close> or loop forever.
\<close>

section \<open>Slot counters\<close>

text \<open>
  The six counters that queues, users and hosts keep.  A host has no \<open>numPEND\<close>;
  it stays 0 there.
\<close>

datatype cnts = Cnts (numJobs: int) (numPEND: int) (numRUN: int)
  (numSSUSP: int) (numUSUSP: int) (numRESERVE: int)

instantiation cnts :: ordered_ab_group_add
begin

definition zero_cnts :: cnts where
  "0 = Cnts 0 0 0 0 0 0"

definition plus_cnts :: "cnts \<Rightarrow> cnts \<Rightarrow> cnts" where
  "c + d = Cnts (numJobs c + numJobs d) (numPEND c + numPEND d) (numRUN c + numRUN d)
     (numSSUSP c + numSSUSP d) (numUSUSP c + numUSUSP d) (numRESERVE c + numRESERVE d)"

definition minus_cnts :: "cnts \<Rightarrow> cnts \<Rightarrow> cnts" where
  "c - d = Cnts (numJobs c - numJobs d) (numPEND c - numPEND d) (numRUN c - numRUN d)
     (numSSUSP c - numSSUSP d) (numUSUSP c - numUSUSP d) (numRESERVE c - numRESERVE d)"

definition uminus_cnts :: "cnts \<Rightarrow> cnts" where
  "- c = Cnts (- numJobs c) (- numPEND c) (- numRUN c) (- numSSUSP c) (- numUSUSP c) (- numRESERVE c)"

definition less_eq_cnts :: "cnts \<Rightarrow> cnts \<Rightarrow> bool" where
  "c \<le> d \<longleftrightarrow> numJobs c \<le> numJobs d \<and> numPEND c \<le> numPEND d \<and> numRUN c \<le> numRUN d \<and>
     numSSUSP c \<le> numSSUSP d \<and> numUSUSP c \<le> numUSUSP d \<and> numRESERVE c \<le> numRESERVE d"

definition less_cnts :: "cnts \<Rightarrow> cnts \<Rightarrow> bool" where
  "c < d \<longleftrightarrow> c \<le> d \<and> \<not> d \<le> (c :: cnts)"

instance
  by standard
    (auto simp: zero_cnts_def plus_cnts_def minus_cnts_def uminus_cnts_def less_eq_cnts_def
      less_cnts_def intro: cnts.expand)

end

lemmas cnts_defs = zero_cnts_def plus_cnts_def minus_cnts_def uminus_cnts_def less_eq_cnts_def

section \<open>Records\<close>

type_synonym reason_tb = "nat \<Rightarrow> int"

record userAcct =
  ua_uData :: addr
  ua_userId :: int
  ua_numPEND :: int
  ua_numRUN :: int
  ua_numSSUSP :: int
  ua_numUSUSP :: int
  ua_numRESERVE :: int
  ua_numNonPrmptRsv :: int
  ua_numAvailSUSP :: int
  ua_reason :: int

record hostAcct =
  ha_hPtr :: addr
  ha_numRUN :: int
  ha_numSSUSP :: int
  ha_numUSUSP :: int
  ha_numRESERVE :: int
  ha_numNonPrmptRsv :: int
  ha_numAvailSUSP :: int

record qData =
  queue :: string
  priority :: int
  posId :: int
  qAttrib :: uint32
  q_maxJobs :: int
  q_uJobLimit :: int
  q_hJobLimit :: int
  q_pJobLimit :: rat
  q_cnts :: cnts
  q_uAcct :: "userAcct hTab option"
  q_hAcct :: "hostAcct hTab option"
  q_reasonTb :: reason_tb
  q_flags :: uint32
  q_numUsable :: int
  q_slotHoldTime :: int
  suspendActCmd :: string
  resumeActCmd :: string
  sigMap :: "nat \<Rightarrow> int"

text \<open>\<open>u_numSlots\<close> is \<open>None\<close> where the code stores a variable it has not initialised.\<close>

record uData =
  user :: string
  u_uDataIndex :: int
  u_flags :: uint32
  u_gPtr :: "addr list"
  u_gData :: "gData option"
  u_maxJobs :: int
  u_pJobLimit :: rat
  u_maxPendJobs :: int
  u_maxPendSlots :: int
  u_hAcct :: "hostAcct hTab option"
  u_cnts :: cnts
  u_numPENDJobs :: int
  u_reasonTb :: reason_tb
  u_numSlots :: "int option"
  u_parents :: "addr bitset option"
  u_ancestors :: "addr bitset option"

text \<open>\<open>h_limUnavail\<close> is the test \<open>LS_ISUNAVAIL (hp->limStatus)\<close>.\<close>

record hData =
  host :: string
  hostId :: nat
  h_numCPUs :: int
  h_hStatus :: uint32
  h_limUnavail :: bool
  h_uJobLimit :: int
  h_uAcct :: "userAcct hTab option"
  h_maxJobs :: int
  h_cnts :: cnts
  h_numDispJobs :: int
  h_acceptTime :: int
  h_chkSig :: int

record pendEvent =
  notSwitched :: bool
  pe_sig :: int
  pe_sig1 :: int
  pe_sig1Flags :: uint32
  pe_sigDel :: uint32
  notModified :: bool

text \<open>
  The submission request of a job, \<open>struct submitReq\<close>, and what the elements of
  a job array share, \<open>struct jShared\<close>.
\<close>

record submitReq =
  jb_options :: uint32
  jb_options2 :: uint32
  jb_queue :: string
  jb_numProcessors :: int
  jb_maxNumProcessors :: int
  jb_submitTime :: int
  jb_userPriority :: int
  jb_dependCond :: string
  jb_jobName :: string
  jb_command :: string
  jb_restartPid :: int

record jShared =
  jobBill :: submitReq
  dptRoot :: addr

record jData =
  userId :: int
  userName :: string
  uPtr :: addr
  jobId :: int
  jStatus :: uint32
  updStateTime :: int
  jFlags :: uint32
  newReason :: uint32
  j_oldReason :: uint32
  subreasons :: int
  qPtr :: addr
  hPtr :: "addr list option"
  numHostPtr :: int
  reserveTime :: int
  startTime :: int
  resumeTime :: int
  runCount :: int
  runTime :: int
  endTime :: int
  requeueTime :: int
  pendEvent :: pendEvent
  ssuspTime :: int
  newSub :: "submitReq option"
  exitStatus :: int
  shared :: addr
  chkpntPeriod :: int
  jobPriority :: int
  cpuTime :: rat
  jobPid :: int
  jobPGid :: int
  actPid :: int
  sigValue :: int
  dispCount :: int
  restartPid :: int
  sa :: addr
  jgrpNode :: addr
  nodeType :: int
  nextJob :: addr
  slotHoldTime :: int
  processed :: uint32
  numEligProc :: int
  execCandPtr :: "(addr \<times> int) list"

section \<open>Global state\<close>

datatype jlistno = SJL | MJL | PJL | FJL | ZJL

datatype mbd_call =
    Call_getQUsable addr
  | Call_accumHistCpuTime addr
  | Call_detachedJobFromFSTree addr
  | Call_proxyHRsvJLAddEntry addr
  | Call_proxyHRsvJLRemoveEntry addr
  | Call_proxyRsvJLAddEntry addr
  | Call_proxyRsvJLRemoveEntry addr
  | Call_observer string
  | Call_log_newstatus addr
  | Call_log_startjob addr bool
  | Call_log_jobsigact addr
  | Call_breakCallback addr bool
  | Call_freeReservePreemptResources addr
  | Call_updateStopJobPreemptResources addr
  | Call_detachJobEffeResReqEntry addr
  | Call_resetDepCond addr
  | Call_closeSbdConnect4ZombieJob addr
  | Call_log_jobrequeue addr
  | Call_log_jobclean addr
  | Call_log_newjob addr
  | Call_updAliveUserInFSTree addr string
  | Call_rmLogJobInfo addr
  | Call_treeFree addr
  | Call_freeJData addr
  | Call_sacctRuntime addr int
  | Call_mkJobMergedResReqEntry addr
  | Call_mail addr

text \<open>
  \<open>jDataList\<close> has the entries of each job list in the order of the \<open>forw\<close> links;
  \<open>sbdJobs\<close> are the jobs of the open connections in \<open>sbdNodeList\<close>; \<open>nowTime\<close> is
  the variable \<open>now\<close> and \<open>wallClock\<close> what \<open>time\<close> returns during the handler;
  \<open>askedHostsOk\<close> tells whether \<open>chkAskedHosts\<close> accepts the hosts of a request, and
  \<open>parsedDep\<close> is the tree \<open>parseDepCond\<close> builds for its dependency condition;
  \<open>jg\<close> is the job group tree.
\<close>

record mbd =
  qD :: "addr \<Rightarrow> qData"
  uD :: "addr \<Rightarrow> uData"
  hD :: "addr \<Rightarrow> hData"
  jD :: "addr \<Rightarrow> jData"
  shD :: "addr \<Rightarrow> jShared"
  hReasonTb :: reason_tb
  qDataList :: "addr list"
  uDataList :: "addr hTab"
  usergroups :: "gData list"
  uDataPtrTb :: "addr list"
  allUsersSet :: "addr bitset"
  uGrpAllSet :: "addr bitset"
  defaultLimitIgnoreUserGroup :: bool
  nextAddr :: addr
  mSchedStage :: uint32
  jDataList :: "jlistno \<Rightarrow> addr list"
  pendJobSlots :: int
  jobIdHT :: "int \<rightharpoonup> addr"
  sbdJobs :: "addr list"
  nSbdConnections :: int
  jg :: jgrp
  qAttributes :: uint32
  msleeptime :: int
  freedSomeReserveSlot :: bool
  eventPending :: bool
  glMigToPendFlag :: bool
  requeueToBottom :: bool
  arraySchedOrder :: bool
  statusChanged :: bool
  maxUserPriority :: int
  jobPriorityValue :: int
  jobPriorityTime :: int
  nextJobId :: int
  maxJobId :: int
  clean_period :: int
  numRemoveJobs :: int
  nowTime :: int
  wallClock :: int
  askedHostsOk :: "submitReq \<Rightarrow> bool"
  parsedDep :: "submitReq \<Rightarrow> addr"
  calls :: "mbd_call list"
  died :: bool

text \<open>Assignments through a pointer.\<close>

definition upd_q :: "addr \<Rightarrow> (qData \<Rightarrow> qData) \<Rightarrow> mbd \<Rightarrow> mbd" where
  "upd_q q f s = s\<lparr>qD := (qD s)(q := f (qD s q))\<rparr>"

definition upd_u :: "addr \<Rightarrow> (uData \<Rightarrow> uData) \<Rightarrow> mbd \<Rightarrow> mbd" where
  "upd_u u f s = s\<lparr>uD := (uD s)(u := f (uD s u))\<rparr>"

definition upd_h :: "addr \<Rightarrow> (hData \<Rightarrow> hData) \<Rightarrow> mbd \<Rightarrow> mbd" where
  "upd_h h f s = s\<lparr>hD := (hD s)(h := f (hD s h))\<rparr>"

definition upd_j :: "addr \<Rightarrow> (jData \<Rightarrow> jData) \<Rightarrow> mbd \<Rightarrow> mbd" where
  "upd_j j f s = s\<lparr>jD := (jD s)(j := f (jD s j))\<rparr>"

definition upd_sh :: "addr \<Rightarrow> (jShared \<Rightarrow> jShared) \<Rightarrow> mbd \<Rightarrow> mbd" where
  "upd_sh a f s = s\<lparr>shD := (shD s)(a := f (shD s a))\<rparr>"

definition call :: "mbd_call \<Rightarrow> mbd \<Rightarrow> mbd" where
  "call c s = s\<lparr>calls := calls s @ [c]\<rparr>"

text \<open>\<open>updJgrpCountByJStatus\<close> on the tree of this state, starting at the job's node.\<close>

definition countJgrp :: "addr \<Rightarrow> uint32 \<Rightarrow> uint32 \<Rightarrow> mbd \<Rightarrow> mbd" where
  "countJgrp j oldStatus newStatus s =
     (case updJgrpCountByJStatus (jgrpNode (jD s j)) oldStatus newStatus (jgD (jg s)) of
        None \<Rightarrow> s\<lparr>died := True\<rparr>
      | Some t \<Rightarrow> s\<lparr>jg := (jg s)\<lparr>jgD := t\<rparr>\<rparr>)"

section \<open>Constants and macros\<close>

definition INFINIT_INT :: int where "INFINIT_INT = 0x7fffffff"
definition INFINIT_FLOAT :: rat where "INFINIT_FLOAT = 2147483648"

definition QUEUE_UPDATE_USABLE :: uint32 where "QUEUE_UPDATE_USABLE = 0x08"
definition USER_GROUP :: uint32 where "USER_GROUP = 0x001"
definition USER_UPDATE :: uint32 where "USER_UPDATE = 0x002"
definition USER_INIT :: uint32 where "USER_INIT = 0x004"
definition HOST_STAT_FULL :: uint32 where "HOST_STAT_FULL = 0x10"
definition HOST_STAT_UNREACH :: uint32 where "HOST_STAT_UNREACH = 0x20"
definition HOST_STAT_UNAVAIL :: uint32 where "HOST_STAT_UNAVAIL = 0x40"
definition HOST_STAT_EXCLUSIVE :: uint32 where "HOST_STAT_EXCLUSIVE = 0x100"
definition HOST_STAT_REMOTE :: uint32 where "HOST_STAT_REMOTE = 0x80000000"
definition M_STAGE_QUE_CAND :: uint32 where "M_STAGE_QUE_CAND = 0x0004"
definition M_STAGE_REPLAY :: uint32 where "M_STAGE_REPLAY = 0x0008"
definition LOG_IT :: int where "LOG_IT = 0"
definition MAX_GROUPS :: int where "MAX_GROUPS = 150"

definition PEND_QUE_JOB_LIMIT :: int where "PEND_QUE_JOB_LIMIT = 303"
definition PEND_QUE_USR_JLIMIT :: int where "PEND_QUE_USR_JLIMIT = 304"
definition PEND_USER_JOB_LIMIT :: int where "PEND_USER_JOB_LIMIT = 601"
definition PEND_UGRP_JOB_LIMIT :: int where "PEND_UGRP_JOB_LIMIT = 602"
definition PEND_HOST_JOB_LIMIT :: int where "PEND_HOST_JOB_LIMIT = 1305"
definition PEND_QUE_PROC_JLIMIT :: int where "PEND_QUE_PROC_JLIMIT = 1306"
definition PEND_QUE_HOST_JLIMIT :: int where "PEND_QUE_HOST_JLIMIT = 1307"
definition PEND_USER_PROC_JLIMIT :: int where "PEND_USER_PROC_JLIMIT = 1308"
definition PEND_HOST_USR_JLIMIT :: int where "PEND_HOST_USR_JLIMIT = 1309"
definition PEND_UGRP_PROC_JLIMIT :: int where "PEND_UGRP_PROC_JLIMIT = 1324"

definition CLEAR_REASON :: "int \<Rightarrow> int \<Rightarrow> int" where
  "CLEAR_REASON v reason = (if v = reason then 0 else v)"

definition SET_REASON :: "bool \<Rightarrow> int \<Rightarrow> int \<Rightarrow> int" where
  "SET_REASON cond v reason = (if cond then reason else CLEAR_REASON v reason)"

section \<open>Fields that an assignment leaves alone\<close>

lemma upd_q_fields [simp]:
  "uD (upd_q q f s) = uD s" "hD (upd_q q f s) = hD s" "jD (upd_q q f s) = jD s"
  "shD (upd_q q f s) = shD s" "hReasonTb (upd_q q f s) = hReasonTb s"
  "qDataList (upd_q q f s) = qDataList s" "uDataList (upd_q q f s) = uDataList s"
  "usergroups (upd_q q f s) = usergroups s" "mSchedStage (upd_q q f s) = mSchedStage s"
  "jDataList (upd_q q f s) = jDataList s" "pendJobSlots (upd_q q f s) = pendJobSlots s"
  "qD (upd_q q f s) = (qD s)(q := f (qD s q))" "uDataPtrTb (upd_q q f s) = uDataPtrTb s" "jg (upd_q q f s) = jg s"
  by (simp_all add: upd_q_def)

lemma upd_u_fields [simp]:
  "qD (upd_u u f s) = qD s" "hD (upd_u u f s) = hD s" "jD (upd_u u f s) = jD s"
  "shD (upd_u u f s) = shD s" "hReasonTb (upd_u u f s) = hReasonTb s"
  "qDataList (upd_u u f s) = qDataList s" "uDataList (upd_u u f s) = uDataList s"
  "usergroups (upd_u u f s) = usergroups s" "mSchedStage (upd_u u f s) = mSchedStage s"
  "jDataList (upd_u u f s) = jDataList s" "pendJobSlots (upd_u u f s) = pendJobSlots s"
  "uD (upd_u u f s) = (uD s)(u := f (uD s u))" "uDataPtrTb (upd_u u f s) = uDataPtrTb s" "jg (upd_u u f s) = jg s"
  by (simp_all add: upd_u_def)

lemma upd_h_fields [simp]:
  "qD (upd_h h f s) = qD s" "uD (upd_h h f s) = uD s" "jD (upd_h h f s) = jD s"
  "shD (upd_h h f s) = shD s" "hReasonTb (upd_h h f s) = hReasonTb s"
  "qDataList (upd_h h f s) = qDataList s" "uDataList (upd_h h f s) = uDataList s"
  "usergroups (upd_h h f s) = usergroups s" "mSchedStage (upd_h h f s) = mSchedStage s"
  "jDataList (upd_h h f s) = jDataList s" "pendJobSlots (upd_h h f s) = pendJobSlots s"
  "hD (upd_h h f s) = (hD s)(h := f (hD s h))" "uDataPtrTb (upd_h h f s) = uDataPtrTb s" "jg (upd_h h f s) = jg s"
  by (simp_all add: upd_h_def)

lemma upd_j_fields [simp]:
  "qD (upd_j j f s) = qD s" "uD (upd_j j f s) = uD s" "hD (upd_j j f s) = hD s"
  "shD (upd_j j f s) = shD s" "hReasonTb (upd_j j f s) = hReasonTb s"
  "qDataList (upd_j j f s) = qDataList s" "uDataList (upd_j j f s) = uDataList s"
  "usergroups (upd_j j f s) = usergroups s" "mSchedStage (upd_j j f s) = mSchedStage s"
  "jDataList (upd_j j f s) = jDataList s" "pendJobSlots (upd_j j f s) = pendJobSlots s"
  "jD (upd_j j f s) = (jD s)(j := f (jD s j))" "uDataPtrTb (upd_j j f s) = uDataPtrTb s" "jg (upd_j j f s) = jg s"
  by (simp_all add: upd_j_def)

lemma call_fields [simp]:
  "qD (call c s) = qD s" "uD (call c s) = uD s" "hD (call c s) = hD s" "jD (call c s) = jD s"
  "shD (call c s) = shD s" "hReasonTb (call c s) = hReasonTb s"
  "qDataList (call c s) = qDataList s" "uDataList (call c s) = uDataList s"
  "usergroups (call c s) = usergroups s" "mSchedStage (call c s) = mSchedStage s"
  "jDataList (call c s) = jDataList s" "pendJobSlots (call c s) = pendJobSlots s"
  "calls (call c s) = calls s @ [c]" "uDataPtrTb (call c s) = uDataPtrTb s" "jg (call c s) = jg s"
  by (simp_all add: call_def)

lemma countJgrp_fields [simp]:
  "qD (countJgrp j a b s) = qD s" "uD (countJgrp j a b s) = uD s" "hD (countJgrp j a b s) = hD s"
  "jD (countJgrp j a b s) = jD s" "shD (countJgrp j a b s) = shD s" "hReasonTb (countJgrp j a b s) = hReasonTb s"
  "qDataList (countJgrp j a b s) = qDataList s" "uDataList (countJgrp j a b s) = uDataList s"
  "usergroups (countJgrp j a b s) = usergroups s" "mSchedStage (countJgrp j a b s) = mSchedStage s"
  "jDataList (countJgrp j a b s) = jDataList s" "pendJobSlots (countJgrp j a b s) = pendJobSlots s"
  "uDataPtrTb (countJgrp j a b s) = uDataPtrTb s"
  by (simp_all add: countJgrp_def split: option.splits)

end
