(* ===== verification/Job_Counters.thy ===== *)
theory Job_Counters
  imports Mbd_State
begin

unbundle bit_operations_syntax

text \<open>
  The slot accounting of \<open>lsbatch/daemons/mbd.misc.c\<close>: how many slots of each
  queue, user, user group and host are taken by pending, running, suspended and
  reserving jobs, the per-user and per-host accounts of a queue, and the pending
  reasons that follow from the limits.  The limit tests \<open>pJobLimitOk\<close> and
  \<open>hJobLimitOk\<close> are those of \<open>lsbatch/daemons/mbd.policy.c\<close>.
\<close>

section \<open>Counters\<close>

definition addValue :: "int \<Rightarrow> int \<Rightarrow> int" where
  "addValue currentValue num = (let v = currentValue + num in if 0 \<le> v then v else 0)"

definition addCnts :: "cnts \<Rightarrow> cnts \<Rightarrow> cnts" where
  "addCnts c d =
     Cnts (addValue (numJobs c) (numJobs d)) (addValue (numPEND c) (numPEND d))
       (addValue (numRUN c) (numRUN d)) (addValue (numSSUSP c) (numSSUSP d))
       (addValue (numUSUSP c) (numUSUSP d)) (addValue (numRESERVE c) (numRESERVE d))"

definition addOneAbs :: "int \<Rightarrow> int \<Rightarrow> int" where
  "addOneAbs num addedNum = (if 0 < addedNum then num + 1 else if addedNum < 0 then num - 1 else num)"

text \<open>Integer division of C, which truncates towards zero.\<close>

definition c_div :: "int \<Rightarrow> int \<Rightarrow> int" where
  "c_div a b = sgn a * sgn b * (\<bar>a\<bar> div \<bar>b\<bar>)"

section \<open>Limits\<close>

definition ha_used :: "hostAcct option \<Rightarrow> int" where
  "ha_used ha = (case ha of None \<Rightarrow> 0
     | Some a \<Rightarrow> ha_numRUN a + ha_numSSUSP a + ha_numUSUSP a + ha_numRESERVE a)"

definition pJobLimitOk :: "hData \<Rightarrow> hostAcct option \<Rightarrow> rat \<Rightarrow> int" where
  "pJobLimitOk hp hAcct pJobLimit =
     (if pJobLimit \<le> 0 then 0
      else if INFINIT_FLOAT \<le> pJobLimit then INFINIT_INT
      else let numCPUs = (if h_numCPUs hp = 0 then 1 else h_numCPUs hp);
               numSlots = \<lceil>pJobLimit * of_int numCPUs\<rceil> - ha_used hAcct
           in if numSlots \<le> 0 then 0 else numSlots)"

definition hJobLimitOk :: "hostAcct option \<Rightarrow> int \<Rightarrow> int" where
  "hJobLimitOk hAcct hJobLimit =
     (if hJobLimit \<le> 0 then 0
      else if hJobLimit = INFINIT_INT then INFINIT_INT
      else let numSlots = hJobLimit - ha_used hAcct
           in if numSlots \<le> 0 then 0 else numSlots)"

section \<open>Accounts of a user\<close>

definition getUAcct :: "userAcct hTab option \<Rightarrow> string \<Rightarrow> userAcct option" where
  "getUAcct uAcct usr = (case uAcct of None \<Rightarrow> None | Some t \<Rightarrow> ht_get t usr)"

definition newUAcct :: "addr \<Rightarrow> int \<Rightarrow> int \<Rightarrow> int \<Rightarrow> int \<Rightarrow> int \<Rightarrow> int \<Rightarrow> userAcct" where
  "newUAcct up usrId nRUN nSSUSP nUSUSP nRESERVE nPEND =
     \<lparr>ua_uData = up, ua_userId = usrId, ua_numPEND = nPEND, ua_numRUN = nRUN, ua_numSSUSP = nSSUSP,
      ua_numUSUSP = nUSUSP, ua_numRESERVE = nRESERVE, ua_numNonPrmptRsv = 0, ua_numAvailSUSP = 0,
      ua_reason = 0\<rparr>"

definition addUAcct ::
    "userAcct hTab option \<Rightarrow> string \<Rightarrow> userAcct \<Rightarrow> userAcct hTab" where
  "addUAcct uAcct usr acct =
     (let t = (case uAcct of None \<Rightarrow> h_initTab 11 | Some t \<Rightarrow> t) in ht_put t usr acct)"

text \<open>
  The first half of \<open>updUAcct\<close>: the account of the user in the table, changed or
  new; \<open>None\<close> where there is none and nothing to put into a new one.
\<close>

definition updUAcctEnt ::
    "uint32 \<Rightarrow> addr \<Rightarrow> int \<Rightarrow> int \<Rightarrow> int \<Rightarrow> int \<Rightarrow> int \<Rightarrow> int \<Rightarrow> userAcct option \<Rightarrow> userAcct option" where
  "updUAcctEnt st up usrId nRUN nSSUSP nUSUSP nRESERVE nPEND found =
     (case found of
        Some a \<Rightarrow>
          Some (let a = a\<lparr>ua_numRUN := addValue (ua_numRUN a) nRUN,
                          ua_numSSUSP := addValue (ua_numSSUSP a) nSSUSP,
                          ua_numUSUSP := addValue (ua_numUSUSP a) nUSUSP,
                          ua_numRESERVE := addValue (ua_numRESERVE a) nRESERVE,
                          ua_numPEND := addValue (ua_numPEND a) nPEND\<rparr>
                in if nRESERVE \<noteq> 0 \<and> \<not> has st JOB_STAT_PEND
                   then a\<lparr>ua_numNonPrmptRsv := addValue (ua_numNonPrmptRsv a) nRESERVE\<rparr> else a)
      | None \<Rightarrow>
          if nRUN \<noteq> 0 \<or> nSSUSP \<noteq> 0 \<or> nUSUSP \<noteq> 0 \<or> nRESERVE \<noteq> 0 \<or> nPEND \<noteq> 0
          then Some (newUAcct up usrId nRUN nSSUSP nUSUSP nRESERVE nPEND)
          else None)"

definition ua_used :: "userAcct \<Rightarrow> int" where
  "ua_used a = ua_numRUN a + ua_numSSUSP a + ua_numUSUSP a + ua_numRESERVE a"

text \<open>
  \<open>updUAcct\<close> works on the table of the job's queue when \<open>hp\<close> is null and on the
  table of host \<open>hp\<close> otherwise.  The reason of a reached limit goes into the
  account for a queue and into the user's reason table for a host.
\<close>

definition updUAcct ::
    "addr \<Rightarrow> addr \<Rightarrow> int \<Rightarrow> int \<Rightarrow> int \<Rightarrow> int \<Rightarrow> int \<Rightarrow> addr option \<Rightarrow> mbd \<Rightarrow> mbd" where
  "updUAcct jp up nRUN nSSUSP nUSUSP nRESERVE nPEND hp s =
     (let j = jD s jp; usr = user (uD s up);
          tab = (case hp of None \<Rightarrow> q_uAcct (qD s (qPtr j)) | Some h \<Rightarrow> h_uAcct (hD s h));
          t = (case tab of None \<Rightarrow> h_initTab 4 | Some t \<Rightarrow> t);
          acct = updUAcctEnt (jStatus j) up (userId j) nRUN nSSUSP nUSUSP nRESERVE nPEND
                   (getUAcct (Some t) usr)
      in case hp of
           None \<Rightarrow>
             (case acct of
                None \<Rightarrow> upd_q (qPtr j) (\<lambda>qp. qp\<lparr>q_uAcct := Some t\<rparr>) s
              | Some a \<Rightarrow>
                  let numSlots = q_uJobLimit (qD s (qPtr j)) - ua_used a;
                      a = a\<lparr>ua_reason := SET_REASON (numSlots \<le> 0) (ua_reason a) PEND_QUE_USR_JLIMIT\<rparr>
                  in upd_q (qPtr j) (\<lambda>qp. qp\<lparr>q_uAcct := Some (addUAcct (Some t) usr a)\<rparr>) s)
         | Some h \<Rightarrow>
             (case acct of
                None \<Rightarrow> upd_h h (\<lambda>hd. hd\<lparr>h_uAcct := Some t\<rparr>) s
              | Some a \<Rightarrow>
                  let numSlots = h_uJobLimit (hD s h) - ua_used a;
                      i = hostId (hD s h)
                  in upd_u up (\<lambda>u. u\<lparr>u_reasonTb := (u_reasonTb u)(i :=
                         SET_REASON (numSlots \<le> 0) (u_reasonTb u i) PEND_HOST_USR_JLIMIT)\<rparr>)
                       (upd_h h (\<lambda>hd. hd\<lparr>h_uAcct := Some (addUAcct (Some t) usr a)\<rparr>) s)))"

section \<open>Accounts of a host\<close>

definition getHAcct :: "hostAcct hTab option \<Rightarrow> string \<Rightarrow> hostAcct option" where
  "getHAcct hAcct hst = (case hAcct of None \<Rightarrow> None | Some t \<Rightarrow> ht_get t hst)"

definition newHAcct :: "addr \<Rightarrow> int \<Rightarrow> int \<Rightarrow> int \<Rightarrow> int \<Rightarrow> hostAcct" where
  "newHAcct hp nRUN nSSUSP nUSUSP nRESERVE =
     \<lparr>ha_hPtr = hp, ha_numRUN = addOneAbs 0 nRUN, ha_numSSUSP = addOneAbs 0 nSSUSP,
      ha_numUSUSP = addOneAbs 0 nUSUSP, ha_numRESERVE = addOneAbs 0 nRESERVE,
      ha_numNonPrmptRsv = 0, ha_numAvailSUSP = 0\<rparr>"

definition addHAcct :: "hostAcct hTab option \<Rightarrow> string \<Rightarrow> hostAcct \<Rightarrow> hostAcct hTab" where
  "addHAcct hAcct hst acct =
     (let t = (case hAcct of None \<Rightarrow> h_initTab 11 | Some t \<Rightarrow> t) in ht_put t hst acct)"

definition updHAcctEnt ::
    "uint32 \<Rightarrow> addr \<Rightarrow> int \<Rightarrow> int \<Rightarrow> int \<Rightarrow> int \<Rightarrow> hostAcct option \<Rightarrow> hostAcct option" where
  "updHAcctEnt st hp nRUN nSSUSP nUSUSP nRESERVE found =
     (case found of
        Some a \<Rightarrow>
          Some (let a = a\<lparr>ha_numRUN := addOneAbs (ha_numRUN a) nRUN,
                          ha_numSSUSP := addOneAbs (ha_numSSUSP a) nSSUSP,
                          ha_numUSUSP := addOneAbs (ha_numUSUSP a) nUSUSP,
                          ha_numRESERVE := addOneAbs (ha_numRESERVE a) nRESERVE\<rparr>
                in if nRESERVE \<noteq> 0 \<and> \<not> has st JOB_STAT_PEND
                   then a\<lparr>ha_numNonPrmptRsv := addOneAbs (ha_numNonPrmptRsv a) nRESERVE\<rparr> else a)
      | None \<Rightarrow>
          if 0 < nRUN \<or> 0 < nSSUSP \<or> 0 < nUSUSP \<or> 0 < nRESERVE
          then Some (newHAcct hp nRUN nSSUSP nUSUSP nRESERVE) else None)"

definition host_reachable :: "hData \<Rightarrow> bool" where
  "host_reachable hp \<longleftrightarrow> \<not> has (h_hStatus hp) HOST_STAT_UNREACH \<and>
     \<not> has (h_hStatus hp) HOST_STAT_UNAVAIL \<and> \<not> h_limUnavail hp"

definition CHECKQUSABLE :: "uint32 \<Rightarrow> int \<Rightarrow> int \<Rightarrow> qData \<Rightarrow> qData" where
  "CHECKQUSABLE stage oldReason newReas qp =
     (if newReas = 0 \<and> oldReason \<noteq> 0 \<and> has stage M_STAGE_QUE_CAND
      then qp\<lparr>q_flags := q_flags qp OR QUEUE_UPDATE_USABLE\<rparr> else qp)"

text \<open>The body of the loop over the job's hosts for a queue: the reasons of its host limits.\<close>

definition updHAcctQReason :: "uint32 \<Rightarrow> hData \<Rightarrow> hostAcct option \<Rightarrow> qData \<Rightarrow> qData" where
  "updHAcctQReason stage hp foundH qp =
     (let i = hostId hp;
          svReason = q_reasonTb qp i;
          qp = qp\<lparr>q_flags := q_flags qp AND NOT QUEUE_UPDATE_USABLE\<rparr>;
          pSlots = pJobLimitOk hp foundH (q_pJobLimit qp);
          full = pSlots \<le> 0 \<and> host_reachable hp;
          numSlots = (if full then pSlots else hJobLimitOk foundH (q_hJobLimit qp));
          reas = (if full then SET_REASON (numSlots \<le> 0) (q_reasonTb qp i) PEND_QUE_PROC_JLIMIT
                  else SET_REASON (numSlots \<le> 0) (q_reasonTb qp i) PEND_QUE_HOST_JLIMIT);
          qp = CHECKQUSABLE stage svReason reas (qp\<lparr>q_reasonTb := (q_reasonTb qp)(i := reas)\<rparr>)
      in if 0 < numSlots \<and> (svReason = PEND_QUE_PROC_JLIMIT \<or> svReason = PEND_QUE_HOST_JLIMIT)
         then let reas = CLEAR_REASON (q_reasonTb qp i) svReason
              in CHECKQUSABLE stage svReason reas (qp\<lparr>q_reasonTb := (q_reasonTb qp)(i := reas)\<rparr>)
         else qp)"

definition updHAcctUReason :: "hData \<Rightarrow> hostAcct option \<Rightarrow> uData \<Rightarrow> uData" where
  "updHAcctUReason hp foundH u =
     (let i = hostId hp;
          numSlots = pJobLimitOk hp foundH (u_pJobLimit u);
          reas = (if has (u_flags u) USER_GROUP then PEND_UGRP_PROC_JLIMIT else PEND_USER_PROC_JLIMIT)
      in if numSlots \<le> 0 \<and> host_reachable hp
         then u\<lparr>u_reasonTb := (u_reasonTb u)(i := SET_REASON (numSlots \<le> 0) (u_reasonTb u i) reas)\<rparr>
         else if 0 < numSlots
         then u\<lparr>u_reasonTb := (u_reasonTb u)(i := CLEAR_REASON (u_reasonTb u i) reas)\<rparr>
         else u)"

fun updHAcctQLoop ::
    "addr \<Rightarrow> addr \<Rightarrow> int \<Rightarrow> int \<Rightarrow> int \<Rightarrow> int \<Rightarrow> addr list \<Rightarrow> mbd \<Rightarrow> mbd" where
  "updHAcctQLoop jp q nRUN nSSUSP nUSUSP nRESERVE [] s = s"
| "updHAcctQLoop jp q nRUN nSSUSP nUSUSP nRESERVE (h # hs) s =
     (if has (h_hStatus (hD s h)) HOST_STAT_REMOTE
      then updHAcctQLoop jp q nRUN nSSUSP nUSUSP nRESERVE hs s
      else let hp = hD s h; t = q_hAcct (qD s q);
               foundH = updHAcctEnt (jStatus (jD s jp)) h nRUN nSSUSP nUSUSP nRESERVE
                          (getHAcct t (host hp));
               s = (case foundH of None \<Rightarrow> s
                      | Some a \<Rightarrow> upd_q q (\<lambda>qp. qp\<lparr>q_hAcct := Some (addHAcct t (host hp) a)\<rparr>) s);
               s = upd_q q (updHAcctQReason (mSchedStage s) hp foundH) s
           in updHAcctQLoop jp q nRUN nSSUSP nUSUSP nRESERVE hs s)"

fun updHAcctULoop ::
    "addr \<Rightarrow> addr \<Rightarrow> int \<Rightarrow> int \<Rightarrow> int \<Rightarrow> int \<Rightarrow> addr list \<Rightarrow> mbd \<Rightarrow> mbd" where
  "updHAcctULoop jp up nRUN nSSUSP nUSUSP nRESERVE [] s = s"
| "updHAcctULoop jp up nRUN nSSUSP nUSUSP nRESERVE (h # hs) s =
     (if has (h_hStatus (hD s h)) HOST_STAT_REMOTE
      then updHAcctULoop jp up nRUN nSSUSP nUSUSP nRESERVE hs s
      else let hp = hD s h; t = u_hAcct (uD s up);
               foundH = updHAcctEnt (jStatus (jD s jp)) h nRUN nSSUSP nUSUSP nRESERVE
                          (getHAcct t (host hp));
               s = (case foundH of None \<Rightarrow> s
                      | Some a \<Rightarrow> upd_u up (\<lambda>u. u\<lparr>u_hAcct := Some (addHAcct t (host hp) a)\<rparr>) s);
               s = upd_u up (updHAcctUReason hp foundH) s
           in updHAcctULoop jp up nRUN nSSUSP nUSUSP nRESERVE hs s)"

definition job_hosts :: "jData \<Rightarrow> addr list" where
  "job_hosts j = (case hPtr j of None \<Rightarrow> [] | Some hs \<Rightarrow> take (nat (numHostPtr j)) hs)"

definition init_hAcct :: "hostAcct hTab option \<Rightarrow> hostAcct hTab option" where
  "init_hAcct t = (case t of None \<Rightarrow> Some (h_initTab 4) | Some t \<Rightarrow> Some t)"

definition updHAcctQ :: "addr \<Rightarrow> addr \<Rightarrow> int \<Rightarrow> int \<Rightarrow> int \<Rightarrow> int \<Rightarrow> mbd \<Rightarrow> mbd" where
  "updHAcctQ jp q nRUN nSSUSP nUSUSP nRESERVE s =
     (if hPtr (jD s jp) = None then s
      else let s = upd_q q (\<lambda>qp. qp\<lparr>q_hAcct := init_hAcct (q_hAcct qp),
                                  q_flags := q_flags qp AND NOT QUEUE_UPDATE_USABLE\<rparr>) s;
               s = updHAcctQLoop jp q nRUN nSSUSP nUSUSP nRESERVE (job_hosts (jD s jp)) s
           in if has (q_flags (qD s q)) QUEUE_UPDATE_USABLE
              then upd_q q (\<lambda>qp. qp\<lparr>q_flags := q_flags qp AND NOT QUEUE_UPDATE_USABLE\<rparr>)
                     (call (Call_getQUsable q) s)
              else s)"

definition updHAcctU :: "addr \<Rightarrow> addr \<Rightarrow> int \<Rightarrow> int \<Rightarrow> int \<Rightarrow> int \<Rightarrow> mbd \<Rightarrow> mbd" where
  "updHAcctU jp up nRUN nSSUSP nUSUSP nRESERVE s =
     (if hPtr (jD s jp) = None then s
      else let s = upd_u up (\<lambda>u. u\<lparr>u_hAcct := init_hAcct (u_hAcct u)\<rparr>) s
           in updHAcctULoop jp up nRUN nSSUSP nUSUSP nRESERVE (job_hosts (jD s jp)) s)"

section \<open>Users\<close>

text \<open>
  The sets of users are bit sets whose index functions read the user table of
  the current state.
\<close>

definition getuDataByIndex :: "mbd \<Rightarrow> nat \<Rightarrow> addr option" where
  "getuDataByIndex s i = (if i < length (uDataPtrTb s) then Some (uDataPtrTb s ! i) else None)"

definition uset :: "mbd \<Rightarrow> addr bitset \<Rightarrow> addr bitset" where
  "uset s b = b\<lparr>getIndexByObject := Some (\<lambda>u. u_uDataIndex (uD s u)),
                getObjectByIndex := Some (getuDataByIndex s)\<rparr>"

definition uset_new :: "addr bitset" where
  "uset_new = setCreate MAX_GROUPS None None"

definition uset_list :: "mbd \<Rightarrow> addr bitset option \<Rightarrow> addr list" where
  "uset_list s b = (case b of None \<Rightarrow> [] | Some b \<Rightarrow> bsForEach (\<lambda>_. None) (uset s b))"

definition uset_add :: "mbd \<Rightarrow> addr bitset \<Rightarrow> addr \<Rightarrow> (string list \<times> addr bitset) option" where
  "uset_add s b u =
     (case setAddElement True (\<lambda>_. 0) (Some (uset s b)) u of
        Some (_, _, obs, Some b') \<Rightarrow> Some (obs, b') | _ \<Rightarrow> None)"

definition uset_union :: "mbd \<Rightarrow> addr bitset \<Rightarrow> addr bitset \<Rightarrow> addr bitset option" where
  "uset_union s d b = map_option snd (setOperate True (uset s d) (uset s b) LS_SET_UNION)"

definition strstr :: "string \<Rightarrow> string \<Rightarrow> bool" where
  "strstr hay nd = list_ex (\<lambda>i. take (length nd) (drop i hay) = nd) [0..<Suc (length hay)]"

definition initUData :: uData where
  "initUData =
     \<lparr>user = [], u_uDataIndex = -1, u_flags = 0, u_gPtr = [], u_gData = None, u_maxJobs = INFINIT_INT,
      u_pJobLimit = INFINIT_FLOAT, u_maxPendJobs = 0, u_maxPendSlots = 0, u_hAcct = None, u_cnts = 0,
      u_numPENDJobs = 0, u_reasonTb = (\<lambda>_. 0), u_numSlots = Some INFINIT_INT,
      u_parents = None, u_ancestors = None\<rparr>"

text \<open>The body of the loop of \<open>addUserData\<close> over the groups of all users.\<close>

definition joinAllUserGrp :: "addr \<Rightarrow> addr \<Rightarrow> mbd \<Rightarrow> mbd" where
  "joinAllUserGrp u grp s =
     (let ps = (case u_parents (uD s u) of None \<Rightarrow> uset_new | Some b \<Rightarrow> b);
          as = (case u_ancestors (uD s u) of None \<Rightarrow> uset_new | Some b \<Rightarrow> b)
      in case (uset_add s ps grp, uset_add s as grp) of
           (Some (_, ps), Some (_, as)) \<Rightarrow>
             (case (case u_ancestors (uD s grp) of None \<Rightarrow> Some as | Some b \<Rightarrow> uset_union s as b) of
                Some as \<Rightarrow> upd_u u (\<lambda>x. x\<lparr>u_parents := Some ps, u_ancestors := Some as\<rparr>) s
              | None \<Rightarrow> s\<lparr>died := True\<rparr>)
         | _ \<Rightarrow> s\<lparr>died := True\<rparr>)"

definition addUserData ::
    "string \<Rightarrow> int \<Rightarrow> rat \<Rightarrow> int \<Rightarrow> int \<Rightarrow> bool \<Rightarrow> bool \<Rightarrow> mbd \<Rightarrow> addr \<times> mbd" where
  "addUserData username maxjobs pJobLimit maxPendJobs maxPendSlots override config s =
     (let (new, tab) = h_addEnt (uDataList s) username;
          old = ht_get (uDataList s) username
      in if \<not> new \<and> \<not> override then (case old of Some u \<Rightarrow> u | None \<Rightarrow> NULL, s)
         else
           let u = (if new then nextAddr s else case old of Some u \<Rightarrow> u | None \<Rightarrow> NULL);
               s = s\<lparr>uDataList := tab\<rparr>;
               s = (if new then upd_u u (\<lambda>_. initUData) (s\<lparr>nextAddr := nextAddr s + 1\<rparr>) else s);
               s = upd_u u (\<lambda>x. x\<lparr>u_flags := (if config then u_flags x OR USER_UPDATE else u_flags x),
                     user := username, u_pJobLimit := pJobLimit, u_maxJobs := maxjobs,
                     u_maxPendJobs := maxPendJobs, u_maxPendSlots := maxPendSlots,
                     u_uDataIndex := int (length (uDataPtrTb s))\<rparr>) s;
               s = s\<lparr>uDataPtrTb := uDataPtrTb s @ [u]\<rparr>;
               s = s\<lparr>uDataList := set_hData (uDataList s) username u\<rparr>
           in if \<not> has (u_flags (uD s u)) USER_GROUP \<and> \<not> strstr username ''others''
              then (case uset_add s (allUsersSet s) u of
                      None \<Rightarrow> (u, s\<lparr>died := True\<rparr>)
                    | Some (obs, b) \<Rightarrow>
                        let s = foldl (\<lambda>s ob. call (Call_observer ob) s) (s\<lparr>allUsersSet := b\<rparr>) obs
                        in (u, foldl (\<lambda>s grp. joinAllUserGrp u grp s) s
                                 (uset_list s (Some (uGrpAllSet s)))))
              else (u, s))"

definition getUserData :: "string \<Rightarrow> mbd \<Rightarrow> addr \<times> mbd" where
  "getUserData usr s =
     (case ht_get (uDataList s) usr of
        Some u \<Rightarrow> (u, s)
      | None \<Rightarrow>
          (case ht_get (uDataList s) ''default'' of
             Some d \<Rightarrow>
               if getGrpData (usergroups s) usr \<noteq> None \<and> defaultLimitIgnoreUserGroup s
               then addUserData usr INFINIT_INT INFINIT_FLOAT INFINIT_INT INFINIT_INT False False s
               else let defUser = uD s d
                    in addUserData usr (u_maxJobs defUser) (u_pJobLimit defUser)
                         (u_maxPendJobs defUser) (u_maxPendSlots defUser) False False s
           | None \<Rightarrow>
               addUserData usr INFINIT_INT INFINIT_FLOAT INFINIT_INT INFINIT_INT False False s))"

text \<open>The local \<open>newJob\<close> of the user routines: only pending slots change.\<close>

definition newJob :: "cnts \<Rightarrow> bool" where
  "newJob d \<longleftrightarrow> numRUN d = 0 \<and> numSSUSP d = 0 \<and> numUSUSP d = 0 \<and> numRESERVE d = 0"

definition updUserData1 :: "addr \<Rightarrow> addr \<Rightarrow> cnts \<Rightarrow> mbd \<Rightarrow> mbd" where
  "updUserData1 jp up d s =
     (let countPENDJobs = c_div (numPEND d) (jb_maxNumProcessors (jobBill (shD s (shared (jD s jp)))));
          s = upd_u up (\<lambda>u. u\<lparr>u_numPENDJobs := addValue (u_numPENDJobs u) countPENDJobs,
                             u_cnts := addCnts (u_cnts u) d\<rparr>) s
      in if \<not> newJob d \<and> u_pJobLimit (uD s up) < INFINIT_FLOAT
         then updHAcctU jp up (numRUN d) (numSSUSP d) (numUSUSP d) (numRESERVE d) s
         else s)"

text \<open>The slots left to a user, and the reason that follows.\<close>

definition userSlots :: "uData \<Rightarrow> int" where
  "userSlots u = (if u_maxJobs u = INFINIT_INT then INFINIT_INT
     else u_maxJobs u - numRUN (u_cnts u) - numSSUSP (u_cnts u) - numUSUSP (u_cnts u)
            - numRESERVE (u_cnts u))"

definition setUserReason :: "int \<Rightarrow> int \<Rightarrow> uData \<Rightarrow> uData" where
  "setUserReason numSlots reas u =
     (let r0 = (if u_reasonTb u 0 = INFINIT_INT then 0 else u_reasonTb u 0)
      in u\<lparr>u_reasonTb := (u_reasonTb u)(0 := SET_REASON (numSlots \<le> 0) r0 reas)\<rparr>)"

text \<open>
  Charging one user or group: \<open>updUserData1\<close>, then the reason of its job limit.
  The first result is the number of slots left, not computed for a new job.
\<close>

definition chargeUser :: "addr \<Rightarrow> addr \<Rightarrow> cnts \<Rightarrow> int \<Rightarrow> mbd \<Rightarrow> int option \<times> mbd" where
  "chargeUser jp up d reas s =
     (let s = updUserData1 jp up d s
      in if newJob d then (None, s)
         else let num = userSlots (uD s up) in (Some num, upd_u up (setUserReason num reas) s))"

text \<open>The groups a user belongs to, looked up once per user.\<close>

fun findUserGroups :: "string \<Rightarrow> gData list \<Rightarrow> mbd \<Rightarrow> addr list \<times> mbd" where
  "findUserGroups usr [] s = ([], s)"
| "findUserGroups usr (g # gs) s =
     (if \<not> gMember usr g then findUserGroups usr gs s
      else let (ugp, s) = getUserData (group g) s;
               s = upd_u ugp (\<lambda>u. u\<lparr>u_gData := Some g\<rparr>) s;
               (rest, s) = findUserGroups usr gs s
           in (ugp # rest, s))"

definition initUserGroups :: "addr \<Rightarrow> addr \<Rightarrow> mbd \<Rightarrow> mbd" where
  "initUserGroups jp up s =
     (if has (u_flags (uD s up)) USER_INIT then s
      else let (grps, s) = findUserGroups (userName (jD s jp)) (usergroups s) s
           in upd_u up (\<lambda>u. u\<lparr>u_gPtr := grps, u_flags := u_flags u OR USER_INIT\<rparr>) s)"

fun updUserGroups :: "addr \<Rightarrow> cnts \<Rightarrow> addr list \<Rightarrow> int option \<Rightarrow> mbd \<Rightarrow> int option \<times> mbd" where
  "updUserGroups jp d [] numSlots s = (numSlots, s)"
| "updUserGroups jp d (ugp # ugps) numSlots s =
     (let s = upd_u ugp (\<lambda>u. u\<lparr>u_flags := u_flags u OR USER_GROUP\<rparr>) s;
          (num, s) = chargeUser jp ugp d PEND_UGRP_JOB_LIMIT s
      in updUserGroups jp d ugps
           (case num of None \<Rightarrow> numSlots | Some n \<Rightarrow> map_option (min n) numSlots) s)"

definition resolveUser :: "addr \<Rightarrow> mbd \<Rightarrow> mbd" where
  "resolveUser jp s =
     (if uPtr (jD s jp) = NULL
      then let (u, s) = getUserData (userName (jD s jp)) s in upd_j jp (\<lambda>j. j\<lparr>uPtr := u\<rparr>) s
      else s)"

definition updUserData :: "addr \<Rightarrow> cnts \<Rightarrow> mbd \<Rightarrow> mbd" where
  "updUserData jp d s =
     (let s = resolveUser jp s;
          up = uPtr (jD s jp);
          s = upd_u up (\<lambda>u. u\<lparr>u_flags := u_flags u AND NOT USER_GROUP\<rparr>) s;
          (numSlots, s) = chargeUser jp up d PEND_USER_JOB_LIMIT s;
          (numSlots, s) =
            (if usergroups s = [] then (numSlots, s)
             else let s = initUserGroups jp up s
                  in updUserGroups jp d (u_gPtr (uD s up)) numSlots s)
      in upd_u up (\<lambda>u. u\<lparr>u_numSlots := numSlots\<rparr>) s)"

section \<open>Hosts\<close>

text \<open>The host is full, or it is not and the reasons that said so are cleared everywhere.\<close>

definition setHostFull :: "addr \<Rightarrow> mbd \<Rightarrow> mbd" where
  "setHostFull h s =
     (let hp = hD s h; i = hostId hp
      in if h_maxJobs hp \<le> numJobs (h_cnts hp)
         then upd_h h (\<lambda>hp. hp\<lparr>h_hStatus := h_hStatus hp OR HOST_STAT_FULL\<rparr>)
                (s\<lparr>hReasonTb := (hReasonTb s)(i := PEND_HOST_JOB_LIMIT)\<rparr>)
         else let s = upd_h h (\<lambda>hp. hp\<lparr>h_hStatus := h_hStatus hp AND NOT HOST_STAT_FULL\<rparr>) s;
                  s = s\<lparr>hReasonTb := (hReasonTb s)(i := CLEAR_REASON (hReasonTb s i) PEND_HOST_JOB_LIMIT)\<rparr>
              in foldl (\<lambda>s q. upd_q q (\<lambda>qp. qp\<lparr>q_reasonTb := (q_reasonTb qp)(i :=
                           CLEAR_REASON (q_reasonTb qp i) PEND_HOST_JOB_LIMIT)\<rparr>) s)
                   s (qDataList s))"

fun updHostDataLoop :: "addr \<Rightarrow> cnts \<Rightarrow> addr list \<Rightarrow> mbd \<Rightarrow> mbd" where
  "updHostDataLoop jp d [] s = s"
| "updHostDataLoop jp d (h # hs) s =
     (if h = NULL then s
      else if has (h_hStatus (hD s h)) HOST_STAT_REMOTE then updHostDataLoop jp d hs s
      else
        let s = (if h_uJobLimit (hD s h) < INFINIT_INT \<and>
                    (numRUN d \<noteq> 0 \<or> numSSUSP d \<noteq> 0 \<or> numUSUSP d \<noteq> 0 \<or> numRESERVE d \<noteq> 0)
                 then updUAcct jp (uPtr (jD s jp)) (numRUN d) (numSSUSP d) (numUSUSP d)
                        (numRESERVE d) 0 (Some h) s
                 else s);
            s = upd_h h (\<lambda>hp. hp\<lparr>h_cnts := addCnts (h_cnts hp) d\<rparr>) s;
            s = setHostFull h s;
            s = (if numJobs (h_cnts (hD s h)) \<le> 0
                 then upd_h h (\<lambda>hp. hp\<lparr>h_hStatus := h_hStatus hp AND NOT HOST_STAT_EXCLUSIVE\<rparr>) s
                 else s)
        in updHostDataLoop jp d hs s)"

text \<open>The first argument of the C function does not change what it does.\<close>

definition updHostData :: "bool \<Rightarrow> addr \<Rightarrow> int \<Rightarrow> int \<Rightarrow> int \<Rightarrow> int \<Rightarrow> int \<Rightarrow> mbd \<Rightarrow> mbd" where
  "updHostData updHPart jp nJobs nRUN nSSUSP nUSUSP nRESERVE s =
     updHostDataLoop jp (Cnts nJobs 0 nRUN nSSUSP nUSUSP nRESERVE) (job_hosts (jD s jp)) s"

section \<open>Queues\<close>

definition setQueueReason :: "qData \<Rightarrow> qData" where
  "setQueueReason qp =
     (let numSlots = (if q_maxJobs qp = INFINIT_INT then INFINIT_INT
                      else q_maxJobs qp - (numJobs (q_cnts qp) - numPEND (q_cnts qp)));
          r0 = (if q_reasonTb qp 0 = INFINIT_INT then 0 else q_reasonTb qp 0)
      in qp\<lparr>q_reasonTb := (q_reasonTb qp)(0 := SET_REASON (numSlots \<le> 0) r0 PEND_QUE_JOB_LIMIT)\<rparr>)"

definition updQaccount :: "addr \<Rightarrow> cnts \<Rightarrow> mbd \<Rightarrow> mbd" where
  "updQaccount jp d s =
     (let q = qPtr (jD s jp); up = uPtr (jD s jp);
          s = upd_q q (\<lambda>qp. qp\<lparr>q_cnts := addCnts (q_cnts qp) d\<rparr>) s;
          s = upd_q q setQueueReason s;
          newJob = (numRUN d = 0 \<and> numSSUSP d = 0 \<and> numUSUSP d = 0 \<and> numRESERVE d = 0 \<and> numPEND d = 0);
          upd = (\<lambda>s up. updUAcct jp up (numRUN d) (numSSUSP d) (numUSUSP d) (numRESERVE d) (numPEND d) None s);
          s = upd s up;
          s = foldl upd s (uset_list s (u_ancestors (uD s up)))
      in if newJob then s
         else updHAcctQ jp q (numRUN d) (numSSUSP d) (numUSUSP d) (numRESERVE d) s)"

section \<open>Changes of a job's state\<close>

text \<open>
  Every change is charged to the job's queue, its user (and groups) and its
  hosts, in one of two orders.
\<close>

definition acct_QUH :: "addr \<Rightarrow> cnts \<Rightarrow> bool \<Rightarrow> int \<Rightarrow> int \<Rightarrow> int \<Rightarrow> int \<Rightarrow> int \<Rightarrow> mbd \<Rightarrow> mbd" where
  "acct_QUH jp d b hJ hR hS hU hV s = updHostData b jp hJ hR hS hU hV (updUserData jp d (updQaccount jp d s))"

definition acct_QHU :: "addr \<Rightarrow> cnts \<Rightarrow> bool \<Rightarrow> int \<Rightarrow> int \<Rightarrow> int \<Rightarrow> int \<Rightarrow> int \<Rightarrow> mbd \<Rightarrow> mbd" where
  "acct_QHU jp d b hJ hR hS hU hV s = updUserData jp d (updHostData b jp hJ hR hS hU hV (updQaccount jp d s))"

definition acct_QU :: "addr \<Rightarrow> cnts \<Rightarrow> mbd \<Rightarrow> mbd" where
  "acct_QU jp d s = updUserData jp d (updQaccount jp d s)"

definition updCounters :: "addr \<Rightarrow> uint32 \<Rightarrow> int \<Rightarrow> mbd \<Rightarrow> mbd" where
  "updCounters jp oldStatus eventTime s =
     (let st = jStatus (jD s jp);
          num = numHostPtr (jD s jp);
          numReq = jb_maxNumProcessors (jobBill (shD s (shared (jD s jp))))
      in if IS_FINISH oldStatus then s
         else if jstate st = jstate oldStatus then s
         else if IS_PEND st \<and> IS_PEND oldStatus then s
         else if jstate st = JOB_STAT_RUN then
           (if has oldStatus JOB_STAT_PEND \<or> has oldStatus JOB_STAT_PSUSP
            then acct_QUH jp (Cnts (- numReq + num) (- numReq) num 0 0 0) True 1 1 0 0 0 s
            else if has oldStatus JOB_STAT_SSUSP
            then acct_QUH jp (Cnts 0 0 num (- num) 0 0) False 0 1 (-1) 0 0 s
            else if has oldStatus JOB_STAT_USUSP
            then acct_QUH jp (Cnts 0 0 num 0 (- num) 0) False 0 1 0 (-1) 0 s
            else s)
         else if jstate st = JOB_STAT_SSUSP then
           (if has oldStatus JOB_STAT_RUN
            then acct_QUH jp (Cnts 0 0 (- num) num 0 0) False 0 (-1) 1 0 0 s
            else if has oldStatus JOB_STAT_USUSP
            then acct_QUH jp (Cnts 0 0 0 num (- num) 0) False 0 0 1 (-1) 0 s
            else if has oldStatus JOB_STAT_PEND
            then acct_QUH jp (Cnts (- numReq + num) (- numReq) 0 num 0 0) True 1 0 1 0 0 s
            else s)
         else if jstate st = JOB_STAT_USUSP then
           (if has oldStatus JOB_STAT_RUN
            then acct_QUH jp (Cnts 0 0 (- num) 0 num 0) False 0 (-1) 0 1 0 s
            else if has oldStatus JOB_STAT_SSUSP
            then acct_QUH jp (Cnts 0 0 0 (- num) num 0) False 0 0 (-1) 1 0 s
            else if has oldStatus JOB_STAT_PEND
            then acct_QUH jp (Cnts (- numReq + num) (- numReq) 0 0 num 0) True 1 0 0 1 0 s
            else s)
         else if jstate st = JOB_STAT_EXIT \<or> jstate st = JOB_STAT_DONE then
           (let s = (if eventTime = LOG_IT
                     then call (Call_detachedJobFromFSTree jp) (call (Call_accumHistCpuTime jp) s) else s)
            in if has oldStatus JOB_STAT_WAIT
               then acct_QHU jp (Cnts (- num) 0 (- num) 0 0 0) True (-1) (-1) 0 0 0 s
               else if has oldStatus JOB_STAT_RUN
               then acct_QHU jp (Cnts (- num) 0 (- num) 0 0 0) True (-1) (-1) 0 0 0 s
               else if has oldStatus JOB_STAT_USUSP
               then acct_QHU jp (Cnts (- num) 0 0 0 (- num) 0) True (-1) 0 0 (-1) 0 s
               else if has oldStatus JOB_STAT_SSUSP
               then acct_QHU jp (Cnts (- num) 0 0 (- num) 0 0) True (-1) 0 (-1) 0 0 s
               else if IS_PEND oldStatus
               then acct_QU jp (Cnts (- numReq) (- numReq) 0 0 0 0) s
               else s)
         else if jstate st = JOB_STAT_PEND then
           (if has oldStatus JOB_STAT_RUN
            then acct_QHU jp (Cnts (numReq - num) numReq (- num) 0 0 0) True (-1) (-1) 0 0 0 s
            else if has oldStatus JOB_STAT_USUSP
            then acct_QHU jp (Cnts (- num + numReq) numReq 0 0 (- num) 0) True (-1) 0 0 (-1) 0 s
            else if has oldStatus JOB_STAT_SSUSP
            then acct_QHU jp (Cnts (- num + numReq) numReq 0 (- num) 0 0) True (-1) 0 (-1) 0 0 s
            else s)
         else s)"

section \<open>Slot reservation\<close>

definition updResCounters :: "addr \<Rightarrow> uint32 \<Rightarrow> mbd \<Rightarrow> mbd" where
  "updResCounters jp newStatus s =
     (let st = jStatus (jD s jp);
          num = numHostPtr (jD s jp);
          numReq = jb_maxNumProcessors (jobBill (shD s (shared (jD s jp))));
          res = has st JOB_STAT_RESERVE; newRes = has newStatus JOB_STAT_RESERVE
      in if \<not> IS_PEND st \<and> \<not> IS_START st then s
         else if jstate st = JOB_STAT_SSUSP then
           (if \<not> res \<and> newRes \<and> IS_START newStatus
            then acct_QUH jp (Cnts 0 0 0 (- num) 0 num) True 0 0 (-1) 0 1 s
            else if res \<and> \<not> newRes \<and> (IS_START newStatus \<or> has newStatus JOB_STAT_PEND)
            then acct_QUH jp (Cnts 0 0 0 num 0 (- num)) True 0 0 1 0 (-1) s
            else if res \<and> IS_FINISH newStatus
            then acct_QUH jp (Cnts (- num) 0 0 0 0 (- num)) True (-1) 0 0 0 (-1) s
            else s)
         else if jstate st = JOB_STAT_USUSP then
           (if \<not> res \<and> newRes \<and> IS_START newStatus
            then acct_QUH jp (Cnts 0 0 0 0 (- num) num) True 0 0 0 (-1) 1 s
            else if res \<and> \<not> newRes \<and> IS_START newStatus
            then acct_QUH jp (Cnts 0 0 0 0 num (- num)) True 0 0 0 1 (-1) s
            else if res \<and> IS_FINISH newStatus
            then acct_QUH jp (Cnts (- num) 0 0 0 0 (- num)) True (-1) 0 0 0 (-1) s
            else s)
         else if jstate st = JOB_STAT_PEND \<or> jstate st = JOB_STAT_PSUSP then
           (if res \<and> \<not> newRes \<and> IS_PEND newStatus
            then call (Call_proxyRsvJLRemoveEntry jp) (call (Call_proxyHRsvJLRemoveEntry jp)
                   (acct_QHU jp (Cnts 0 num 0 0 0 (- num)) True (-1) 0 0 0 (-1) s))
            else if \<not> res \<and> newRes \<and> IS_PEND newStatus
            then call (Call_proxyRsvJLAddEntry jp) (call (Call_proxyHRsvJLAddEntry jp)
                   (acct_QHU jp (Cnts 0 (- num) 0 0 0 num) True 1 0 0 0 1 s))
            else if IS_PEND st \<and> res \<and> IS_FINISH newStatus
            then call (Call_proxyRsvJLRemoveEntry jp) (call (Call_proxyHRsvJLRemoveEntry jp)
                   (acct_QHU jp (Cnts (- numReq) (- numReq + num) 0 0 0 (- num)) True (-1) 0 0 0 (-1) s))
            else s)
         else s)"

section \<open>Switching a job to another queue\<close>

definition set_queue :: "addr \<Rightarrow> addr \<Rightarrow> mbd \<Rightarrow> mbd" where
  "set_queue j q = upd_j j (\<lambda>x. x\<lparr>qPtr := q\<rparr>)"

text \<open>
  Each case of \<open>updSwitchJob\<close>: the charge is taken back from the old queue and
  made to the new one, except while the event log is replayed.
\<close>

definition switchCharge :: "addr \<Rightarrow> addr \<Rightarrow> addr \<Rightarrow> (mbd \<Rightarrow> mbd) \<Rightarrow> (mbd \<Rightarrow> mbd) \<Rightarrow> mbd \<Rightarrow> mbd" where
  "switchCharge jp qfp qtp leave enter s =
     (let live = (mSchedStage s \<noteq> M_STAGE_REPLAY);
          s = set_queue jp qfp s;
          s = (if live then leave s else s);
          s = set_queue jp qtp s
      in if live then enter s else s)"

definition switchMove :: "addr \<Rightarrow> addr \<Rightarrow> addr \<Rightarrow> int \<Rightarrow> mbd \<Rightarrow> mbd" where
  "switchMove jp qfp qtp oldNumReq s =
     (let num = numHostPtr (jD s jp);
          numReq = jb_maxNumProcessors (jobBill (shD s (shared (jD s jp))));
          m = MASK_STATUS (jStatus (jD s jp))
      in if m = JOB_STAT_PEND \<or> m = JOB_STAT_PSUSP
         then switchCharge jp qfp qtp
                (acct_QU jp (Cnts (- oldNumReq) (- oldNumReq) 0 0 0 0))
                (acct_QU jp (Cnts numReq numReq 0 0 0 0)) s
         else if m = JOB_STAT_RUN \<or> m = JOB_STAT_RUN OR JOB_STAT_UNKWN
         then switchCharge jp qfp qtp
                (acct_QHU jp (Cnts (- num) 0 (- num) 0 0 0) True (-1) (-1) 0 0 0)
                (acct_QHU jp (Cnts num 0 num 0 0 0) True 1 1 0 0 0) s
         else if m = JOB_STAT_SSUSP \<or> m = JOB_STAT_SSUSP OR JOB_STAT_UNKWN
         then switchCharge jp qfp qtp
                (acct_QHU jp (Cnts (- num) 0 0 (- num) 0 0) True (-1) 0 (-1) 0 0)
                (acct_QHU jp (Cnts num 0 0 num 0 0) True 1 0 1 0 0) s
         else if m = JOB_STAT_USUSP \<or> m = JOB_STAT_USUSP OR JOB_STAT_UNKWN
         then switchCharge jp qfp qtp
                (acct_QHU jp (Cnts (- num) 0 0 0 (- num) 0) True (-1) 0 0 (-1) 0)
                (acct_QHU jp (Cnts num 0 0 0 num 0) True 1 0 0 1 0) s
         else s)"

definition updSwitchJob :: "addr \<Rightarrow> addr \<Rightarrow> addr \<Rightarrow> int \<Rightarrow> mbd \<Rightarrow> mbd" where
  "updSwitchJob jp qfp qtp oldNumReq s =
     (if has (jStatus (jD s jp)) JOB_STAT_RESERVE
      then let s = set_queue jp qfp s;
               s = updResCounters jp (jStatus (jD s jp) AND NOT JOB_STAT_RESERVE) s;
               s = set_queue jp qtp s;
               s = upd_j jp (\<lambda>j. j\<lparr>jStatus := jStatus j AND NOT JOB_STAT_RESERVE\<rparr>) s;
               s = switchMove jp qfp qtp oldNumReq s;
               s = updResCounters jp (jStatus (jD s jp) OR JOB_STAT_RESERVE) s
           in upd_j jp (\<lambda>j. j\<lparr>jStatus := jStatus j OR JOB_STAT_RESERVE\<rparr>) s
      else switchMove jp qfp qtp oldNumReq s)"

end
