(* ===== verification/Counter_Laws.thy ===== *)
theory Counter_Laws
  imports Job_Counters
begin

unbundle bit_operations_syntax

text \<open>
  What the accounting routines change and what they leave alone.  The three
  projections \<open>qcn\<close>, \<open>ucn\<close> and \<open>hcn\<close> are the counters of all queues, users and
  hosts; each routine adds to the counters of the objects it is meant for and
  touches no other counter.
\<close>

section \<open>Projections\<close>

definition qcn :: "mbd \<Rightarrow> addr \<Rightarrow> cnts" where "qcn s q = q_cnts (qD s q)"
definition ucn :: "mbd \<Rightarrow> addr \<Rightarrow> cnts" where "ucn s u = u_cnts (uD s u)"
definition hcn :: "mbd \<Rightarrow> addr \<Rightarrow> cnts" where "hcn s h = h_cnts (hD s h)"
definition remote :: "mbd \<Rightarrow> addr \<Rightarrow> bool" where
  "remote s h \<longleftrightarrow> has (h_hStatus (hD s h)) HOST_STAT_REMOTE"
definition ugrps :: "mbd \<Rightarrow> addr \<Rightarrow> addr list" where "ugrps s u = u_gPtr (uD s u)"
definition uinit :: "mbd \<Rightarrow> addr \<Rightarrow> bool" where "uinit s u \<longleftrightarrow> has (u_flags (uD s u)) USER_INIT"

lemmas proj_defs = fun_eq_iff qcn_def ucn_def hcn_def remote_def ugrps_def uinit_def

text \<open>States that agree on everything but accounts, reasons and counters.\<close>

definition frame :: "mbd \<Rightarrow> mbd \<Rightarrow> bool" where
  "frame s s' \<longleftrightarrow> jD s' = jD s \<and> shD s' = shD s \<and> usergroups s' = usergroups s \<and>
     mSchedStage s' = mSchedStage s \<and> jDataList s' = jDataList s \<and> pendJobSlots s' = pendJobSlots s \<and>
     qDataList s' = qDataList s \<and> remote s' = remote s \<and> ugrps s' = ugrps s \<and> uinit s' = uinit s \<and> jg s' = jg s"

lemma frame_refl [simp, intro]: "frame s s"
  by (simp add: frame_def)

lemma frame_trans [trans]: "frame s s' \<Longrightarrow> frame s' s'' \<Longrightarrow> frame s s''"
  by (simp add: frame_def)

text \<open>States that agree on all counters.\<close>

definition same_cnts :: "mbd \<Rightarrow> mbd \<Rightarrow> bool" where
  "same_cnts s s' \<longleftrightarrow> qcn s' = qcn s \<and> ucn s' = ucn s \<and> hcn s' = hcn s"

lemma same_cnts_refl [simp, intro]: "same_cnts s s"
  by (simp add: same_cnts_def)

lemma same_cnts_trans [trans]: "same_cnts s s' \<Longrightarrow> same_cnts s' s'' \<Longrightarrow> same_cnts s s''"
  by (simp add: same_cnts_def)

lemma frame_upd_q [simp]: "frame s (upd_q q f s)"
  by (simp add: frame_def proj_defs)

lemma frame_upd_u:
  assumes "u_gPtr (f (uD s u)) = u_gPtr (uD s u)"
    and "has (u_flags (f (uD s u))) USER_INIT = has (u_flags (uD s u)) USER_INIT"
  shows "frame s (upd_u u f s)"
  using assms by (simp add: frame_def proj_defs)

lemma frame_upd_h:
  assumes "has (h_hStatus (f (hD s h))) HOST_STAT_REMOTE = has (h_hStatus (hD s h)) HOST_STAT_REMOTE"
  shows "frame s (upd_h h f s)"
  using assms by (simp add: frame_def proj_defs)

lemma frame_call [simp]: "frame s (call c s)"
  by (simp add: frame_def proj_defs)

lemma same_upd_q: "q_cnts (f (qD s q)) = q_cnts (qD s q) \<Longrightarrow> same_cnts s (upd_q q f s)"
  by (simp add: same_cnts_def proj_defs)

lemma same_upd_u: "u_cnts (f (uD s u)) = u_cnts (uD s u) \<Longrightarrow> same_cnts s (upd_u u f s)"
  by (simp add: same_cnts_def proj_defs)

lemma same_upd_h: "h_cnts (f (hD s h)) = h_cnts (hD s h) \<Longrightarrow> same_cnts s (upd_h h f s)"
  by (simp add: same_cnts_def proj_defs)

lemma same_call [simp]: "same_cnts s (call c s)"
  by (simp add: same_cnts_def proj_defs)

text \<open>Both relations at once: the accounts and reasons may change, nothing else.\<close>

definition quiet :: "mbd \<Rightarrow> mbd \<Rightarrow> bool" where
  "quiet s s' \<longleftrightarrow> frame s s' \<and> same_cnts s s'"

lemma quiet_refl [simp, intro]: "quiet s s"
  by (simp add: quiet_def)

lemma quiet_trans [trans]: "quiet s s' \<Longrightarrow> quiet s' s'' \<Longrightarrow> quiet s s''"
  using frame_trans same_cnts_trans by (auto simp: quiet_def)

lemma quiet_upd_q: "(\<And>x. q_cnts (f x) = q_cnts x) \<Longrightarrow> quiet s (upd_q q f s)"
  by (simp add: quiet_def same_upd_q)

lemma quiet_upd_u:
  "(\<And>x. u_cnts (f x) = u_cnts x) \<Longrightarrow> (\<And>x. u_gPtr (f x) = u_gPtr x) \<Longrightarrow>
   (\<And>x. has (u_flags (f x)) USER_INIT = has (u_flags x) USER_INIT) \<Longrightarrow> quiet s (upd_u u f s)"
  by (simp add: quiet_def same_upd_u frame_upd_u)

lemma quiet_upd_h:
  "(\<And>x. h_cnts (f x) = h_cnts x) \<Longrightarrow>
   (\<And>x. has (h_hStatus (f x)) HOST_STAT_REMOTE = has (h_hStatus x) HOST_STAT_REMOTE) \<Longrightarrow>
   quiet s (upd_h h f s)"
  by (simp add: quiet_def same_upd_h frame_upd_h)

lemma quiet_call [simp]: "quiet s (call c s)"
  by (simp add: quiet_def)

lemma quiet_foldl: "(\<And>s x. quiet s (f s x)) \<Longrightarrow> quiet s (foldl f s xs)"
  by (induction xs arbitrary: s) (auto intro: quiet_trans)

section \<open>Account tables and reasons leave the counters alone\<close>

lemma quiet_updUAcct: "quiet s (updUAcct jp up a b c d e hp s)"
proof (cases hp)
  case None
  then show ?thesis
    by (auto simp: updUAcct_def Let_def intro!: quiet_upd_q split: option.splits)
next
  case (Some h)
  have "quiet s (upd_u up f (upd_h h g s))"
    if "\<And>x. u_cnts (f x) = u_cnts x" "\<And>x. u_gPtr (f x) = u_gPtr x" "\<And>x. u_flags (f x) = u_flags x"
      "\<And>x. h_cnts (g x) = h_cnts x" "\<And>x. h_hStatus (g x) = h_hStatus x" for f g
    using quiet_trans [OF quiet_upd_h quiet_upd_u] that by simp
  then show ?thesis
    using Some by (auto simp: updUAcct_def Let_def intro!: quiet_upd_h split: option.splits)
qed

lemma q_cnts_updHAcctQReason [simp]: "q_cnts (updHAcctQReason st hp fh qp) = q_cnts qp"
  by (simp add: updHAcctQReason_def Let_def CHECKQUSABLE_def)

lemma updHAcctUReason_fields [simp]:
  "u_cnts (updHAcctUReason hp fh u) = u_cnts u" "u_gPtr (updHAcctUReason hp fh u) = u_gPtr u"
  "u_flags (updHAcctUReason hp fh u) = u_flags u"
  by (simp_all add: updHAcctUReason_def Let_def)

lemma quiet_updHAcctQLoop: "quiet s (updHAcctQLoop jp q a b c d hs s)"
proof (induction hs arbitrary: s)
  case (Cons h hs)
  have "quiet s (upd_q q f (upd_q q g s))" if "\<And>x. q_cnts (f x) = q_cnts x" "\<And>x. q_cnts (g x) = q_cnts x"
    for f g using quiet_trans [OF quiet_upd_q quiet_upd_q] that by blast
  then show ?case
    using quiet_trans [OF _ Cons.IH] Cons.IH quiet_upd_q
    by (auto simp: Let_def split: option.splits)
qed simp

lemma quiet_updHAcctULoop: "quiet s (updHAcctULoop jp up a b c d hs s)"
proof (induction hs arbitrary: s)
  case (Cons h hs)
  have "quiet s (upd_u up f (upd_u up g s))"
    if "\<And>x. u_cnts (f x) = u_cnts x" "\<And>x. u_gPtr (f x) = u_gPtr x" "\<And>x. u_flags (f x) = u_flags x"
      "\<And>x. u_cnts (g x) = u_cnts x" "\<And>x. u_gPtr (g x) = u_gPtr x" "\<And>x. u_flags (g x) = u_flags x"
    for f g using quiet_trans [OF quiet_upd_u quiet_upd_u] that by simp
  then show ?case
    using quiet_trans [OF _ Cons.IH] Cons.IH quiet_upd_u
    by (auto simp: Let_def split: option.splits)
qed simp

lemma quiet_updHAcctQ: "quiet s (updHAcctQ jp q a b c d s)"
proof (cases "hPtr (jD s jp) = None")
  case False
  let ?f = "\<lambda>qp. qp\<lparr>q_hAcct := init_hAcct (q_hAcct qp), q_flags := q_flags qp AND NOT QUEUE_UPDATE_USABLE\<rparr>"
  let ?s = "updHAcctQLoop jp q a b c d (job_hosts (jD s jp)) (upd_q q ?f s)"
  have q: "quiet s ?s" using quiet_trans [OF quiet_upd_q quiet_updHAcctQLoop] by simp
  moreover have "quiet s (upd_q q (\<lambda>qp. qp\<lparr>q_flags := q_flags qp AND NOT QUEUE_UPDATE_USABLE\<rparr>)
      (call (Call_getQUsable q) ?s))"
    using quiet_trans [OF quiet_trans [OF q quiet_call] quiet_upd_q] by simp
  ultimately show ?thesis using False by (simp add: updHAcctQ_def Let_def)
qed (simp add: updHAcctQ_def)

lemma quiet_updHAcctU: "quiet s (updHAcctU jp up a b c d s)"
  using quiet_trans [OF quiet_upd_u quiet_updHAcctULoop]
  by (auto simp: updHAcctU_def Let_def)

section \<open>Charging a list of objects\<close>

definition charge :: "cnts \<Rightarrow> (addr \<Rightarrow> cnts) \<Rightarrow> addr list \<Rightarrow> addr \<Rightarrow> cnts" where
  "charge d c xs = foldl (\<lambda>c x. c(x := addCnts (c x) d)) c xs"

lemma charge_simps [simp]:
  "charge d c [] = c" "charge d c (x # xs) = charge d (c(x := addCnts (c x) d)) xs"
  by (simp_all add: charge_def)

lemma updUserData1_cnts:
  "frame s (updUserData1 jp up d s) \<and> qcn (updUserData1 jp up d s) = qcn s \<and>
   hcn (updUserData1 jp up d s) = hcn s \<and>
   ucn (updUserData1 jp up d s) = (ucn s)(up := addCnts (ucn s up) d)"
proof -
  let ?f = "\<lambda>u. u\<lparr>u_numPENDJobs := addValue (u_numPENDJobs u)
      (c_div (numPEND d) (jb_maxNumProcessors (jobBill (shD s (shared (jD s jp)))))), u_cnts := addCnts (u_cnts u) d\<rparr>"
  have q: "quiet (upd_u up ?f s) (updUserData1 jp up d s)"
    using quiet_updHAcctU by (simp add: updUserData1_def Let_def)
  have f: "frame s (upd_u up ?f s)" by (rule frame_upd_u) simp_all
  have c: "qcn (upd_u up ?f s) = qcn s" "hcn (upd_u up ?f s) = hcn s"
    "ucn (upd_u up ?f s) = (ucn s)(up := addCnts (ucn s up) d)" by (simp_all add: proj_defs)
  show ?thesis using q f c frame_trans by (auto simp: quiet_def same_cnts_def)
qed

lemma init_group_flag [simp]:
  "has (x OR USER_GROUP) USER_INIT = has x USER_INIT"
  "has (x AND NOT USER_GROUP) USER_INIT = has x USER_INIT"
  by (simp_all add: has_def bit.conj_disj_distrib2 and.assoc USER_GROUP_def USER_INIT_def)

lemma remote_full_flags [simp]:
  "has (x OR HOST_STAT_FULL) HOST_STAT_REMOTE = has x HOST_STAT_REMOTE"
  "has (x AND NOT HOST_STAT_FULL) HOST_STAT_REMOTE = has x HOST_STAT_REMOTE"
  "has (x AND NOT HOST_STAT_EXCLUSIVE) HOST_STAT_REMOTE = has x HOST_STAT_REMOTE"
  by (simp_all add: has_def bit.conj_disj_distrib2 and.assoc HOST_STAT_FULL_def
      HOST_STAT_EXCLUSIVE_def HOST_STAT_REMOTE_def)

lemma setUserReason_fields [simp]:
  "u_cnts (setUserReason n r u) = u_cnts u" "u_gPtr (setUserReason n r u) = u_gPtr u"
  "u_flags (setUserReason n r u) = u_flags u"
  by (simp_all add: setUserReason_def Let_def)

lemma quiet_group_flag: "quiet s (upd_u u (\<lambda>u. u\<lparr>u_flags := u_flags u OR USER_GROUP\<rparr>) s)"
  "quiet s (upd_u u (\<lambda>u. u\<lparr>u_flags := u_flags u AND NOT USER_GROUP\<rparr>) s)"
  by (rule quiet_upd_u; simp)+

lemma quiet_setUserReason: "quiet s (upd_u u (setUserReason n r) s)"
  by (rule quiet_upd_u) simp_all

lemma chargeUser_cnts:
  "frame s (snd (chargeUser jp u d r s)) \<and> qcn (snd (chargeUser jp u d r s)) = qcn s \<and>
   hcn (snd (chargeUser jp u d r s)) = hcn s \<and>
   ucn (snd (chargeUser jp u d r s)) = (ucn s)(u := addCnts (ucn s u) d)"
proof -
  let ?s = "updUserData1 jp u d s"
  have "quiet ?s (snd (chargeUser jp u d r s))"
    by (simp add: chargeUser_def Let_def quiet_setUserReason)
  then show ?thesis using updUserData1_cnts [of s jp u d] frame_trans
    by (simp add: quiet_def same_cnts_def) blast
qed

lemma updUserGroups_cnts:
  "frame s (snd (updUserGroups jp d us n s)) \<and> qcn (snd (updUserGroups jp d us n s)) = qcn s \<and>
   hcn (snd (updUserGroups jp d us n s)) = hcn s \<and>
   ucn (snd (updUserGroups jp d us n s)) = charge d (ucn s) us"
proof (induction us arbitrary: n s)
  case (Cons u us)
  define s1 where "s1 = upd_u u (\<lambda>u. u\<lparr>u_flags := u_flags u OR USER_GROUP\<rparr>) s"
  define s2 where "s2 = snd (chargeUser jp u d PEND_UGRP_JOB_LIMIT s1)"
  obtain k where s2: "updUserGroups jp d (u # us) n s = updUserGroups jp d us k s2"
    by (simp add: s1_def s2_def Let_def split_beta)
  have "quiet s s1" unfolding s1_def by (rule quiet_group_flag)
  then have a: "frame s s2" "qcn s2 = qcn s" "hcn s2 = hcn s" "ucn s2 = (ucn s)(u := addCnts (ucn s u) d)"
    using chargeUser_cnts [of s1 jp u d PEND_UGRP_JOB_LIMIT] frame_trans [of s s1 s2]
    by (simp_all add: quiet_def same_cnts_def s2_def [symmetric])
  show ?case unfolding s2 charge_simps a(4) [symmetric]
    using Cons.IH [of s2 k] frame_trans [OF a(1)] a(2,3) by auto
qed simp

text \<open>The users charged for a job: its owner and the groups found for them.\<close>

definition charged_users :: "mbd \<Rightarrow> addr \<Rightarrow> addr list" where
  "charged_users s u = u # (if usergroups s = [] then [] else ugrps s u)"

definition user_ready :: "mbd \<Rightarrow> addr \<Rightarrow> bool" where
  "user_ready s u \<longleftrightarrow> u \<noteq> NULL \<and> (usergroups s = [] \<or> uinit s u)"

lemma updUserData_cnts:
  assumes "user_ready s (uPtr (jD s jp))"
  shows "frame s (updUserData jp d s)" "qcn (updUserData jp d s) = qcn s"
    "hcn (updUserData jp d s) = hcn s"
    "ucn (updUserData jp d s) = charge d (ucn s) (charged_users s (uPtr (jD s jp)))"
proof -
  define up where "up = uPtr (jD s jp)"
  define s1 where "s1 = upd_u up (\<lambda>u. u\<lparr>u_flags := u_flags u AND NOT USER_GROUP\<rparr>) s"
  define s2 where "s2 = snd (chargeUser jp up d PEND_USER_JOB_LIMIT s1)"
  define n where "n = fst (chargeUser jp up d PEND_USER_JOB_LIMIT s1)"
  have res: "resolveUser jp s = s" using assms by (simp add: resolveUser_def user_ready_def)
  have "quiet s s1" unfolding s1_def by (rule quiet_group_flag)
  then have a: "frame s s2" "qcn s2 = qcn s" "hcn s2 = hcn s" "ucn s2 = (ucn s)(up := addCnts (ucn s up) d)"
    using chargeUser_cnts [of s1 jp up d PEND_USER_JOB_LIMIT] frame_trans [of s s1 s2]
    by (simp_all add: quiet_def same_cnts_def s2_def [symmetric])
  have ug: "usergroups s2 = usergroups s" "uinit s2 up = uinit s up" "ugrps s2 up = ugrps s up"
    using a(1) by (simp_all add: frame_def)
  define s3 where "s3 = (if usergroups s = [] then s2 else snd (updUserGroups jp d (ugrps s up) n s2))"
  have "usergroups s \<noteq> [] \<Longrightarrow> initUserGroups jp up s2 = s2"
    using assms ug by (simp add: initUserGroups_def user_ready_def up_def uinit_def)
  then have "\<exists>k. updUserData jp d s = upd_u up (\<lambda>u. u\<lparr>u_numSlots := k\<rparr>) s3"
    using ug(1,3)
    by (auto simp: updUserData_def res up_def [symmetric] s1_def [symmetric] split_beta
        s2_def [symmetric] n_def [symmetric] s3_def ugrps_def)
  then obtain k where eq: "updUserData jp d s = upd_u up (\<lambda>u. u\<lparr>u_numSlots := k\<rparr>) s3" by blast
  have q: "quiet s3 (updUserData jp d s)" unfolding eq by (rule quiet_upd_u) simp_all
  have "frame s s3 \<and> qcn s3 = qcn s \<and> hcn s3 = hcn s \<and>
      ucn s3 = charge d (ucn s) (charged_users s up)"
    using updUserGroups_cnts [of s2 jp d "ugrps s up" n] a frame_trans [of s s2 s3]
    by (simp add: s3_def charged_users_def)
  with q show "frame s (updUserData jp d s)" "qcn (updUserData jp d s) = qcn s"
    "hcn (updUserData jp d s) = hcn s"
    "ucn (updUserData jp d s) = charge d (ucn s) (charged_users s (uPtr (jD s jp)))"
    using frame_trans [of s s3] by (simp_all add: quiet_def same_cnts_def up_def)
qed

section \<open>Hosts and queues\<close>

lemma quiet_hReasonTb [simp]: "quiet s (s\<lparr>hReasonTb := r\<rparr>)"
  by (simp add: quiet_def frame_def same_cnts_def proj_defs)

lemma quiet_setHostFull: "quiet s (setHostFull h s)"
proof (cases "h_maxJobs (hD s h) \<le> numJobs (h_cnts (hD s h))")
  case True
  then show ?thesis
    using quiet_trans [OF quiet_hReasonTb quiet_upd_h] by (simp add: setHostFull_def Let_def)
next
  case False
  let ?s = "upd_h h (\<lambda>hp. hp\<lparr>h_hStatus := h_hStatus hp AND NOT HOST_STAT_FULL\<rparr>) s"
  let ?i = "hostId (hD s h)"
  let ?f = "\<lambda>s q. upd_q q (\<lambda>qp. qp\<lparr>q_reasonTb := (q_reasonTb qp)(?i :=
      CLEAR_REASON (q_reasonTb qp ?i) PEND_HOST_JOB_LIMIT)\<rparr>) s"
  have "quiet s (?s\<lparr>hReasonTb := r\<rparr>)" for r
    using quiet_trans [OF quiet_upd_h quiet_hReasonTb] by simp
  moreover have "quiet s' (foldl ?f s' qs)" for s' qs
    by (rule quiet_foldl, rule quiet_upd_q) simp
  ultimately have "quiet s (foldl ?f (?s\<lparr>hReasonTb := r\<rparr>) qs)" for r qs using quiet_trans by blast
  then show ?thesis using False by (simp only: setHostFull_def Let_def if_False)
qed

lemma updHostDataLoop_cnts:
  "frame s (updHostDataLoop jp d hs s) \<and> qcn (updHostDataLoop jp d hs s) = qcn s \<and>
   ucn (updHostDataLoop jp d hs s) = ucn s \<and>
   hcn (updHostDataLoop jp d hs s) =
     charge d (hcn s) (filter (\<lambda>h. \<not> remote s h) (takeWhile (\<lambda>h. h \<noteq> NULL) hs))"
proof (induction hs arbitrary: s)
  case (Cons h hs)
  define s1 where "s1 = (if h_uJobLimit (hD s h) < INFINIT_INT \<and>
      (numRUN d \<noteq> 0 \<or> numSSUSP d \<noteq> 0 \<or> numUSUSP d \<noteq> 0 \<or> numRESERVE d \<noteq> 0)
    then updUAcct jp (uPtr (jD s jp)) (numRUN d) (numSSUSP d) (numUSUSP d) (numRESERVE d) 0 (Some h) s
    else s)"
  define s2 where "s2 = upd_h h (\<lambda>hp. hp\<lparr>h_cnts := addCnts (h_cnts hp) d\<rparr>) s1"
  define s3 where "s3 = setHostFull h s2"
  define s4 where "s4 = (if numJobs (h_cnts (hD s3 h)) \<le> 0
    then upd_h h (\<lambda>hp. hp\<lparr>h_hStatus := h_hStatus hp AND NOT HOST_STAT_EXCLUSIVE\<rparr>) s3 else s3)"
  have q1: "quiet s s1" by (simp add: s1_def quiet_updUAcct)
  have f2: "frame s1 s2" unfolding s2_def by (rule frame_upd_h) simp
  have c2: "qcn s2 = qcn s1" "ucn s2 = ucn s1" "hcn s2 = (hcn s1)(h := addCnts (hcn s1 h) d)"
    by (simp_all add: s2_def proj_defs)
  have q4: "quiet s2 s4"
    using quiet_trans [OF quiet_setHostFull quiet_upd_h] quiet_setHostFull
    by (simp add: s3_def s4_def)
  have f4: "frame s s4" using q1 f2 q4 frame_trans by (auto simp: quiet_def)
  have c4: "qcn s4 = qcn s" "ucn s4 = ucn s" "hcn s4 = (hcn s)(h := addCnts (hcn s h) d)"
    using q1 c2 q4 by (simp_all add: quiet_def same_cnts_def)
  have rem: "remote s4 = remote s" using f4 by (simp add: frame_def)
  consider "h = NULL" | "h \<noteq> NULL" "remote s h" | "h \<noteq> NULL" "\<not> remote s h" by blast
  then show ?case
  proof cases
    case 3
    then have eq: "updHostDataLoop jp d (h # hs) s = updHostDataLoop jp d hs s4"
      by (simp only: updHostDataLoop.simps Let_def s1_def s2_def s3_def s4_def if_False
          3(2) [unfolded remote_def])
    have "filter (\<lambda>h. \<not> remote s h) (takeWhile (\<lambda>h. h \<noteq> NULL) (h # hs)) =
        h # filter (\<lambda>h. \<not> remote s h) (takeWhile (\<lambda>h. h \<noteq> NULL) hs)" using 3 by simp
    then show ?thesis
      unfolding eq using Cons.IH [of s4] frame_trans [OF f4] c4(1,2)
      by (auto simp only: charge_simps c4(3) rem)
  qed (use Cons.IH [of s] in \<open>auto simp: remote_def\<close>)
qed simp

lemma setQueueReason_cnts [simp]: "q_cnts (setQueueReason qp) = q_cnts qp"
  by (simp add: setQueueReason_def Let_def)

lemma updQaccount_cnts:
  "frame s (updQaccount jp d s) \<and> ucn (updQaccount jp d s) = ucn s \<and>
   hcn (updQaccount jp d s) = hcn s \<and>
   qcn (updQaccount jp d s) = (qcn s)(qPtr (jD s jp) := addCnts (qcn s (qPtr (jD s jp))) d)"
proof -
  let ?q = "qPtr (jD s jp)" and ?up = "uPtr (jD s jp)"
  define s1 where "s1 = upd_q ?q (\<lambda>qp. qp\<lparr>q_cnts := addCnts (q_cnts qp) d\<rparr>) s"
  define s2 where "s2 = upd_q ?q setQueueReason s1"
  let ?upd = "\<lambda>s up. updUAcct jp up (numRUN d) (numSSUSP d) (numUSUSP d) (numRESERVE d) (numPEND d) None s"
  define s3 where "s3 = ?upd s2 ?up"
  define s4 where "s4 = foldl ?upd s3 (uset_list s3 (u_ancestors (uD s3 ?up)))"
  have q2: "quiet s1 s2" unfolding s2_def by (rule quiet_upd_q) simp
  have q4: "quiet s2 s4"
    unfolding s4_def s3_def by (rule quiet_trans [OF quiet_updUAcct quiet_foldl]) (rule quiet_updUAcct)
  have "quiet s4 (updQaccount jp d s)"
  proof -
    have "updQaccount jp d s = s4 \<or>
        updQaccount jp d s = updHAcctQ jp ?q (numRUN d) (numSSUSP d) (numUSUSP d) (numRESERVE d) s4"
      unfolding updQaccount_def Let_def s1_def s2_def s3_def s4_def by (simp only: split: if_splits) blast
    then show ?thesis using quiet_updHAcctQ by auto
  qed
  with q2 q4 have q: "quiet s1 (updQaccount jp d s)" using quiet_trans by blast
  have "frame s s1" by (simp add: s1_def)
  moreover have "ucn s1 = ucn s" "hcn s1 = hcn s" "qcn s1 = (qcn s)(?q := addCnts (qcn s ?q) d)"
    by (simp_all add: s1_def proj_defs)
  ultimately show ?thesis using q frame_trans [of s s1] by (auto simp: quiet_def same_cnts_def)
qed

end
