(* ===== verification/Slot_Books.thy ===== *)
theory Slot_Books
  imports Counter_Laws
begin

unbundle bit_operations_syntax

text \<open>
  The books balance: after every change of a job's state that mbatchd accounts
  for, the counters of each queue, user, user group and host are exactly the
  sums of what the jobs contribute.
\<close>

section \<open>Exact sums\<close>

primrec cscale :: "nat \<Rightarrow> cnts \<Rightarrow> cnts" where
  "cscale 0 d = 0"
| "cscale (Suc n) d = d + cscale n d"

lemma cscale_sel [simp]:
  "numJobs (cscale n d) = int n * numJobs d" "numPEND (cscale n d) = int n * numPEND d"
  "numRUN (cscale n d) = int n * numRUN d" "numSSUSP (cscale n d) = int n * numSSUSP d"
  "numUSUSP (cscale n d) = int n * numUSUSP d" "numRESERVE (cscale n d) = int n * numRESERVE d"
  by (induction n; simp add: zero_cnts_def plus_cnts_def algebra_simps)+

lemma cscale_add: "cscale n (c + d) = cscale n c + cscale n d"
  by (rule cnts.expand) (simp add: plus_cnts_def algebra_simps)

lemma cscale_nonneg: "0 \<le> d \<Longrightarrow> 0 \<le> cscale n d"
  by (induction n) (simp_all add: add_nonneg_nonneg)

lemma addCnts_exact: "0 \<le> c + d \<Longrightarrow> addCnts c d = c + d"
  by (simp add: addCnts_def addValue_def cnts_defs)

lemma step_nonneg: "0 \<le> a \<Longrightarrow> 0 \<le> a + int (Suc n) * b \<Longrightarrow> 0 \<le> a + (b :: int)"
proof (cases "0 \<le> b")
  case False
  then have "int (Suc n) * b \<le> b" by (simp add: algebra_simps mult_nonpos_nonneg)
  moreover assume "0 \<le> a" "0 \<le> a + int (Suc n) * b"
  ultimately show ?thesis by simp
qed simp

lemma cscale_step_nonneg: "0 \<le> c \<Longrightarrow> 0 \<le> c + cscale (Suc n) d \<Longrightarrow> 0 \<le> c + d"
  using step_nonneg [of _ n]
  by (simp only: less_eq_cnts_def plus_cnts_def zero_cnts_def cnts.sel cscale_sel)

lemma charge_exact:
  assumes "\<And>x. 0 \<le> c x" and "\<And>x. 0 \<le> c x + cscale (count_list xs x) d"
  shows "charge d c xs x = c x + cscale (count_list xs x) d"
  using assms
proof (induction xs arbitrary: c)
  case (Cons y xs)
  let ?c = "c(y := c y + d)"
  have ny: "0 \<le> c y + d"
    using cscale_step_nonneg [of "c y" "count_list xs y" d] Cons.prems(1,2) [of y] by simp
  have "0 \<le> ?c z" for z using ny Cons.prems(1) by simp
  moreover have "?c z + cscale (count_list xs z) d = c z + cscale (count_list (y # xs) z) d" for z
    by (simp add: add.assoc)
  ultimately have "charge d ?c xs x = ?c x + cscale (count_list xs x) d"
    using Cons.IH [of ?c] Cons.prems(2) by presburger
  then show ?case
    using addCnts_exact [OF ny] by (simp add: add.assoc)
qed simp

text \<open>
  The total of the contributions \<open>jc\<close> of the jobs \<open>J\<close> to each object, where job
  \<open>i\<close> is charged once for every occurrence of the object in \<open>w i\<close>.
\<close>

definition total :: "addr set \<Rightarrow> (addr \<Rightarrow> addr list) \<Rightarrow> (addr \<Rightarrow> cnts) \<Rightarrow> addr \<Rightarrow> cnts" where
  "total J w jc x = (\<Sum>i\<in>J. cscale (count_list (w i) x) (jc i))"

lemma total_nonneg: "\<forall>i \<in> J. 0 \<le> jc i \<Longrightarrow> 0 \<le> total J w jc x"
  unfolding total_def by (rule sum_nonneg) (simp add: cscale_nonneg)

lemma total_update:
  assumes "finite J" and "j \<in> J"
  shows "total J w (jc(j := jc j + d)) x = total J w jc x + cscale (count_list (w j) x) d"
proof -
  let ?f = "\<lambda>g i. cscale (count_list (w i) x) (g i)"
  have "sum (?f (jc(j := jc j + d))) (J - {j}) = sum (?f jc) (J - {j})"
    by (rule sum.cong) auto
  then show ?thesis
    using assms by (simp add: total_def sum.remove [of J j] cscale_add algebra_simps)
qed

lemma charge_total:
  assumes "finite J" and "j \<in> J" and "\<forall>i \<in> J. 0 \<le> jc i" and "0 \<le> jc j + d"
  shows "charge d (total J w jc) (w j) = total J w (jc(j := jc j + d))"
proof
  fix x
  have "0 \<le> total J w (jc(j := jc j + d)) y" for y
    by (rule total_nonneg) (use assms in auto)
  then have "0 \<le> total J w jc y + cscale (count_list (w j) y) d" for y
    using total_update [OF assms(1,2)] by metis
  then show "charge d (total J w jc) (w j) x = total J w (jc(j := jc j + d)) x"
    using charge_exact [of "total J w jc" "w j" d x] total_nonneg [OF assms(3)]
      total_update [OF assms(1,2)] by simp
qed

section \<open>The books\<close>

text \<open>
  What one job contributes to the counters of its queue and its users, and what
  each of its slots contributes to the counters of the host it is on.
\<close>

definition job_cnts :: "uint32 \<Rightarrow> int \<Rightarrow> int \<Rightarrow> cnts" where
  "job_cnts st num numReq =
     (if IS_PEND st
      then (if has st JOB_STAT_RESERVE then Cnts numReq (numReq - num) 0 0 0 num
            else Cnts numReq numReq 0 0 0 0)
      else if has st JOB_STAT_RUN then Cnts num 0 num 0 0 0
      else if has st JOB_STAT_SSUSP
      then (if has st JOB_STAT_RESERVE then Cnts num 0 0 0 0 num else Cnts num 0 0 num 0 0)
      else if has st JOB_STAT_USUSP
      then (if has st JOB_STAT_RESERVE then Cnts num 0 0 0 0 num else Cnts num 0 0 0 num 0)
      else 0)"

definition slot_cnts :: "uint32 \<Rightarrow> cnts" where
  "slot_cnts st =
     (if IS_PEND st then (if has st JOB_STAT_RESERVE then Cnts 1 0 0 0 0 1 else 0)
      else job_cnts st 1 1)"

definition jcn :: "mbd \<Rightarrow> addr \<Rightarrow> cnts" where
  "jcn s j = job_cnts (jStatus (jD s j)) (numHostPtr (jD s j))
     (jb_maxNumProcessors (jobBill (shD s (shared (jD s j)))))"

definition scn :: "mbd \<Rightarrow> addr \<Rightarrow> cnts" where
  "scn s j = slot_cnts (jStatus (jD s j))"

definition job_users :: "mbd \<Rightarrow> addr \<Rightarrow> addr list" where
  "job_users s j = charged_users s (uPtr (jD s j))"

definition local_hosts :: "mbd \<Rightarrow> addr \<Rightarrow> addr list" where
  "local_hosts s j = filter (\<lambda>h. \<not> remote s h) (takeWhile (\<lambda>h. h \<noteq> NULL) (job_hosts (jD s j)))"

definition books_with :: "addr set \<Rightarrow> (addr \<Rightarrow> cnts) \<Rightarrow> (addr \<Rightarrow> cnts) \<Rightarrow> mbd \<Rightarrow> bool" where
  "books_with J jc sc s \<longleftrightarrow>
     qcn s = total J (\<lambda>i. [qPtr (jD s i)]) jc \<and>
     ucn s = total J (job_users s) jc \<and>
     hcn s = total J (local_hosts s) sc"

text \<open>The counters of all queues, users and hosts are the sums over the jobs.\<close>

definition books :: "addr set \<Rightarrow> mbd \<Rightarrow> bool" where
  "books J s \<longleftrightarrow> books_with J (jcn s) (scn s) s"

text \<open>What the accounting needs of the jobs it keeps.\<close>

definition job_ok :: "mbd \<Rightarrow> addr \<Rightarrow> bool" where
  "job_ok s j \<longleftrightarrow> 0 \<le> numHostPtr (jD s j) \<and>
     numHostPtr (jD s j) \<le> jb_maxNumProcessors (jobBill (shD s (shared (jD s j)))) \<and>
     user_ready s (uPtr (jD s j))"

lemma job_cnts_nonneg: "0 \<le> num \<Longrightarrow> num \<le> numReq \<Longrightarrow> 0 \<le> job_cnts st num numReq"
  by (auto simp: job_cnts_def cnts_defs)

lemma slot_cnts_nonneg: "0 \<le> slot_cnts st"
  using job_cnts_nonneg [of 1 1 st] by (auto simp: slot_cnts_def cnts_defs)

lemma jcn_nonneg: "job_ok s j \<Longrightarrow> 0 \<le> jcn s j"
  by (simp add: jcn_def job_ok_def job_cnts_nonneg)

lemma scn_nonneg: "0 \<le> scn s j"
  by (simp add: scn_def slot_cnts_nonneg)

lemma frame_views:
  assumes "frame s s'"
  shows "jcn s' = jcn s" "scn s' = scn s" "job_users s' = job_users s" "local_hosts s' = local_hosts s"
    "jD s' = jD s" "job_ok s' = job_ok s"
  using assms
  by (simp_all add: frame_def fun_eq_iff jcn_def scn_def job_users_def charged_users_def local_hosts_def
      job_ok_def user_ready_def)

section \<open>Charging a change keeps the books\<close>

lemma books_with_frame:
  assumes "frame s s'" and "qcn s' = charge d (qcn s) [qPtr (jD s j)]"
    and "ucn s' = charge d (ucn s) (job_users s j)" and "hcn s' = charge e (hcn s) (local_hosts s j)"
    and "books_with J jc sc s" and "finite J" and "j \<in> J"
    and "\<forall>i \<in> J. 0 \<le> jc i \<and> 0 \<le> sc i" and "0 \<le> jc j + d" and "0 \<le> sc j + e"
  shows "books_with J (jc(j := jc j + d)) (sc(j := sc j + e)) s'"
proof -
  note v = frame_views [OF assms(1)]
  have jc: "\<forall>i \<in> J. 0 \<le> jc i" and sc: "\<forall>i \<in> J. 0 \<le> sc i" using assms(8) by auto
  show ?thesis
    using assms(2-5) charge_total [OF assms(6,7) jc assms(9), of "\<lambda>i. [qPtr (jD s i)]"]
      charge_total [OF assms(6,7) jc assms(9), of "job_users s"]
      charge_total [OF assms(6,7) sc assms(10), of "local_hosts s"]
    by (simp only: books_with_def v)
qed

lemma updHostData_cnts:
  "frame s (updHostData b jp hJ hR hS hU hV s) \<and> qcn (updHostData b jp hJ hR hS hU hV s) = qcn s \<and>
   ucn (updHostData b jp hJ hR hS hU hV s) = ucn s \<and>
   hcn (updHostData b jp hJ hR hS hU hV s) = charge (Cnts hJ 0 hR hS hU hV) (hcn s) (local_hosts s jp)"
  using updHostDataLoop_cnts [of s jp "Cnts hJ 0 hR hS hU hV" "job_hosts (jD s jp)"]
  by (simp add: updHostData_def local_hosts_def)

lemma user_ready_frame: "frame s s' \<Longrightarrow> user_ready s' = user_ready s"
  by (simp add: frame_def user_ready_def fun_eq_iff)

lemma acct_QUH_cnts:
  assumes "user_ready s (uPtr (jD s jp))"
  shows "frame s (acct_QUH jp d b hJ hR hS hU hV s) \<and>
    qcn (acct_QUH jp d b hJ hR hS hU hV s) = charge d (qcn s) [qPtr (jD s jp)] \<and>
    ucn (acct_QUH jp d b hJ hR hS hU hV s) = charge d (ucn s) (job_users s jp) \<and>
    hcn (acct_QUH jp d b hJ hR hS hU hV s) = charge (Cnts hJ 0 hR hS hU hV) (hcn s) (local_hosts s jp)"
proof -
  define s1 where "s1 = updQaccount jp d s"
  define s2 where "s2 = updUserData jp d s1"
  have q: "frame s s1" "ucn s1 = ucn s" "hcn s1 = hcn s"
    "qcn s1 = charge d (qcn s) [qPtr (jD s jp)]"
    using updQaccount_cnts [of s jp d] by (simp_all add: s1_def)
  note v1 = frame_views [OF q(1)]
  have r: "user_ready s1 (uPtr (jD s1 jp))" using assms v1(5) user_ready_frame [OF q(1)] by simp
  have u: "frame s1 s2" "qcn s2 = qcn s1" "hcn s2 = hcn s1"
    "ucn s2 = charge d (ucn s1) (job_users s1 jp)"
    using updUserData_cnts [OF r, of d] by (simp_all add: s2_def job_users_def)
  note v2 = frame_views [OF u(1)]
  show ?thesis
    unfolding acct_QUH_def s1_def [symmetric] s2_def [symmetric]
    using updHostData_cnts [of s2 b jp hJ hR hS hU hV] frame_trans [OF frame_trans [OF q(1) u(1)]]
    by (simp only: q(2-4) u(2-4) v1 v2)
qed

lemma acct_QHU_cnts:
  assumes "user_ready s (uPtr (jD s jp))"
  shows "frame s (acct_QHU jp d b hJ hR hS hU hV s) \<and>
    qcn (acct_QHU jp d b hJ hR hS hU hV s) = charge d (qcn s) [qPtr (jD s jp)] \<and>
    ucn (acct_QHU jp d b hJ hR hS hU hV s) = charge d (ucn s) (job_users s jp) \<and>
    hcn (acct_QHU jp d b hJ hR hS hU hV s) = charge (Cnts hJ 0 hR hS hU hV) (hcn s) (local_hosts s jp)"
proof -
  define s1 where "s1 = updQaccount jp d s"
  define s2 where "s2 = updHostData b jp hJ hR hS hU hV s1"
  have q: "frame s s1" "ucn s1 = ucn s" "hcn s1 = hcn s"
    "qcn s1 = charge d (qcn s) [qPtr (jD s jp)]"
    using updQaccount_cnts [of s jp d] by (simp_all add: s1_def)
  note v1 = frame_views [OF q(1)]
  have h: "frame s1 s2" "qcn s2 = qcn s1" "ucn s2 = ucn s1"
    "hcn s2 = charge (Cnts hJ 0 hR hS hU hV) (hcn s1) (local_hosts s1 jp)"
    using updHostData_cnts [of s1 b jp hJ hR hS hU hV] by (simp_all add: s2_def)
  note v2 = frame_views [OF h(1)]
  have r: "user_ready s2 (uPtr (jD s2 jp))"
    using assms v1(5) v2(5) user_ready_frame [OF q(1)] user_ready_frame [OF h(1)] by simp
  show ?thesis
    unfolding acct_QHU_def s1_def [symmetric] s2_def [symmetric]
    using updUserData_cnts [OF r, of d, folded job_users_def] frame_trans [OF frame_trans [OF q(1) h(1)]]
    by (simp only: q(2-4) h(2-4) v1 v2)
qed

lemma acct_QU_cnts:
  assumes "user_ready s (uPtr (jD s jp))"
  shows "frame s (acct_QU jp d s) \<and> qcn (acct_QU jp d s) = charge d (qcn s) [qPtr (jD s jp)] \<and>
    ucn (acct_QU jp d s) = charge d (ucn s) (job_users s jp) \<and> hcn (acct_QU jp d s) = hcn s"
proof -
  define s1 where "s1 = updQaccount jp d s"
  have q: "frame s s1" "ucn s1 = ucn s" "hcn s1 = hcn s" "qcn s1 = charge d (qcn s) [qPtr (jD s jp)]"
    using updQaccount_cnts [of s jp d] by (simp_all add: s1_def)
  note v1 = frame_views [OF q(1)]
  have r: "user_ready s1 (uPtr (jD s1 jp))" using assms v1(5) user_ready_frame [OF q(1)] by simp
  show ?thesis
    unfolding acct_QU_def s1_def [symmetric]
    using updUserData_cnts [OF r, of d, folded job_users_def] frame_trans [OF q(1)]
    by (simp only: q(2-4) v1)
qed

text \<open>Running \<open>s'\<close> from \<open>s\<close> charges job \<open>j\<close> with \<open>d\<close>, and each of its slots with \<open>e\<close>.\<close>

definition charges :: "addr \<Rightarrow> cnts \<Rightarrow> cnts \<Rightarrow> mbd \<Rightarrow> mbd \<Rightarrow> bool" where
  "charges j d e s s' \<longleftrightarrow> frame s s' \<and> qcn s' = charge d (qcn s) [qPtr (jD s j)] \<and>
     ucn s' = charge d (ucn s) (job_users s j) \<and> hcn s' = charge e (hcn s) (local_hosts s j)"

lemma charges_QUH: "user_ready s (uPtr (jD s j)) \<Longrightarrow> d' = d \<Longrightarrow> Cnts hJ 0 hR hS hU hV = e \<Longrightarrow>
    charges j d e s (acct_QUH j d' b hJ hR hS hU hV s)"
  using acct_QUH_cnts [of s j] by (auto simp: charges_def)

lemma charges_QHU: "user_ready s (uPtr (jD s j)) \<Longrightarrow> d' = d \<Longrightarrow> Cnts hJ 0 hR hS hU hV = e \<Longrightarrow>
    charges j d e s (acct_QHU j d' b hJ hR hS hU hV s)"
  using acct_QHU_cnts [of s j] by (auto simp: charges_def)

lemma addCnts_0: "0 \<le> c \<Longrightarrow> addCnts c 0 = c"
  using addCnts_exact [of c 0] by simp

lemma charge_0: "(\<And>x. 0 \<le> c x) \<Longrightarrow> charge 0 c xs = c"
proof (induction xs)
  case (Cons x xs)
  have "c(x := addCnts (c x) 0) = c" using addCnts_0 [OF Cons.prems] by (simp add: fun_eq_iff)
  with Cons show ?case by simp
qed simp

lemma charges_QU:
  "user_ready s (uPtr (jD s j)) \<Longrightarrow> (\<And>h. 0 \<le> hcn s h) \<Longrightarrow> d' = d \<Longrightarrow> 0 = e \<Longrightarrow>
    charges j d e s (acct_QU j d' s)"
  using acct_QU_cnts [of s j d] by (auto simp: charges_def charge_0)

lemma charges_none:
  assumes "\<And>x. 0 \<le> qcn s x" "\<And>x. 0 \<le> ucn s x" "\<And>x. 0 \<le> hcn s x" and "d = 0" and "e = 0"
  shows "charges j d e s s"
proof -
  have "charge 0 (qcn s) xs = qcn s" "charge 0 (ucn s) xs = ucn s" "charge 0 (hcn s) xs = hcn s" for xs
    using assms charge_0 by blast+
  then show ?thesis by (simp only: charges_def frame_refl assms)
qed

lemma charges_quiet:
  assumes "quiet s s0" and "charges j d e s0 s'"
  shows "charges j d e s s'"
  using assms frame_views [of s s0] frame_trans [of s s0 s']
  by (simp add: charges_def quiet_def same_cnts_def)

lemma charges_then_quiet: "charges j d e s s' \<Longrightarrow> quiet s' s'' \<Longrightarrow> charges j d e s s''"
  using frame_trans [of s s' s''] by (simp add: charges_def quiet_def same_cnts_def)

lemma books_nonneg:
  assumes "books_with J jc sc s" and "\<forall>i \<in> J. 0 \<le> jc i \<and> 0 \<le> sc i"
  shows "0 \<le> qcn s x" and "0 \<le> ucn s x" and "0 \<le> hcn s x"
  using assms total_nonneg by (auto simp: books_with_def)

lemma charges_books:
  assumes "charges j d e s s'" and "books_with J jc sc s" and "finite J" and "j \<in> J"
    and "\<forall>i \<in> J. 0 \<le> jc i \<and> 0 \<le> sc i" and "0 \<le> jc j + d" and "0 \<le> sc j + e"
  shows "books_with J (jc(j := jc j + d)) (sc(j := sc j + e)) s'"
  using assms books_with_frame [of s s' d j e J jc sc] by (simp only: charges_def)

section \<open>Which changes of state are accounted for\<close>

definition accounted :: "uint32 \<Rightarrow> uint32 \<Rightarrow> bool" where
  "accounted old new \<longleftrightarrow>
     stat_ok old \<and> stat_ok new \<and> \<not> has old JOB_STAT_RESERVE \<and> \<not> has new JOB_STAT_RESERVE \<and>
     (IS_PEND old \<and> IS_PEND new \<or>
      has old JOB_STAT_PEND \<and> jstate new \<in> {JOB_STAT_RUN, JOB_STAT_SSUSP, JOB_STAT_USUSP} \<or>
      has old JOB_STAT_PSUSP \<and> jstate new = JOB_STAT_RUN \<or>
      IS_START old \<and>
        jstate new \<in> {JOB_STAT_RUN, JOB_STAT_SSUSP, JOB_STAT_USUSP, JOB_STAT_PEND} \<or>
      has old JOB_STAT_RUN \<and> jstate new = JOB_STAT_RUN OR JOB_STAT_WAIT \<or>
      IS_FINISH new)"

text \<open>
  On an accounted change \<open>updCounters\<close> charges exactly the difference of the
  contributions.
\<close>

definition job_diff :: "uint32 \<Rightarrow> mbd \<Rightarrow> addr \<Rightarrow> cnts" where
  "job_diff old s j = jcn s j - job_cnts old (numHostPtr (jD s j))
     (jb_maxNumProcessors (jobBill (shD s (shared (jD s j)))))"

definition slot_diff :: "uint32 \<Rightarrow> mbd \<Rightarrow> addr \<Rightarrow> cnts" where
  "slot_diff old s j = scn s j - slot_cnts old"

lemma updCounters_charges:
  assumes acc: "accounted old (jStatus (jD s j))"
    and ready: "user_ready s (uPtr (jD s j))"
    and nn: "\<And>x. 0 \<le> qcn s x" "\<And>x. 0 \<le> ucn s x" "\<And>x. 0 \<le> hcn s x"
  shows "charges j (job_diff old s j) (slot_diff old s j) s (updCounters j old et s)"
proof -
  let ?st = "jStatus (jD s j)"
  let ?s0 = "call (Call_detachedJobFromFSTree j) (call (Call_accumHistCpuTime j) s)"
  have ok: "stat_ok old" "stat_ok ?st"
    and nr: "\<not> has old JOB_STAT_RESERVE" "\<not> has ?st JOB_STAT_RESERVE"
    using acc by (simp_all add: accounted_def)
  have q: "quiet s ?s0" using quiet_trans [OF quiet_call quiet_call] .
  have f0: "frame s ?s0" and n0: "\<And>x. 0 \<le> hcn ?s0 x"
    using q nn(3) by (simp_all add: quiet_def same_cnts_def)
  have r0: "user_ready ?s0 (uPtr (jD ?s0 j))"
    using ready user_ready_frame [OF f0] frame_views(5) [OF f0] by simp
  note eval = updCounters_def Let_def job_diff_def slot_diff_def jcn_def scn_def job_cnts_def slot_cnts_def
    accounted_def
  have none: "charges j (Cnts 0 0 0 0 0 0) (Cnts 0 0 0 0 0 0) s s"
    using charges_none [OF nn] by (simp add: zero_cnts_def)
  note hosts = charges_QUH [OF ready] charges_QHU [OF ready] charges_quiet [OF q charges_QHU [OF r0]]
  note no_hosts = charges_QU [OF ready nn(3)] charges_quiet [OF q charges_QU [OF r0 n0]]
  note chg = none hosts no_hosts cnts_defs
  show ?thesis using ok(2)
  proof (cases rule: stat_table)
    case PEND
    from ok(1) acc show ?thesis
      by (cases rule: stat_table) (simp_all add: eval PEND nr, simp_all add: chg)
  next
    case PSUSP
    from ok(1) acc show ?thesis
      by (cases rule: stat_table) (simp_all add: eval PSUSP nr, simp_all add: chg)
  next
    case RUN
    from ok(1) acc show ?thesis
      by (cases rule: stat_table) (simp_all add: eval RUN nr, simp_all add: chg)
  next
    case RWAIT
    from ok(1) acc show ?thesis
      by (cases rule: stat_table) (simp_all add: eval RWAIT nr, simp_all add: chg)
  next
    case SSUSP
    from ok(1) acc show ?thesis
      by (cases rule: stat_table) (simp_all add: eval SSUSP nr, simp_all add: chg)
  next
    case USUSP
    from ok(1) acc show ?thesis
      by (cases rule: stat_table) (simp_all add: eval USUSP nr, simp_all add: chg)
  next
    case EXIT
    from ok(1) acc show ?thesis
      by (cases rule: stat_table) (simp_all add: eval EXIT nr, simp_all add: chg)
  next
    case DONE
    from ok(1) acc show ?thesis
      by (cases rule: stat_table) (simp_all add: eval DONE nr, simp_all add: chg)
  qed
qed

section \<open>The books after a change of status\<close>

definition set_stat :: "addr \<Rightarrow> uint32 \<Rightarrow> mbd \<Rightarrow> mbd" where
  "set_stat j st = upd_j j (\<lambda>x. x\<lparr>jStatus := st\<rparr>)"

definition jobs_ok :: "addr set \<Rightarrow> mbd \<Rightarrow> bool" where
  "jobs_ok J s \<longleftrightarrow> finite J \<and> (\<forall>i \<in> J. job_ok s i)"

abbreviation num_of :: "mbd \<Rightarrow> addr \<Rightarrow> int" where
  "num_of s j \<equiv> numHostPtr (jD s j)"

abbreviation req_of :: "mbd \<Rightarrow> addr \<Rightarrow> int" where
  "req_of s j \<equiv> jb_maxNumProcessors (jobBill (shD s (shared (jD s j))))"

lemma job_hosts_upd [simp]:
  "job_hosts (x\<lparr>jStatus := st\<rparr>) = job_hosts x" "job_hosts (x\<lparr>qPtr := q\<rparr>) = job_hosts x"
  by (simp_all add: job_hosts_def split: option.splits)

lemma set_stat_views:
  "qcn (set_stat j st s) = qcn s" "ucn (set_stat j st s) = ucn s" "hcn (set_stat j st s) = hcn s"
  "job_users (set_stat j st s) = job_users s" "local_hosts (set_stat j st s) = local_hosts s"
  "qPtr (jD (set_stat j st s) i) = qPtr (jD s i)" "jStatus (jD (set_stat j st s) j) = st"
  "job_ok (set_stat j st s) = job_ok s" "jobs_ok J (set_stat j st s) = jobs_ok J s"
  "num_of (set_stat j st s) i = num_of s i" "req_of (set_stat j st s) i = req_of s i"
  "jcn (set_stat j st s) = (jcn s)(j := job_cnts st (num_of s j) (req_of s j))"
  "user_ready (set_stat j st s) = user_ready s" "uPtr (jD (set_stat j st s) i) = uPtr (jD s i)"
  "scn (set_stat j st s) = (scn s)(j := slot_cnts st)"
  by (auto simp: set_stat_def fun_eq_iff qcn_def ucn_def hcn_def job_users_def charged_users_def
      local_hosts_def remote_def ugrps_def uinit_def job_ok_def jobs_ok_def user_ready_def jcn_def scn_def)

lemma set_stat_books_with: "books_with J jc sc (set_stat j st s) = books_with J jc sc s"
  by (simp add: books_with_def set_stat_views)

lemma set_queue_views:
  "qcn (set_queue j q s) = qcn s" "ucn (set_queue j q s) = ucn s" "hcn (set_queue j q s) = hcn s"
  "job_users (set_queue j q s) = job_users s" "local_hosts (set_queue j q s) = local_hosts s"
  "jStatus (jD (set_queue j q s) i) = jStatus (jD s i)" "qPtr (jD (set_queue j q s) j) = q"
  "job_ok (set_queue j q s) = job_ok s" "jobs_ok J (set_queue j q s) = jobs_ok J s"
  "num_of (set_queue j q s) i = num_of s i" "req_of (set_queue j q s) i = req_of s i"
  "jcn (set_queue j q s) = jcn s" "user_ready (set_queue j q s) = user_ready s" "uPtr (jD (set_queue j q s) i) = uPtr (jD s i)"
  "scn (set_queue j q s) = scn s"
  by (auto simp: set_queue_def fun_eq_iff qcn_def ucn_def hcn_def job_users_def charged_users_def
      local_hosts_def remote_def ugrps_def uinit_def job_ok_def jobs_ok_def user_ready_def jcn_def scn_def)

lemma set_queue_same:
  assumes "qPtr (jD s j) = q"
  shows "set_queue j q s = s"
proof -
  have "(jD s j)\<lparr>qPtr := q\<rparr> = jD s j" using assms by (cases "jD s j") simp
  then show ?thesis by (simp add: set_queue_def upd_j_def)
qed

text \<open>A job that contributes nothing can change its queue.\<close>

lemma set_queue_books_with:
  assumes "books_with J jc sc s" and "jc j = 0"
  shows "books_with J jc sc (set_queue j q s)"
proof -
  have "total J (\<lambda>i. [qPtr (jD (set_queue j q s) i)]) jc = total J (\<lambda>i. [qPtr (jD s i)]) jc"
    unfolding total_def
    by (intro ext sum.cong refl) (use assms(2) in \<open>auto simp: set_queue_def cscale_def zero_cnts_def\<close>)
  then show ?thesis using assms(1) by (simp add: books_with_def set_queue_views)
qed

lemma jobs_nonneg: "jobs_ok J s \<Longrightarrow> \<forall>i \<in> J. 0 \<le> jcn s i \<and> 0 \<le> scn s i"
  by (simp add: jobs_ok_def jcn_nonneg scn_nonneg)

lemma charges_frame: "charges j d e s s' \<Longrightarrow> frame s s'"
  by (simp add: charges_def)

text \<open>
  The general step: charging the difference between two contributions of a job
  takes books in which it has the first to books in which it has the second.
\<close>

lemma charges_step:
  assumes "charges j (c' - c) (e' - e) s s'" and "books_with J (jc(j := c)) (sc(j := e)) s"
    and "finite J" and "j \<in> J" and "\<forall>i \<in> J. 0 \<le> jc i \<and> 0 \<le> sc i"
    and "0 \<le> c" "0 \<le> c'" "0 \<le> e" "0 \<le> e'"
  shows "books_with J (jc(j := c')) (sc(j := e')) s'"
  using charges_books [OF assms(1-4)] assms(5-9) by simp

lemma updCounters_from:
  assumes ok: "jobs_ok J s" and j: "j \<in> J" and acc: "accounted old (jStatus (jD s j))"
    and b: "books_with J ((jcn s)(j := job_cnts old (num_of s j) (req_of s j)))
      ((scn s)(j := slot_cnts old)) s"
  shows "books J (updCounters j old et s) \<and> frame s (updCounters j old et s)"
proof -
  let ?c = "job_cnts old (num_of s j) (req_of s j)"
  have jok: "job_ok s j" using ok j by (simp add: jobs_ok_def)
  have n: "0 \<le> ?c" "0 \<le> jcn s j" using jok job_cnts_nonneg by (auto simp: job_ok_def jcn_def)
  have n': "\<forall>i \<in> J. 0 \<le> ((jcn s)(j := ?c)) i \<and> 0 \<le> ((scn s)(j := slot_cnts old)) i"
    using jobs_nonneg [OF ok] n slot_cnts_nonneg by simp
  have nn: "\<And>x. 0 \<le> qcn s x" "\<And>x. 0 \<le> ucn s x" "\<And>x. 0 \<le> hcn s x"
    using books_nonneg [OF b n'] by blast+
  have r: "user_ready s (uPtr (jD s j))" using jok by (simp add: job_ok_def)
  have c: "charges j (jcn s j - ?c) (scn s j - slot_cnts old) s (updCounters j old et s)"
    using updCounters_charges [OF acc r nn] by (simp add: job_diff_def slot_diff_def)
  have "books_with J ((jcn s)(j := jcn s j)) ((scn s)(j := scn s j)) (updCounters j old et s)"
    by (rule charges_step [OF c])
      (use b ok j jobs_nonneg [OF ok] n in \<open>simp_all add: jobs_ok_def slot_cnts_nonneg scn_nonneg\<close>)
  then show ?thesis using frame_views [OF charges_frame [OF c]] charges_frame [OF c] by (simp add: books_def)
qed

lemma updCounters_step:
  assumes ok: "jobs_ok J s" and j: "j \<in> J" and b: "books J s" and acc: "accounted (jStatus (jD s j)) st"
  shows "books J (updCounters j (jStatus (jD s j)) et (set_stat j st s))"
proof -
  have "books_with J (jcn s) (scn s) (set_stat j st s)" using b by (simp add: books_def set_stat_books_with)
  moreover have "(jcn s)(j := job_cnts (jStatus (jD s j)) (num_of s j) (req_of s j)) = jcn s"
    "(scn s)(j := slot_cnts (jStatus (jD s j))) = scn s"
    by (simp_all add: fun_eq_iff jcn_def scn_def)
  ultimately show ?thesis
    using updCounters_from [of J "set_stat j st s" j "jStatus (jD s j)" et] ok j acc
    by (simp add: set_stat_views)
qed

section \<open>The books after a reservation\<close>

definition reservable :: "uint32 \<Rightarrow> uint32 \<Rightarrow> bool" where
  "reservable old new \<longleftrightarrow> stat_ok old \<and> stat_ok new \<and> \<not> has old JOB_STAT_RUN \<and> \<not> IS_FINISH old \<and>
     (jstate new = jstate old \<or> has old JOB_STAT_RESERVE \<and> IS_FINISH new)"

lemma updResCounters_charges:
  assumes acc: "reservable (jStatus (jD s j)) new"
    and ready: "user_ready s (uPtr (jD s j))"
    and nn: "\<And>x. 0 \<le> qcn s x" "\<And>x. 0 \<le> ucn s x" "\<And>x. 0 \<le> hcn s x"
  shows "charges j (job_cnts new (num_of s j) (req_of s j) - jcn s j) (slot_cnts new - scn s j) s
    (updResCounters j new s)"
proof -
  let ?st = "jStatus (jD s j)"
  have ok: "stat_ok ?st" "stat_ok new" using acc by (simp_all add: reservable_def)
  have none: "charges j (Cnts 0 0 0 0 0 0) (Cnts 0 0 0 0 0 0) s s"
    using charges_none [OF nn] by (simp add: zero_cnts_def)
  have called: "charges j d e s s' \<Longrightarrow> charges j d e s (call c s')" for d e s' c
    using charges_then_quiet quiet_call by blast
  note eval = updResCounters_def Let_def jcn_def scn_def job_cnts_def slot_cnts_def reservable_def
  note chg = none charges_QUH [OF ready] charges_QHU [OF ready] called cnts_defs
  show ?thesis using ok(1)
  proof (cases rule: stat_table)
    case PEND
    from ok(2) acc show ?thesis
      by (cases rule: stat_table) (simp_all add: eval PEND, auto simp: chg)
  next
    case PSUSP
    from ok(2) acc show ?thesis
      by (cases rule: stat_table) (simp_all add: eval PSUSP, auto simp: chg)
  next
    case SSUSP
    from ok(2) acc show ?thesis
      by (cases rule: stat_table) (simp_all add: eval SSUSP, auto simp: chg)
  next
    case USUSP
    from ok(2) acc show ?thesis
      by (cases rule: stat_table) (simp_all add: eval USUSP, auto simp: chg)
  qed (use acc in \<open>simp_all add: reservable_def\<close>)
qed

text \<open>A charged difference of contributions, from balanced books.\<close>

lemma charges_jcn:
  assumes ok: "jobs_ok J s" and j: "j \<in> J" and b: "books J s"
    and c: "charges j (job_cnts st (num_of s j) (req_of s j) - jcn s j) (slot_cnts st - scn s j) s s'"
  shows "books J (set_stat j st s')"
proof -
  have jok: "job_ok s j" using ok j by (simp add: jobs_ok_def)
  have n': "0 \<le> job_cnts st (num_of s j) (req_of s j)" "0 \<le> jcn s j"
    using jok job_cnts_nonneg by (auto simp: job_ok_def jcn_def)
  note v = frame_views [OF charges_frame [OF c]]
  have sh: "shD s' = shD s" using charges_frame [OF c] by (simp add: frame_def)
  have "books_with J ((jcn s)(j := job_cnts st (num_of s j) (req_of s j))) ((scn s)(j := slot_cnts st)) s'"
    by (rule charges_step [OF c])
      (use b ok j jobs_nonneg [OF ok] n' in \<open>simp_all add: jobs_ok_def slot_cnts_nonneg scn_nonneg books_def\<close>)
  then show ?thesis by (simp add: books_def set_stat_views set_stat_books_with v sh)
qed

lemma updResCounters_step:
  assumes ok: "jobs_ok J s" and j: "j \<in> J" and b: "books J s" and acc: "reservable (jStatus (jD s j)) new"
  shows "books J (set_stat j new (updResCounters j new s)) \<and> frame s (updResCounters j new s)"
proof -
  have bw: "books_with J (jcn s) (scn s) s" using b by (simp add: books_def)
  have r: "user_ready s (uPtr (jD s j))" using ok j by (simp add: jobs_ok_def job_ok_def)
  have c: "charges j (job_cnts new (num_of s j) (req_of s j) - jcn s j) (slot_cnts new - scn s j) s
    (updResCounters j new s)"
    by (rule updResCounters_charges [OF acc r]) (use books_nonneg [OF bw jobs_nonneg [OF ok]] in blast)+
  then show ?thesis using charges_jcn [OF ok j b c] charges_frame by blast
qed

section \<open>The books after a change of queue\<close>

lemma frame_set_queue: "frame s t \<Longrightarrow> frame (set_queue j q s) (set_queue j q t)"
  by (simp add: frame_def set_queue_def proj_defs)

lemma frame_user_ready: "frame s t \<Longrightarrow> job_ok s j \<Longrightarrow> user_ready t (uPtr (jD t j))"
  using frame_views(6) [of s t] by (simp add: job_ok_def fun_eq_iff) (metis frame_views(5) user_ready_frame)

lemma switchCharge_step:
  assumes ok: "jobs_ok J s" and j: "j \<in> J" and b: "books J s" and s: "set_queue j qfp s0 = s"
    and stage: "mSchedStage s \<noteq> M_STAGE_REPLAY"
    and leave: "charges j (- jcn s j) (- scn s j) s (leave s)"
    and enter: "\<And>t. frame (set_queue j qtp s) t \<Longrightarrow> (\<And>x. 0 \<le> hcn t x) \<Longrightarrow>
      charges j (jcn s j) (scn s j) t (enter t)"
  shows "books J (switchCharge j qfp qtp leave enter s0) \<and>
    frame (set_queue j qtp s) (switchCharge j qfp qtp leave enter s0)"
proof -
  let ?jc = "(jcn s)(j := 0)" and ?sc = "(scn s)(j := 0)"
  define s2 where "s2 = set_queue j qtp (leave s)"
  have eq: "switchCharge j qfp qtp leave enter s0 = enter s2"
    using s stage by (auto simp: switchCharge_def Let_def s2_def set_queue_def)
  have f: "frame (set_queue j qtp s) s2"
    using frame_set_queue [OF charges_frame [OF leave]] by (simp add: s2_def)
  have n: "\<forall>i \<in> J. 0 \<le> jcn s i \<and> 0 \<le> scn s i" and nj: "0 \<le> jcn s j" "0 \<le> scn s j"
    using jobs_nonneg [OF ok] j by auto
  have "books_with J ?jc ?sc (leave s)"
    by (rule charges_step [of j 0 "jcn s j" 0 "scn s j" s]) (use leave b ok j n nj in \<open>simp_all add: books_def jobs_ok_def\<close>)
  then have b2: "books_with J ?jc ?sc s2" by (simp add: s2_def set_queue_books_with)
  have "0 \<le> hcn s2 x" for x using books_nonneg [OF b2] n by simp
  then have c: "charges j (jcn s j) (scn s j) s2 (enter s2)" using enter [OF f] by blast
  have "books_with J ((jcn s)(j := jcn s j)) ((scn s)(j := scn s j)) (enter s2)"
    by (rule charges_step [of j _ 0 _ 0 s2]) (use b2 c ok j n nj in \<open>simp_all add: jobs_ok_def\<close>)
  moreover have fr: "frame (set_queue j qtp s) (enter s2)" using f charges_frame [OF c] by (rule frame_trans)
  ultimately show ?thesis
    using frame_views(1,2) [OF fr] by (simp add: eq books_def set_queue_views)
qed

definition switchable :: "uint32 \<Rightarrow> bool" where
  "switchable st \<longleftrightarrow> MASK_STATUS st \<in> {JOB_STAT_PEND, JOB_STAT_PSUSP, JOB_STAT_RUN,
     JOB_STAT_RUN OR JOB_STAT_UNKWN, JOB_STAT_SSUSP, JOB_STAT_SSUSP OR JOB_STAT_UNKWN,
     JOB_STAT_USUSP, JOB_STAT_USUSP OR JOB_STAT_UNKWN}"

lemma jstate_of_MASK: "jstate st = MASK_STATUS st AND NOT JOB_STAT_UNKWN"
  by (simp add: jstate_def MASK_STATUS_def stat_consts and.assoc)

lemma switchable_jstate: "switchable st \<Longrightarrow> stat_ok st \<and> \<not> has st JOB_STAT_WAIT \<and> \<not> IS_FINISH st"
  by (auto simp: switchable_def stat_ok_def job_states_def jstate_of_MASK stat_preds stat_simps, auto simp: stat_consts)

lemma contribution:
  assumes "\<not> has st JOB_STAT_RESERVE"
  shows "jstate st = JOB_STAT_PEND \<or> jstate st = JOB_STAT_PSUSP \<Longrightarrow>
      job_cnts st n r = Cnts r r 0 0 0 0 \<and> slot_cnts st = Cnts 0 0 0 0 0 0"
    and "jstate st = JOB_STAT_RUN \<Longrightarrow> job_cnts st n r = Cnts n 0 n 0 0 0 \<and> slot_cnts st = Cnts 1 0 1 0 0 0"
    and "jstate st = JOB_STAT_SSUSP \<Longrightarrow> job_cnts st n r = Cnts n 0 0 n 0 0 \<and> slot_cnts st = Cnts 1 0 0 1 0 0"
    and "jstate st = JOB_STAT_USUSP \<Longrightarrow> job_cnts st n r = Cnts n 0 0 0 n 0 \<and> slot_cnts st = Cnts 1 0 0 0 1 0"
  using assms
  by (auto simp: job_cnts_def slot_cnts_def stat_preds stat_simps zero_cnts_def) (simp_all add: stat_consts)

lemma jstate_MASK_cases:
  "MASK_STATUS st = JOB_STAT_PEND \<Longrightarrow> jstate st = JOB_STAT_PEND"
  "MASK_STATUS st = JOB_STAT_PSUSP \<Longrightarrow> jstate st = JOB_STAT_PSUSP"
  "MASK_STATUS st = JOB_STAT_RUN \<or> MASK_STATUS st = JOB_STAT_RUN OR JOB_STAT_UNKWN \<Longrightarrow> jstate st = JOB_STAT_RUN"
  "MASK_STATUS st = JOB_STAT_SSUSP \<or> MASK_STATUS st = JOB_STAT_SSUSP OR JOB_STAT_UNKWN \<Longrightarrow> jstate st = JOB_STAT_SSUSP"
  "MASK_STATUS st = JOB_STAT_USUSP \<or> MASK_STATUS st = JOB_STAT_USUSP OR JOB_STAT_UNKWN \<Longrightarrow> jstate st = JOB_STAT_USUSP"
  by (auto simp: jstate_of_MASK stat_consts)

lemma switchMove_step:
  assumes ok: "jobs_ok J s" and j: "j \<in> J" and b: "books J s" and s: "set_queue j qfp s0 = s"
    and stage: "mSchedStage s \<noteq> M_STAGE_REPLAY"
    and st: "switchable (jStatus (jD s j))" "\<not> has (jStatus (jD s j)) JOB_STAT_RESERVE"
    and req: "oldNumReq = req_of s j"
  shows "books J (switchMove j qfp qtp oldNumReq s0) \<and>
    frame (set_queue j qtp s) (switchMove j qfp qtp oldNumReq s0)"
proof -
  have jok: "job_ok s j" using ok j by (simp add: jobs_ok_def)
  have bw: "books_with J (jcn s) (scn s) s" using b by (simp add: books_def)
  have hn: "0 \<le> hcn s x" for x using books_nonneg [OF bw jobs_nonneg [OF ok]] by blast
  have r: "user_ready s (uPtr (jD s j))" using jok by (simp add: job_ok_def)
  have r': "user_ready t (uPtr (jD t j))" if "frame (set_queue j qtp s) t" for t
    using frame_user_ready [OF that] jok by (simp add: set_queue_views)
  have v: "num_of s0 j = num_of s j" "req_of s0 j = req_of s j" "jStatus (jD s0 j) = jStatus (jD s j)"
    by (simp_all add: s [symmetric] set_queue_views)
  let ?m = "MASK_STATUS (jStatus (jD s j))" and ?n = "num_of s j" and ?r = "req_of s j"
  note move = switchMove_def Let_def v req
  note step = switchCharge_step [OF ok j b s stage]
  note chg = charges_QU [OF r hn] charges_QHU [OF r] charges_QU [OF r'] charges_QHU [OF r'] cnts_defs
  consider "?m = JOB_STAT_PEND \<or> ?m = JOB_STAT_PSUSP" | "?m = JOB_STAT_RUN \<or> ?m = JOB_STAT_RUN OR JOB_STAT_UNKWN"
    | "?m = JOB_STAT_SSUSP \<or> ?m = JOB_STAT_SSUSP OR JOB_STAT_UNKWN"
    | "?m = JOB_STAT_USUSP \<or> ?m = JOB_STAT_USUSP OR JOB_STAT_UNKWN" using st(1) by (auto simp: switchable_def)
  then show ?thesis
  proof cases
    case 1
    have c: "jcn s j = Cnts ?r ?r 0 0 0 0" "scn s j = Cnts 0 0 0 0 0 0"
      using 1 contribution(1) [OF st(2)] jstate_MASK_cases(1,2) unfolding jcn_def scn_def by blast+
    have "switchMove j qfp qtp oldNumReq s0 = switchCharge j qfp qtp
        (acct_QU j (Cnts (- ?r) (- ?r) 0 0 0 0)) (acct_QU j (Cnts ?r ?r 0 0 0 0)) s0"
      using 1 by (auto simp: move)
    then show ?thesis using c by (auto intro!: step simp: chg)
  next
    case 2
    have c: "jcn s j = Cnts ?n 0 ?n 0 0 0" "scn s j = Cnts 1 0 1 0 0 0"
      using contribution(2) [OF st(2) jstate_MASK_cases(3) [OF 2]] unfolding jcn_def scn_def by blast+
    have "switchMove j qfp qtp oldNumReq s0 = switchCharge j qfp qtp
        (acct_QHU j (Cnts (- ?n) 0 (- ?n) 0 0 0) True (-1) (-1) 0 0 0)
        (acct_QHU j (Cnts ?n 0 ?n 0 0 0) True 1 1 0 0 0) s0"
      using 2 by (auto simp: move stat_consts)
    then show ?thesis using c by (auto intro!: step simp: chg)
  next
    case 3
    have c: "jcn s j = Cnts ?n 0 0 ?n 0 0" "scn s j = Cnts 1 0 0 1 0 0"
      using contribution(3) [OF st(2) jstate_MASK_cases(4) [OF 3]] unfolding jcn_def scn_def by blast+
    have "switchMove j qfp qtp oldNumReq s0 = switchCharge j qfp qtp
        (acct_QHU j (Cnts (- ?n) 0 0 (- ?n) 0 0) True (-1) 0 (-1) 0 0)
        (acct_QHU j (Cnts ?n 0 0 ?n 0 0) True 1 0 1 0 0) s0"
      using 3 by (auto simp: move stat_consts)
    then show ?thesis using c by (auto intro!: step simp: chg)
  next
    case 4
    have c: "jcn s j = Cnts ?n 0 0 0 ?n 0" "scn s j = Cnts 1 0 0 0 1 0"
      using contribution(4) [OF st(2) jstate_MASK_cases(5) [OF 4]] unfolding jcn_def scn_def by blast+
    have "switchMove j qfp qtp oldNumReq s0 = switchCharge j qfp qtp
        (acct_QHU j (Cnts (- ?n) 0 0 0 (- ?n) 0) True (-1) 0 0 (-1) 0)
        (acct_QHU j (Cnts ?n 0 0 0 ?n 0) True 1 0 0 1 0) s0"
      using 4 by (auto simp: move stat_consts)
    then show ?thesis using c by (auto intro!: step simp: chg)
  qed
qed

lemma jobs_ok_frame: "frame s t \<Longrightarrow> jobs_ok J t = jobs_ok J s"
  using frame_views(6) by (simp add: jobs_ok_def)

lemma clear_set_bit:
  fixes w :: uint32
  assumes "bit w n"
  shows "w AND NOT (push_bit n 1) OR push_bit n 1 = w"
  by (rule bit_eqI) (use assms in \<open>auto simp: bit_simps\<close>)

lemma clear_set_RESERVE:
  assumes "has st JOB_STAT_RESERVE"
  shows "st AND NOT JOB_STAT_RESERVE OR JOB_STAT_RESERVE = st"
proof -
  have r: "JOB_STAT_RESERVE = push_bit 29 1" by (simp add: stat_flags)
  then have "bit st 29" using assms by (auto simp: has_def bit_iff_and_push_bit_not_eq_0 and.commute)
  then show ?thesis using clear_set_bit [of st 29] by (simp only: r)
qed

lemma switchable_flags:
  "switchable (st AND NOT JOB_STAT_RESERVE) = switchable st"
  by (simp add: switchable_def MASK_STATUS_def stat_flags stat_consts and.assoc)

lemma switchable_reservable:
  assumes "switchable st" and "\<not> has st JOB_STAT_RUN"
  shows "reservable st (st AND NOT JOB_STAT_RESERVE)"
    and "reservable (st AND NOT JOB_STAT_RESERVE) (st AND NOT JOB_STAT_RESERVE OR JOB_STAT_RESERVE)"
  using assms switchable_jstate [OF assms(1)]
  by (simp_all add: reservable_def stat_ok_def stat_preds stat_simps)

lemma set_stat_upd: "upd_j j (\<lambda>x. x\<lparr>jStatus := f (jStatus x)\<rparr>) s = set_stat j (f (jStatus (jD s j))) s"
  by (simp add: set_stat_def upd_j_def)

lemma upd_j_upd_j: "upd_j j f (upd_j j g s) = upd_j j (\<lambda>x. f (g x)) s"
  by (simp add: upd_j_def)

lemma set_stat_queue: "set_stat j st (set_queue j q s) = set_queue j q (set_stat j st s)"
proof -
  have "(x :: jData)\<lparr>qPtr := q, jStatus := st\<rparr> = x\<lparr>jStatus := st, qPtr := q\<rparr>" for x by (cases x) simp
  then have "(\<lambda>x :: jData. x\<lparr>qPtr := q, jStatus := st\<rparr>) = (\<lambda>x. x\<lparr>jStatus := st, qPtr := q\<rparr>)" by (rule ext)
  then show ?thesis unfolding set_stat_def set_queue_def upd_j_upd_j by (rule arg_cong)
qed

lemma set_queue_twice: "set_queue j q (set_queue j q' s) = set_queue j q s"
  by (simp add: set_queue_def upd_j_def)

lemma updSwitchJob_reserved:
  assumes ok: "jobs_ok J s" and j: "j \<in> J" and b: "books J s" and q: "qPtr (jD s j) = qfp"
    and stage: "mSchedStage s \<noteq> M_STAGE_REPLAY"
    and st: "switchable (jStatus (jD s j))" "has (jStatus (jD s j)) JOB_STAT_RESERVE"
      "\<not> has (jStatus (jD s j)) JOB_STAT_RUN"
  shows "books J (updSwitchJob j qfp qtp (req_of s j) s) \<and>
    qPtr (jD (updSwitchJob j qfp qtp (req_of s j) s) j) = qtp \<and>
    jStatus (jD (updSwitchJob j qfp qtp (req_of s j) s) j) = jStatus (jD s j)"
proof -
  let ?old = "jStatus (jD s j)"
  define st' where "st' = ?old AND NOT JOB_STAT_RESERVE"
  define s1 where "s1 = updResCounters j st' s"
  define s1' where "s1' = set_stat j st' s1"
  define s2 where "s2 = switchMove j qfp qtp (req_of s j) (set_queue j qtp s1')"
  have f1: "frame s s1" and b1: "books J s1'"
    using updResCounters_step [OF ok j b switchable_reservable(1) [OF st(1,3)]] by (simp_all add: s1_def s1'_def st'_def)
  note v1 = frame_views [OF f1]
  have sh1: "shD s1 = shD s" "mSchedStage s1 = mSchedStage s" using f1 by (simp_all add: frame_def)
  have "books J s2 \<and> frame (set_queue j qtp s1') s2"
    unfolding s2_def
  proof (rule switchMove_step)
    show "jobs_ok J s1'" using ok by (simp add: s1'_def set_stat_views jobs_ok_frame [OF f1])
    show "set_queue j qfp (set_queue j qtp s1') = s1'"
      using q v1(5) by (simp add: set_queue_twice set_queue_same s1'_def set_stat_views)
    show "mSchedStage s1' \<noteq> M_STAGE_REPLAY" using stage sh1 by (simp add: s1'_def set_stat_def)
    show "switchable (jStatus (jD s1' j))" "\<not> has (jStatus (jD s1' j)) JOB_STAT_RESERVE"
      using st by (simp_all add: s1'_def set_stat_views st'_def switchable_flags stat_simps)
    show "req_of s j = req_of s1' j" using v1 sh1 by (simp add: s1'_def set_stat_views)
  qed (use j b1 in simp_all)
  then have b2: "books J s2" and f2: "frame (set_queue j qtp s1') s2" by blast+
  have j2: "jD s2 = jD (set_queue j qtp s1')" using f2 by (simp add: frame_def)
  have st2: "jStatus (jD s2 j) = st'" by (simp add: j2 set_queue_views s1'_def set_stat_views)
  have ok2: "jobs_ok J s2" using ok by (simp add: jobs_ok_frame [OF f2] set_queue_views s1'_def set_stat_views jobs_ok_frame [OF f1])
  have restored: "st' OR JOB_STAT_RESERVE = ?old" using clear_set_RESERVE [OF st(2)] by (simp add: st'_def)
  have res2: "reservable (jStatus (jD s2 j)) ?old"
    using switchable_reservable(2) [OF st(1,3)] by (simp add: st2 restored [symmetric], simp add: st'_def)
  have b3: "books J (set_stat j ?old (updResCounters j ?old s2))" and f3: "frame s2 (updResCounters j ?old s2)"
    using updResCounters_step [OF ok2 j b2 res2] by blast+
  note v3 = frame_views(5) [OF f3]
  have "updSwitchJob j qfp qtp (req_of s j) s = set_stat j ?old (updResCounters j ?old s2)"
    using set_stat_upd [of j "\<lambda>x. x AND NOT JOB_STAT_RESERVE" "set_queue j qtp s1"]
      set_stat_upd [of j "\<lambda>x. x OR JOB_STAT_RESERVE" "updResCounters j ?old s2"]
    by (simp add: updSwitchJob_def Let_def st(2) set_queue_same [OF q] st'_def [symmetric] s1_def [symmetric]
        set_queue_views v1(5) v3 set_stat_queue s1'_def [symmetric] s2_def [symmetric] st2 restored)
  then show ?thesis
    using b3 j2 by (simp add: set_stat_views v3 set_queue_views)
qed

lemma updSwitchJob_free:
  assumes ok: "jobs_ok J s" and j: "j \<in> J" and b: "books J s" and q: "qPtr (jD s j) = qfp"
    and stage: "mSchedStage s \<noteq> M_STAGE_REPLAY"
    and st: "switchable (jStatus (jD s j))" "\<not> has (jStatus (jD s j)) JOB_STAT_RESERVE"
  shows "books J (updSwitchJob j qfp qtp (req_of s j) s) \<and>
    qPtr (jD (updSwitchJob j qfp qtp (req_of s j) s) j) = qtp \<and>
    jStatus (jD (updSwitchJob j qfp qtp (req_of s j) s) j) = jStatus (jD s j)"
  using switchMove_step [OF ok j b set_queue_same [OF q] stage st refl, of qtp] st(2)
  by (simp add: updSwitchJob_def frame_def set_queue_def)

lemma unaccounted_change:
  assumes ok: "stat_ok (jStatus (jD s j))" "stat_ok st"
    and nr: "\<not> has (jStatus (jD s j)) JOB_STAT_RESERVE" "\<not> has st JOB_STAT_RESERVE"
    and un: "\<not> accounted (jStatus (jD s j)) st" and pos: "0 < num_of s j" "0 < req_of s j"
  shows "updCounters j (jStatus (jD s j)) et (set_stat j st s) = set_stat j st s \<and>
    job_cnts st (num_of s j) (req_of s j) - jcn s j \<noteq> 0"
proof -
  note eval = updCounters_def Let_def set_stat_views jcn_def job_cnts_def accounted_def cnts_defs
  show ?thesis using ok(2)
  proof (cases rule: stat_table)
    case PEND
    from ok(1) un pos show ?thesis
      by (cases rule: stat_table) (simp_all add: eval PEND nr ok)
  next
    case PSUSP
    from ok(1) un pos show ?thesis
      by (cases rule: stat_table) (simp_all add: eval PSUSP nr ok)
  next
    case RUN
    from ok(1) un pos show ?thesis
      by (cases rule: stat_table) (simp_all add: eval RUN nr ok)
  next
    case RWAIT
    from ok(1) un pos show ?thesis
      by (cases rule: stat_table) (simp_all add: eval RWAIT nr ok)
  next
    case SSUSP
    from ok(1) un pos show ?thesis
      by (cases rule: stat_table) (simp_all add: eval SSUSP nr ok)
  next
    case USUSP
    from ok(1) un pos show ?thesis
      by (cases rule: stat_table) (simp_all add: eval USUSP nr ok)
  next
    case EXIT
    from ok(1) un pos show ?thesis
      by (cases rule: stat_table) (simp_all add: eval EXIT nr ok)
  next
    case DONE
    from ok(1) un pos show ?thesis
      by (cases rule: stat_table) (simp_all add: eval DONE nr ok)
  qed
qed

section \<open>A small cluster\<close>

text \<open>
  One queue (2), one user (3), one host (4) and one job (6) with submission
  data at 5, in status \<open>st\<close>, asking for two slots and placed on one.
\<close>

definition qData1 :: "cnts \<Rightarrow> qData" where
  "qData1 c = \<lparr>queue = ''normal'', priority = 30, posId = 1, qAttrib = 0, q_maxJobs = INFINIT_INT,
     q_uJobLimit = INFINIT_INT, q_hJobLimit = INFINIT_INT, q_pJobLimit = INFINIT_FLOAT, q_cnts = c,
     q_uAcct = None, q_hAcct = None, q_reasonTb = (\<lambda>_. 0), q_flags = 0,
     q_numUsable = 0, q_slotHoldTime = 0, suspendActCmd = [], resumeActCmd = [], sigMap = (\<lambda>_. 0)\<rparr>"

definition uData1 :: "cnts \<Rightarrow> uData" where
  "uData1 c = initUData\<lparr>user := ''ann'', u_cnts := c\<rparr>"

definition hData1 :: "cnts \<Rightarrow> hData" where
  "hData1 c = \<lparr>host = ''h1'', hostId = 1, h_numCPUs = 4, h_hStatus = 0, h_limUnavail = False,
     h_uJobLimit = INFINIT_INT, h_uAcct = None, h_maxJobs = 4, h_cnts = c, h_numDispJobs = 0, h_acceptTime = 0, h_chkSig = 0\<rparr>"

definition jShared1 :: jShared where
  "jShared1 = \<lparr>jobBill = \<lparr>jb_options = 0, jb_options2 = 0, jb_queue = ''normal'', jb_numProcessors = 1,
     jb_maxNumProcessors = 2, jb_submitTime = 0, jb_userPriority = 0, jb_dependCond = [], jb_jobName = [], jb_command = ''sleep'', jb_restartPid = 0\<rparr>, dptRoot = NULL\<rparr>"

definition jData1 :: "uint32 \<Rightarrow> jData" where
  "jData1 st = \<lparr>userId = 100, userName = ''ann'', uPtr = 3, jobId = 101, jStatus = st, updStateTime = 0,
     jFlags = 0, newReason = 0, j_oldReason = 0, subreasons = 0, qPtr = 2, hPtr = Some [4], numHostPtr = 1, reserveTime = 0,
     startTime = 0, resumeTime = 0, runCount = 0, runTime = 0, endTime = 0, requeueTime = 0,
     pendEvent = \<lparr>notSwitched = False, pe_sig = -1, pe_sig1 = -1, pe_sig1Flags = 0, pe_sigDel = 0, notModified = False\<rparr>,
     ssuspTime = 0, newSub = None, exitStatus = 0, shared = 5, chkpntPeriod = 0, jobPriority = -1,
     cpuTime = 0, jobPid = 0, jobPGid = 0, actPid = 0, sigValue = 0, dispCount = 0, restartPid = 0, sa = NULL, jgrpNode = NULL, nodeType = JGRP_NODE_JOB,
     nextJob = NULL, slotHoldTime = 0, processed = 0, numEligProc = 0, execCandPtr = []\<rparr>"

definition jgNode1 :: jgTreeNode where
  "jgNode1 = \<lparr>g_parent = NULL, g_child = NULL, g_left = NULL, g_right = NULL, g_nodeType = JGRP_NODE_GROUP, g_name = ''/'',
     g_job = NULL, g_counts = (\<lambda>_. 0), g_userId = 0, g_userName = ''lsfadmin'', g_fromPlatform = 0, g_jobArray = NULL, g_maxJLimit = 0\<rparr>"

definition jgrp1 :: jgrp where
  "jgrp1 = \<lparr>jgD = (\<lambda>_. jgNode1), groupRoot = 20, depEntry = 20\<rparr>"

definition mbd1 :: "uint32 \<Rightarrow> mbd" where
  "mbd1 st = \<lparr>qD = (\<lambda>a. qData1 (if a = 2 then job_cnts st 1 2 else 0)),
     uD = (\<lambda>a. uData1 (if a = 3 then job_cnts st 1 2 else 0)),
     hD = (\<lambda>a. hData1 (if a = 4 then slot_cnts st else 0)),
     jD = (\<lambda>_. jData1 st), shD = (\<lambda>_. jShared1), hReasonTb = (\<lambda>_. 0), qDataList = [2],
     uDataList = h_initTab 61, usergroups = [], uDataPtrTb = [], allUsersSet = uset_new,
     uGrpAllSet = uset_new, defaultLimitIgnoreUserGroup = False, nextAddr = 100, mSchedStage = 0,
     jDataList = (\<lambda>_. []), pendJobSlots = 0,
     jobIdHT = Map.empty, sbdJobs = [], nSbdConnections = 0, jg = jgrp1, qAttributes = 0, msleeptime = 60,
     freedSomeReserveSlot = False, eventPending = False, glMigToPendFlag = False, requeueToBottom = False,
     arraySchedOrder = False, statusChanged = False, maxUserPriority = 0, jobPriorityValue = -1, jobPriorityTime = -1, nextJobId = 1, maxJobId = 999999, clean_period = 3600,
     numRemoveJobs = 0, nowTime = 0, wallClock = 0, askedHostsOk = (\<lambda>_. True), parsedDep = (\<lambda>_. NULL), calls = [], died = False\<rparr>"

lemmas cluster1_defs = mbd1_def qData1_def uData1_def hData1_def jShared1_def jData1_def

lemma mbd1_ok: "jobs_ok {6} (mbd1 st)"
  by (simp add: jobs_ok_def job_ok_def user_ready_def cluster1_defs)

lemma total_single: "total {i} w jc x = cscale (count_list (w i) x) (jc i)"
  by (simp add: total_def)

lemma mbd1_books: "books {6} (mbd1 st)"
proof -
  have h: "local_hosts (mbd1 st) 6 = [4]"
    by (simp add: local_hosts_def job_hosts_def remote_def cluster1_defs has_def)
  have u: "job_users (mbd1 st) 6 = [3]" by (simp add: job_users_def charged_users_def cluster1_defs)
  show ?thesis
    by (simp add: books_def books_with_def fun_eq_iff total_single h u jcn_def scn_def qcn_def ucn_def hcn_def)
      (simp add: cluster1_defs)
qed

section \<open>Properties\<close>

text \<open>
  C19. The books balance through every accounted change of a job's status: if
  the counters of all queues, users, user groups and hosts are the sums of what
  the jobs contribute, they still are after a job's status was set and
  \<open>updCounters\<close> was called with the old one.
\<close>

theorem updCounters_balanced:
  assumes "jobs_ok J s" and "j \<in> J" and "books J s" and "accounted (jStatus (jD s j)) st"
  shows "books J (updCounters j (jStatus (jD s j)) eventTime (set_stat j st s))"
  using updCounters_step [OF assms] by blast

theorem updCounters_balanced_witness:
  "books {6} (mbd1 JOB_STAT_PEND) \<and>
   books {6} (updCounters 6 JOB_STAT_PEND LOG_IT (set_stat 6 JOB_STAT_RUN (mbd1 JOB_STAT_PEND)))"
proof -
  have st: "jStatus (jD (mbd1 JOB_STAT_PEND) 6) = JOB_STAT_PEND" by (simp add: cluster1_defs)
  have "accounted JOB_STAT_PEND JOB_STAT_RUN"
    by (simp add: accounted_def stat_ok_def job_states_def jstate_def MASK_STATUS_def has_def stat_consts stat_flags)
  then show ?thesis
    using updCounters_balanced [of "{6}" "mbd1 JOB_STAT_PEND" 6 JOB_STAT_RUN LOG_IT] mbd1_ok mbd1_books st by simp
qed

text \<open>
  C20. Reserving slots for a pending or suspended job, giving a reservation back,
  and finishing a job with a reservation keep the books: \<open>updResCounters\<close> followed
  by the change of the status moves exactly the job's slots between the
  counters.
\<close>

theorem updResCounters_balanced:
  assumes "jobs_ok J s" and "j \<in> J" and "books J s" and "reservable (jStatus (jD s j)) st"
  shows "books J (set_stat j st (updResCounters j st s))"
  using updResCounters_step [OF assms] by blast

theorem updResCounters_balanced_witness:
  "books {6} (mbd1 JOB_STAT_PEND) \<and>
   books {6} (set_stat 6 (JOB_STAT_PEND OR JOB_STAT_RESERVE)
     (updResCounters 6 (JOB_STAT_PEND OR JOB_STAT_RESERVE) (mbd1 JOB_STAT_PEND)))"
proof -
  have st: "jStatus (jD (mbd1 JOB_STAT_PEND) 6) = JOB_STAT_PEND" by (simp add: cluster1_defs)
  have "reservable JOB_STAT_PEND (JOB_STAT_PEND OR JOB_STAT_RESERVE)"
    by (simp add: reservable_def stat_ok_def job_states_def stat_preds jstate_def MASK_STATUS_def has_def stat_consts stat_flags)
  then show ?thesis
    using updResCounters_balanced [of "{6}" "mbd1 JOB_STAT_PEND" 6 "JOB_STAT_PEND OR JOB_STAT_RESERVE"]
      mbd1_ok mbd1_books st by simp
qed

text \<open>
  C21. Switching a job to another queue moves its contribution there, with its
  reservation if it has one, and leaves the books balanced and its status as it
  was.
\<close>

theorem updSwitchJob_balanced:
  assumes "jobs_ok J s" and "j \<in> J" and "books J s" and "qPtr (jD s j) = qfp"
    and "mSchedStage s \<noteq> M_STAGE_REPLAY" and "switchable (jStatus (jD s j))"
    and "\<not> (has (jStatus (jD s j)) JOB_STAT_RESERVE \<and> has (jStatus (jD s j)) JOB_STAT_RUN)"
  shows "let s' = updSwitchJob j qfp qtp (jb_maxNumProcessors (jobBill (shD s (shared (jD s j))))) s in
    books J s' \<and> qPtr (jD s' j) = qtp \<and> jStatus (jD s' j) = jStatus (jD s j)"
  using updSwitchJob_reserved [OF assms(1-6)] updSwitchJob_free [OF assms(1-6)] assms(7)
  by (auto simp: Let_def)

theorem updSwitchJob_balanced_witness:
  "books {6} (updSwitchJob 6 2 7 2 (mbd1 (JOB_STAT_PEND OR JOB_STAT_RESERVE))) \<and>
   qPtr (jD (updSwitchJob 6 2 7 2 (mbd1 (JOB_STAT_PEND OR JOB_STAT_RESERVE))) 6) = 7"
proof -
  let ?s = "mbd1 (JOB_STAT_PEND OR JOB_STAT_RESERVE)"
  have v: "jStatus (jD ?s 6) = JOB_STAT_PEND OR JOB_STAT_RESERVE" "qPtr (jD ?s 6) = 2"
    "jb_maxNumProcessors (jobBill (shD ?s (shared (jD ?s 6)))) = 2" "mSchedStage ?s \<noteq> M_STAGE_REPLAY"
    by (simp_all add: cluster1_defs M_STAGE_REPLAY_def)
  have "switchable (JOB_STAT_PEND OR JOB_STAT_RESERVE)" "\<not> has (JOB_STAT_PEND OR JOB_STAT_RESERVE) JOB_STAT_RUN"
    by (simp_all add: switchable_def MASK_STATUS_def has_def stat_consts stat_flags)
  then show ?thesis
    using updSwitchJob_balanced [of "{6}" ?s 6 2 7] mbd1_ok mbd1_books v by (simp add: Let_def)
qed

text \<open>
  C22. The changes that \<open>updCounters\<close> has no case for: between well-formed
  unreserved states, a change that is not in \<open>accounted\<close> leaves every counter as
  it was, and the books no longer balance.
\<close>

theorem updCounters_unaccounted:
  assumes "jobs_ok J s" and "j \<in> J" and "books J s" and "0 < numHostPtr (jD s j)"
    and "stat_ok (jStatus (jD s j))" and "stat_ok st" and "\<not> has (jStatus (jD s j)) JOB_STAT_RESERVE"
    and "\<not> has st JOB_STAT_RESERVE" and "\<not> accounted (jStatus (jD s j)) st"
  shows "updCounters j (jStatus (jD s j)) eventTime (set_stat j st s) = set_stat j st s \<and>
    \<not> books J (set_stat j st s)"
proof -
  let ?c = "job_cnts st (num_of s j) (req_of s j)" and ?q = "qPtr (jD s j)"
    and ?w = "\<lambda>i. [qPtr (jD s i)]"
  have fin: "finite J" using assms(1) by (simp add: jobs_ok_def)
  have pos: "0 < num_of s j" "0 < req_of s j" using assms(1,2,4) by (auto simp: jobs_ok_def job_ok_def)
  have same: "updCounters j (jStatus (jD s j)) eventTime (set_stat j st s) = set_stat j st s" and d: "?c - jcn s j \<noteq> 0"
    using unaccounted_change [OF assms(5-9) pos] by blast+
  have "\<not> books J (set_stat j st s)"
  proof
    assume "books J (set_stat j st s)"
    then have "total J ?w ((jcn s)(j := jcn s j + (?c - jcn s j))) ?q = total J ?w (jcn s) ?q"
      using assms(3) by (simp add: books_def books_with_def set_stat_views)
    then have "cscale (count_list (?w j) ?q) (?c - jcn s j) = 0"
      unfolding total_update [OF fin assms(2)] by simp
    then show False using d by simp
  qed
  with same show ?thesis by blast
qed

theorem updCounters_unaccounted_witness:
  "updCounters 6 JOB_STAT_PEND LOG_IT (set_stat 6 (JOB_STAT_RUN OR JOB_STAT_WAIT) (mbd1 JOB_STAT_PEND)) =
     set_stat 6 (JOB_STAT_RUN OR JOB_STAT_WAIT) (mbd1 JOB_STAT_PEND)"
proof -
  have v: "jStatus (jD (mbd1 JOB_STAT_PEND) 6) = JOB_STAT_PEND" "numHostPtr (jD (mbd1 JOB_STAT_PEND) 6) = 1"
    by (simp_all add: cluster1_defs)
  have "\<not> accounted JOB_STAT_PEND (JOB_STAT_RUN OR JOB_STAT_WAIT)"
    "stat_ok JOB_STAT_PEND" "stat_ok (JOB_STAT_RUN OR JOB_STAT_WAIT)"
    "\<not> has JOB_STAT_PEND JOB_STAT_RESERVE" "\<not> has (JOB_STAT_RUN OR JOB_STAT_WAIT) JOB_STAT_RESERVE"
    by (simp_all add: accounted_def stat_ok_def job_states_def stat_preds jstate_def MASK_STATUS_def has_def
        stat_consts stat_flags)
  then show ?thesis
    using updCounters_unaccounted [of "{6}" "mbd1 JOB_STAT_PEND" 6 "JOB_STAT_RUN OR JOB_STAT_WAIT" LOG_IT]
      mbd1_ok mbd1_books v by simp
qed

end
