(* ===== verification/Idx_Lexer.thy ===== *)
theory Idx_Lexer
  imports Mbd_State "HOL-Library.Monad_Syntax"
begin

text \<open>
  The lexical analyser shared by the parsers of index specifications and names
  (\<open>lsf/intlib/cal.l\<close> and the C code made from it, \<open>lsf/intlib/callex.c\<close>): the
  rules, the table of reserved words and its binary search, and \<open>checkNameSpec\<close>.
\<close>

section \<open>Tokens\<close>

definition UNDEF :: int where "UNDEF = 0"
definition ICON_TOK :: int where "ICON_TOK = 1"
definition RCON :: int where "RCON = 2"
definition CCON :: int where "CCON = 3"
definition MON :: int where "MON = 4"
definition TUE :: int where "TUE = 5"
definition WED :: int where "WED = 6"
definition THU :: int where "THU = 7"
definition FRI :: int where "FRI = 8"
definition SAT :: int where "SAT = 9"
definition SUN :: int where "SUN = 10"
definition JAN :: int where "JAN = 11"
definition FEB :: int where "FEB = 12"
definition MAR :: int where "MAR = 13"
definition APR :: int where "APR = 14"
definition MAY :: int where "MAY = 15"
definition JUN :: int where "JUN = 16"
definition JUL :: int where "JUL = 17"
definition AUG :: int where "AUG = 18"
definition SEP :: int where "SEP = 19"
definition OCT :: int where "OCT = 20"
definition NOV :: int where "NOV = 21"
definition DEC :: int where "DEC = 22"
definition YY :: int where "YY = 23"
definition FY :: int where "FY = 24"
definition WEEK :: int where "WEEK = 25"
definition MONTH :: int where "MONTH = 26"
definition QUARTER :: int where "QUARTER = 27"
definition DAYS :: int where "DAYS = 28"
definition OR_TOK :: int where "OR_TOK = 29"
definition AND_TOK :: int where "AND_TOK = 30"
definition LE :: int where "LE = 31"
definition GE :: int where "GE = 32"
definition EQ :: int where "EQ = 33"
definition DOTS :: int where "DOTS = 34"
definition HH :: int where "HH = 35"
definition MM :: int where "MM = 36"
definition ESTRING :: int where "ESTRING = 37"
definition NAME :: int where "NAME = 38"
definition RANGE :: int where "RANGE = 39"
definition DATES :: int where "DATES = 40"
definition SZZZZ :: int where "SZZZZ = 41"

lemmas tok_codes = UNDEF_def ICON_TOK_def RCON_def CCON_def MON_def TUE_def WED_def THU_def FRI_def SAT_def SUN_def
  JAN_def FEB_def MAR_def APR_def MAY_def JUN_def JUL_def AUG_def SEP_def OCT_def NOV_def DEC_def YY_def FY_def
  WEEK_def MONTH_def QUARTER_def DAYS_def OR_TOK_def AND_TOK_def LE_def GE_def EQ_def DOTS_def HH_def MM_def
  ESTRING_def NAME_def RANGE_def DATES_def SZZZZ_def

section \<open>Reserved words\<close>

definition rwtable :: "(string \<times> int) list" where
  "rwtable =
     [(''apr'', APR), (''april'', APR), (''aug'', AUG), (''august'', AUG), (''dates'', DATES), (''day'', DAYS),
      (''dec'', DEC), (''december'', DEC), (''feb'', FEB), (''february'', FEB), (''fri'', FRI), (''friday'', FRI),
      (''fy'', FY), (''h'', HH), (''jan'', JAN), (''january'', JAN), (''jul'', JUL), (''july'', JUL), (''jun'', JUN),
      (''june'', JUN), (''m'', MM), (''mar'', MAR), (''march'', MAR), (''may'', MAY), (''mon'', MON), (''monday'', MON),
      (''month'', MONTH), (''nov'', NOV), (''november'', NOV), (''oct'', OCT), (''october'', OCT), (''quarter'', QUARTER),
      (''range'', RANGE), (''sat'', SAT), (''saturday'', SAT), (''sep'', SEP), (''september'', SEP), (''sun'', SUN),
      (''sunday'', SUN), (''thu'', THU), (''thursday'', THU), (''tue'', TUE), (''tuesday'', TUE), (''wed'', WED),
      (''wednesday'', WED), (''week'', WEEK), (''yy'', YY), (''zzzz'', SZZZZ)]"

text \<open>The sign of \<open>strcmp\<close>, which compares bytes as \<open>unsigned char\<close>.\<close>

fun strcmp :: "string \<Rightarrow> string \<Rightarrow> int" where
  "strcmp [] [] = 0"
| "strcmp [] (_ # _) = -1"
| "strcmp (_ # _) [] = 1"
| "strcmp (a # as) (b # bs) =
     (if (of_char a :: int) < of_char b then -1 else if (of_char b :: int) < of_char a then 1 else strcmp as bs)"

fun END :: "(string \<times> int) list \<Rightarrow> int" where
  "END [] = 0"
| "END (w # ws) = (if strcmp (fst w) ''zzzz'' = 0 then 0 else 1 + END ws)"

definition lower_char :: "char \<Rightarrow> char" where
  "lower_char c = (if 65 \<le> (of_char c :: nat) \<and> (of_char c :: nat) \<le> 90 then char_of ((of_char c :: nat) + 32) else c)"

definition set_lower :: "string \<Rightarrow> string" where
  "set_lower str = map lower_char str"

function screenLoop :: "(string \<times> int) list \<Rightarrow> string \<Rightarrow> int \<Rightarrow> int \<Rightarrow> int option" where
  "screenLoop tab yytext low high =
     (if low \<le> high
      then let mid = low + (high - low) div 2;
               c = strcmp (fst (tab ! nat mid)) yytext
           in if c = 0 then Some (snd (tab ! nat mid))
              else if c < 0 then screenLoop tab yytext (mid + 1) high
              else screenLoop tab yytext low (mid - 1)
      else None)"
  by pat_completeness auto
termination
  by (relation "measure (\<lambda>(_, _, low, high). nat (high - low + 1))") auto

declare screenLoop.simps [simp del]

text \<open>The code of a word and the buffer \<open>token\<close>, which a reserved word leaves alone.\<close>

definition screen :: "string \<Rightarrow> string \<Rightarrow> int \<times> string" where
  "screen token yytext =
     (case screenLoop rwtable (set_lower yytext) 0 (END rwtable) of
        Some c \<Rightarrow> (c, token)
      | None \<Rightarrow> (NAME, yytext))"

section \<open>The rules\<close>

definition is_letter :: "char \<Rightarrow> bool" where
  "is_letter c \<longleftrightarrow> (let n = (of_char c :: nat) in 97 \<le> n \<and> n \<le> 122 \<or> 65 \<le> n \<and> n \<le> 90)"

definition is_digit :: "char \<Rightarrow> bool" where
  "is_digit c \<longleftrightarrow> (let n = (of_char c :: nat) in 48 \<le> n \<and> n \<le> 57)"

definition letter_or_digit :: "char \<Rightarrow> bool" where
  "letter_or_digit c \<longleftrightarrow> is_letter c \<or> is_digit c \<or> c = CHR ''_''"

definition white_space :: "char \<Rightarrow> bool" where
  "white_space c \<longleftrightarrow> c = CHR '' '' \<or> (of_char c :: nat) = 9 \<or> (of_char c :: nat) = 10"

definition eol :: "char \<Rightarrow> bool" where
  "eol c \<longleftrightarrow> (of_char c :: nat) = 10"

definition line :: "string \<Rightarrow> string" where
  "line s = takeWhile (\<lambda>c. \<not> eol c) s"

text \<open>Each rule is given by the length of its longest match, 0 if there is none.\<close>

definition m_lit :: "string \<Rightarrow> string \<Rightarrow> nat" where
  "m_lit l s = (if take (length l) s = l then length l else 0)"

fun m_close :: "string \<Rightarrow> nat" where
  "m_close [] = 0"
| "m_close [_] = 0"
| "m_close (a # b # s) = (if a = CHR ''/'' \<and> b = CHR ''*'' then length s + 2 else m_close (b # s))"

definition m_comment :: "string \<Rightarrow> nat" where
  "m_comment s = (if m_lit ''/*'' s = 0 then 0 else let n = m_close (rev (line (drop 2 s))) in if n = 0 then 0 else n + 2)"

definition m_word :: "string \<Rightarrow> nat" where
  "m_word s = (if s \<noteq> [] \<and> is_letter (hd s) then length (takeWhile letter_or_digit s) else 0)"

definition m_digits :: "string \<Rightarrow> nat" where
  "m_digits s = length (takeWhile is_digit s)"

definition m_real :: "string \<Rightarrow> nat" where
  "m_real s =
     (let n = m_digits s
      in if 0 < n \<and> m_lit ''.'' (drop n s) = 1 then n + 1 + m_digits (drop (n + 1) s) else 0)"

definition m_quoted :: "char \<Rightarrow> string \<Rightarrow> nat" where
  "m_quoted q s =
     (if s \<noteq> [] \<and> hd s = q
      then let n = length (dropWhile (\<lambda>c. c \<noteq> q) (rev (line (tl s)))) in if n = 0 then 0 else n + 1
      else 0)"

definition m_space :: "string \<Rightarrow> nat" where
  "m_space s = length (takeWhile white_space s)"

definition m_other :: "string \<Rightarrow> nat" where
  "m_other s = (if s \<noteq> [] \<and> \<not> eol (hd s) then 1 else 0)"

definition lexRules :: "(string \<Rightarrow> nat) list" where
  "lexRules =
     [m_lit ''#'', m_comment, m_lit ''||'', m_lit ''&&'', m_lit ''<='', m_lit ''>='', m_lit ''=='', m_lit ''..'',
      m_word, m_digits, m_real, m_quoted (char_of (39 :: nat)), m_quoted (char_of (34 :: nat)), m_space, m_other]"

text \<open>The longest match, of the first rule that has it: the number of the rule and the length.\<close>

fun longest :: "nat \<Rightarrow> nat \<times> nat \<Rightarrow> (string \<Rightarrow> nat) list \<Rightarrow> string \<Rightarrow> nat \<times> nat" where
  "longest k best [] s = best"
| "longest k best (m # ms) s = longest (Suc k) (if snd best < m s then (k, m s) else best) ms s"

definition lexMatch :: "string \<Rightarrow> nat \<times> nat" where
  "lexMatch s = longest 1 (0, 0) lexRules s"

text \<open>
  How far the automaton gets before it finds no transition: to the end of the
  line behind a quote or the opening of a comment, otherwise to the end of the match.
\<close>

definition YYLMAX :: nat where "YYLMAX = 200"

definition viable :: "string \<Rightarrow> nat" where
  "viable s =
     (if s \<noteq> [] \<and> (hd s = char_of (39 :: nat) \<or> hd s = char_of (34 :: nat)) \<or> m_lit ''/*'' s = 2
      then length (line s) else snd (lexMatch s))"

text \<open>
  \<open>yylook\<close> stores the characters of that stretch and one more in \<open>yytext\<close>.  The result
  is \<open>None\<close> where they overrun the array, and where one of them is a byte from
  0x80 on, which \<open>getbufc\<close> returns as a negative number: 0xFF as the end of the
  input, the others as an index in front of the tables.
\<close>

definition yylook :: "string \<Rightarrow> (nat \<times> nat) option" where
  "yylook s =
     (if viable s < YYLMAX \<and> (\<forall>c \<in> set (take (viable s + 1) s). (of_char c :: nat) < 128)
      then Some (lexMatch s) else None)"

lemma longest_ge: "snd best \<le> snd (longest k best ms s) \<and> (\<forall>m \<in> set ms. m s \<le> snd (longest k best ms s))"
proof (induction ms arbitrary: k best)
  case (Cons m ms)
  let ?b = "if snd best < m s then (k, m s) else best"
  have "snd best \<le> snd ?b" "m s \<le> snd ?b" by auto
  then show ?case using Cons.IH [of ?b "Suc k"] order_trans by fastforce
qed simp

lemma lexMatch_pos: "s \<noteq> [] \<Longrightarrow> 0 < snd (lexMatch s)"
proof -
  assume s: "s \<noteq> []"
  have g: "m s \<le> snd (lexMatch s)" if "m \<in> set lexRules" for m using longest_ge [of "(0, 0)" 1 lexRules s] that by (simp add: lexMatch_def)
  show ?thesis
  proof (cases "eol (hd s)")
    case True
    then have "0 < m_space s" using s by (cases s) (simp_all add: m_space_def white_space_def eol_def)
    then show ?thesis using g [of m_space] by (simp add: lexRules_def)
  next
    case False
    then show ?thesis using s g [of m_other] by (simp add: lexRules_def m_other_def)
  qed
qed

lemma yylook_pos: "s \<noteq> [] \<Longrightarrow> yylook s = Some (r, n) \<Longrightarrow> 0 < n"
  using lexMatch_pos [of s] by (auto simp: yylook_def split: if_splits)

text \<open>
  The code of the next token (0 at the end), the buffer \<open>token\<close> and the rest of
  the text; \<open>None\<close> where \<open>yylook\<close> leaves its arrays.  Comments only set the line
  number of error messages.
\<close>

function yylex :: "string \<Rightarrow> string \<Rightarrow> (int \<times> string \<times> string) option" where
  "yylex token s =
     (if s = [] then Some (0, token, [])
      else case yylook s of
             None \<Rightarrow> None
           | Some (nstr, n) \<Rightarrow>
               let yytext = take n s; rest = drop n s
               in if nstr = 1 \<or> nstr = 2 \<or> nstr = 14 then yylex token rest
                  else Some
                    (if nstr = 3 then (OR_TOK, token, rest)
                     else if nstr = 4 then (AND_TOK, token, rest)
                     else if nstr = 5 then (LE, token, rest)
                     else if nstr = 6 then (GE, token, rest)
                     else if nstr = 7 then (EQ, token, rest)
                     else if nstr = 8 then (DOTS, token, rest)
                     else if nstr = 9 then (fst (screen token yytext), snd (screen token yytext), rest)
                     else if nstr = 10 then (ICON_TOK, yytext, rest)
                     else if nstr = 11 then (RCON, yytext, rest)
                     else if nstr = 12 \<or> nstr = 13 then (ESTRING, yytext, rest)
                     else (of_char (hd yytext), token, rest)))"
  by pat_completeness auto
termination
proof (relation "measure (\<lambda>(_, s). length s)")
  fix token s :: string and x nstr n yytext rest
  assume "s \<noteq> []" and "yylook s = Some x" and "(nstr, n) = x" and "rest = drop n s"
  then show "((token, rest), token, s) \<in> measure (\<lambda>(_, s). length s)"
    using yylook_pos [of s nstr n] by (cases s) auto
qed simp

declare yylex.simps [simp del]

lemma yylex_shorter: "s \<noteq> [] \<Longrightarrow> yylex token s = Some (c, token', r) \<Longrightarrow> length r < length s"
proof (induction token s rule: yylex.induct)
  case (1 token s)
  obtain k n where y: "yylook s = Some (k, n)" using "1.prems" by (subst (asm) yylex.simps) (auto split: option.splits)
  then have "0 < n" using yylook_pos [OF "1.prems"(1)] by simp
  then have l: "length (drop n s) < length s" using "1.prems"(1) by (cases s) auto
  show ?case
  proof (cases "k = 1 \<or> k = 2 \<or> k = 14")
    case True
    then have e: "yylex token (drop n s) = Some (c, token', r)" using "1.prems" y by (subst (asm) yylex.simps) (simp add: Let_def)
    have "length r \<le> length (drop n s)"
    proof (cases "drop n s = []")
      case True
      then show ?thesis using e by (simp add: yylex.simps [of token "[]"])
    next
      case False
      then show ?thesis using "1.IH" [OF "1.prems"(1) y refl refl refl True False e] by simp
    qed
    then show ?thesis using l by simp
  next
    case False
    then show ?thesis using l y "1.prems" by (subst (asm) yylex.simps) (auto simp: Let_def split: if_splits)
  qed
qed

section \<open>Names\<close>

datatype nameMsg = NoMsg | NameInvalid | NameDigits | NameConst | NameWeek | NameMonth | NameReserved | UserWrong

definition nameError :: "int \<Rightarrow> nameMsg" where
  "nameError lexCode =
     (if lexCode = UNDEF then NameInvalid
      else if lexCode = ICON_TOK \<or> lexCode = RCON then NameDigits
      else if lexCode = CCON then NameConst
      else if MON \<le> lexCode \<and> lexCode \<le> SUN then NameWeek
      else if JAN \<le> lexCode \<and> lexCode \<le> DEC then NameMonth
      else if YY \<le> lexCode \<and> lexCode \<le> SZZZZ then NameReserved
      else NameInvalid)"

definition checkNameSpec :: "string \<Rightarrow> string \<Rightarrow> (bool \<times> nameMsg) option" where
  "checkNameSpec token name =
     do { (lexCode, token, s) \<leftarrow> yylex token name;
          if lexCode \<noteq> NAME then Some (False, nameError lexCode)
          else do {
            (lexCode, token, s) \<leftarrow> yylex token s;
            if lexCode = of_char (CHR ''@'')
            then do {
              (lexCode, token, s) \<leftarrow> yylex token s;
              if lexCode \<noteq> NAME then Some (False, UserWrong)
              else do {
                (lexCode, token, s) \<leftarrow> yylex token s;
                Some (if 0 < lexCode then (False, NameInvalid) else (True, NoMsg)) } }
            else Some (if 0 < lexCode then (False, NameInvalid) else (True, NoMsg)) } }"

section \<open>Numbers\<close>

text \<open>\<open>strtol\<close> saturates at the bounds of \<open>long\<close>; \<open>atoi\<close> cuts its result to \<open>int\<close>.\<close>

definition c_int :: "int \<Rightarrow> int" where
  "c_int i = sint (word_of_int i :: 32 word)"

definition digits_val :: "string \<Rightarrow> int" where
  "digits_val s = foldl (\<lambda>v c. 10 * v + (of_char c - 48)) 0 s"

definition c_space :: "char \<Rightarrow> bool" where
  "c_space c \<longleftrightarrow> c = CHR '' '' \<or> (let n = (of_char c :: nat) in 9 \<le> n \<and> n \<le> 13)"

definition strtol10 :: "string \<Rightarrow> int" where
  "strtol10 s =
     (let s = dropWhile c_space s;
          neg = (s \<noteq> [] \<and> hd s = CHR ''-'');
          s = (if s \<noteq> [] \<and> (hd s = CHR ''-'' \<or> hd s = CHR ''+'') then tl s else s);
          v = digits_val (takeWhile is_digit s)
      in if neg then max (- (2 ^ 63)) (- v) else min (2 ^ 63 - 1) v)"

definition atoi :: "string \<Rightarrow> int" where
  "atoi s = c_int (strtol10 s)"

section \<open>The search in the table\<close>

lemma of_char_int_eq: "((of_char a :: int) = of_char b) = (a = b)"
  by simp

lemma strcmp_eq [simp]: "strcmp a b = 0 \<longleftrightarrow> a = b"
proof (induction a b rule: strcmp.induct)
  case (4 a as b bs)
  then show ?case using of_char_int_eq [of a b] by (auto simp del: of_char_eq_iff)
qed simp_all

lemma strcmp_refl [simp]: "strcmp a a = 0"
  by simp

lemma strcmp_flip: "strcmp a b + strcmp b a = 0"
  by (induction a b rule: strcmp.induct) auto

lemma strcmp_trans: "strcmp a b < 0 \<Longrightarrow> strcmp b c < 0 \<Longrightarrow> strcmp a c < 0"
proof (induction a b arbitrary: c rule: strcmp.induct)
  case (2 b bs)
  then show ?case by (cases c) simp_all
next
  case (4 a as b bs)
  then obtain d ds where c: "c = d # ds" by (cases c) (simp_all split: if_splits)
  have i: "\<not> (of_char a :: int) < of_char b \<Longrightarrow> \<not> (of_char b :: int) < of_char a \<Longrightarrow> strcmp as bs < 0 \<Longrightarrow> strcmp bs ds < 0 \<Longrightarrow> strcmp as ds < 0"
    by (rule "4.IH")
  have "(of_char a :: int) \<le> of_char b" "(of_char b :: int) \<le> of_char d" using "4.prems" by (auto simp: c split: if_splits)
  then consider "(of_char a :: int) < of_char d" | "(of_char a :: int) = of_char b" "(of_char b :: int) = of_char d" by linarith
  then show ?case
  proof cases
    case 2
    then have "strcmp as bs < 0" "strcmp bs ds < 0" using "4.prems" by (simp_all add: c)
    then have "strcmp as ds < 0" using i 2 by simp
    then show ?thesis using 2 by (simp add: c)
  qed (simp add: c)
qed simp_all

definition tab_sorted :: "(string \<times> int) list \<Rightarrow> bool" where
  "tab_sorted tab \<longleftrightarrow> sorted_wrt (\<lambda>v w. strcmp (fst v) (fst w) < 0) tab"

lemma tab_sorted_nth: "tab_sorted tab \<Longrightarrow> i < j \<Longrightarrow> j < length tab \<Longrightarrow> strcmp (fst (tab ! i)) (fst (tab ! j)) < 0"
  unfolding tab_sorted_def by (rule sorted_wrt_nth_less)

lemma tab_sorted_distinct: "tab_sorted tab \<Longrightarrow> distinct (map fst tab)"
  unfolding tab_sorted_def
proof (induction tab)
  case (Cons v tab)
  then have "fst v \<notin> fst ` set tab" by (metis (no_types, lifting) image_iff less_irrefl sorted_wrt.simps(2) strcmp_refl)
  then show ?case using Cons by simp
qed simp

text \<open>An entry that is not equal lies on the side where the search goes on.\<close>

lemma tab_side:
  assumes s: "tab_sorted tab" and i: "i < length tab" "fst (tab ! i) = w" and m: "m < length tab"
  shows "strcmp (fst (tab ! m)) w < 0 \<Longrightarrow> m < i" and "0 < strcmp (fst (tab ! m)) w \<Longrightarrow> i < m"
proof -
  have lt: "i < m \<Longrightarrow> strcmp w (fst (tab ! m)) < 0" and gt: "m < i \<Longrightarrow> strcmp (fst (tab ! m)) w < 0"
    using tab_sorted_nth [OF s, of i m] tab_sorted_nth [OF s, of m i] i m by auto
  have eq: "i = m \<Longrightarrow> strcmp (fst (tab ! m)) w = 0" using i(2) by simp
  show "strcmp (fst (tab ! m)) w < 0 \<Longrightarrow> m < i" using lt eq strcmp_flip [of w "fst (tab ! m)"] by (cases m i rule: linorder_cases) auto
  show "0 < strcmp (fst (tab ! m)) w \<Longrightarrow> i < m" using gt eq by (cases m i rule: linorder_cases) auto
qed

lemma screenLoop_search:
  assumes "tab_sorted tab" and "0 \<le> low" and "high < int (length tab)"
    and "\<forall>i < length tab. fst (tab ! i) = w \<longrightarrow> low \<le> int i \<and> int i \<le> high"
  shows "screenLoop tab w low high = map_of tab w"
  using assms
proof (induction tab w low high rule: screenLoop.induct)
  case (1 tab w low high)
  show ?case
  proof (cases "low \<le> high")
    case False
    then have "\<forall>i < length tab. fst (tab ! i) \<noteq> w" using "1.prems"(4) by auto
    then have "w \<notin> fst ` set tab" by (auto simp: in_set_conv_nth image_iff) (metis fst_conv)
    then show ?thesis using False by (simp add: screenLoop.simps [of tab w low high] map_of_eq_None_iff [THEN iffD2])
  next
    case True
    define mid where "mid = low + (high - low) div 2"
    define c where "c = strcmp (fst (tab ! nat mid)) w"
    have m: "low \<le> mid" "mid \<le> high" "nat mid < length tab" using True "1.prems"(2,3) by (auto simp: mid_def)
    have in_tab: "tab ! nat mid \<in> set tab" using m(3) by simp
    note side = tab_side [OF "1.prems"(1) _ _ m(3), of _ w, folded c_def]
    show ?thesis
    proof (cases c "0 :: int" rule: linorder_cases)
      case equal
      then have "map_of tab w = Some (snd (tab ! nat mid))"
        using in_tab tab_sorted_distinct [OF "1.prems"(1)] by (auto simp: c_def map_of_eq_Some_iff)
      then show ?thesis using True equal by (simp add: screenLoop.simps [of tab w low high] mid_def [symmetric] c_def [symmetric] del: strcmp_eq)
    next
      case less
      have "mid + 1 \<le> int i \<and> int i \<le> high" if "i < length tab" "fst (tab ! i) = w" for i
        using side(1) [OF that less] "1.prems"(4) that by auto
      then have "screenLoop tab w (mid + 1) high = map_of tab w"
        using "1.IH"(1) [OF True mid_def c_def] less "1.prems"(1-3) m(1) by simp
      then show ?thesis using True less by (simp add: screenLoop.simps [of tab w low high] mid_def [symmetric] c_def [symmetric] del: strcmp_eq)
    next
      case greater
      have "low \<le> int i \<and> int i \<le> mid - 1" if "i < length tab" "fst (tab ! i) = w" for i
        using side(2) [OF that greater] "1.prems"(4) that by auto
      then have "screenLoop tab w low (mid - 1) = map_of tab w"
        using "1.IH"(2) [OF True mid_def c_def] greater "1.prems"(1-3) m(2) by simp
      then show ?thesis using True greater by (simp add: screenLoop.simps [of tab w low high] mid_def [symmetric] c_def [symmetric] del: strcmp_eq)
    qed
  qed
qed

lemma tab_sorted_step: "tab_sorted (v # w # ws) \<longleftrightarrow> strcmp (fst v) (fst w) < 0 \<and> tab_sorted (w # ws)"
proof -
  have "transp (\<lambda>v w :: string \<times> int. strcmp (fst v) (fst w) < 0)" by (rule transpI) (rule strcmp_trans)
  then show ?thesis unfolding tab_sorted_def by (rule sorted_wrt2)
qed

lemma rwtable_sorted: "tab_sorted rwtable"
  unfolding rwtable_def tab_sorted_step by (simp add: tab_sorted_def)

lemma rwtable_size: "END rwtable = 47" "length rwtable = 48"
  by (simp_all add: rwtable_def)

section \<open>Properties\<close>

text \<open>
  C13. The binary search of \<open>screen\<close> finds exactly the reserved words: a word has
  the code of the table entry with its lower-case form, and is a name if the
  table has none.
\<close>

theorem screen_lookup:
  "screen token yytext =
     (case map_of rwtable (set_lower yytext) of Some c \<Rightarrow> (c, token) | None \<Rightarrow> (NAME, yytext))"
proof -
  have "screenLoop rwtable (set_lower yytext) 0 (END rwtable) = map_of rwtable (set_lower yytext)"
    by (rule screenLoop_search) (auto simp: rwtable_sorted rwtable_size)
  then show ?thesis by (simp add: screen_def)
qed

end
