(* ===== verification/Job_Array.thy ===== *)
theory Job_Array
  imports Idx_Lexer
begin

unbundle bit_operations_syntax

text \<open>
  Job arrays: the 64-bit job identifiers (\<open>LSB_JOBID\<close>, \<open>LSB_ARRAY_IDX\<close> and
  \<open>LSB_ARRAY_JOBID\<close> of \<open>lsbatch/lsbatch.h\<close>), the grammar of index specifications
  such as \<open>[1-10:2,15]%4\<close> (\<open>lsf/intlib/idx.y\<close>) and the checks of
  \<open>lsbatch/daemons/mbd.jarray.c\<close>.
\<close>

section \<open>Job identifiers\<close>

definition LSB_MAX_ARRAY_JOBID :: "64 word" where "LSB_MAX_ARRAY_JOBID = 0x0FFFFFFFF"
definition LSB_MAX_ARRAY_IDX :: int where "LSB_MAX_ARRAY_IDX = 0x0FFFF"

text \<open>A \<open>LS_LONG_INT\<close> is the integer of a signed 64-bit word, an \<open>int\<close> of a 32-bit one.\<close>

definition LSB_JOBID :: "int \<Rightarrow> int \<Rightarrow> int" where
  "LSB_JOBID array_jobId array_idx = sint (push_bit 32 (word_of_int array_idx) OR word_of_int array_jobId :: 64 word)"

definition LSB_ARRAY_IDX :: "int \<Rightarrow> int" where
  "LSB_ARRAY_IDX jid =
     (if jid = -1 then 0
      else c_int (uint (drop_bit 32 (word_of_int jid) AND word_of_int LSB_MAX_ARRAY_IDX :: 64 word)))"

definition LSB_ARRAY_JOBID :: "int \<Rightarrow> int" where
  "LSB_ARRAY_JOBID jid =
     (if jid = -1 then -1 else c_int (uint (word_of_int jid AND LSB_MAX_ARRAY_JOBID)))"

section \<open>Index lists\<close>

record idxList =
  ix_start :: int
  ix_end :: int
  ix_step :: int

text \<open>
  The tokens as the parser tells them apart.  \<open>ICON\<close> carries the value of \<open>atoi\<close>
  on the buffer \<open>token\<close>; the code of a quoted string is that of the percent sign.
\<close>

datatype idx_token = ICON int | LBRACK | RBRACK | COMMA | DASH | COLON | PERCENT | OTHER int

definition idxToken :: "int \<Rightarrow> string \<Rightarrow> idx_token" where
  "idxToken yychar token =
     (if yychar = ICON_TOK then ICON (atoi token)
      else if yychar = of_char (CHR ''['') then LBRACK
      else if yychar = of_char (CHR '']'') then RBRACK
      else if yychar = of_char (CHR '','') then COMMA
      else if yychar = of_char (CHR ''-'') then DASH
      else if yychar = of_char (CHR '':'') then COLON
      else if yychar = of_char (CHR ''%'') then PERCENT
      else OTHER yychar)"

text \<open>
  The tokens of a text up to the end that \<open>yylex\<close> reports; \<open>None\<close> where one of them
  is beyond what the lexer can read.
\<close>

function idxTokens :: "string \<Rightarrow> string \<Rightarrow> idx_token list option" where
  "idxTokens token s =
     (case yylex token s of
        None \<Rightarrow> None
      | Some (yychar, token, rest) \<Rightarrow>
          if s = [] \<or> yychar = 0 then Some [] else map_option ((#) (idxToken yychar token)) (idxTokens token rest))"
  by pat_completeness auto
termination
proof (relation "measure (\<lambda>(_, s). length s)")
  fix token s :: string and x yychar y token' rest
  assume "yylex token s = Some x" and "(yychar, y) = x" and "(token', rest) = y" and "\<not> (s = [] \<or> yychar = 0)"
  then show "((token', rest), token, s) \<in> measure (\<lambda>(_, s). length s)" using yylex_shorter [of s token yychar token' rest] by auto
qed simp

declare idxTokens.simps [simp del]

definition tok :: "idx_token \<Rightarrow> idx_token list \<Rightarrow> idx_token list option" where
  "tok t ts = (case ts of [] \<Rightarrow> None | u # us \<Rightarrow> if u = t then Some us else None)"

definition icon :: "idx_token list \<Rightarrow> (int \<times> idx_token list) option" where
  "icon ts = (case ts of [] \<Rightarrow> None | t # us \<Rightarrow> (case t of ICON a \<Rightarrow> Some (a, us) | _ \<Rightarrow> None))"

definition region :: "idx_token list \<Rightarrow> (idxList \<times> idx_token list) option" where
  "region ts =
     (case icon ts of
        Some (a, us) \<Rightarrow>
          (case tok DASH us of
             None \<Rightarrow> Some (\<lparr>ix_start = a, ix_end = a, ix_step = 1\<rparr>, us)
           | Some vs \<Rightarrow>
               (case icon vs of
                  None \<Rightarrow> Some (\<lparr>ix_start = a, ix_end = INFINIT_INT, ix_step = 1\<rparr>, vs)
                | Some (b, ws) \<Rightarrow> Some (\<lparr>ix_start = a, ix_end = b, ix_step = 1\<rparr>, ws)))
      | None \<Rightarrow> do { us \<leftarrow> tok DASH ts; (b, vs) \<leftarrow> icon us; Some (\<lparr>ix_start = 1, ix_end = b, ix_step = 1\<rparr>, vs) })"

definition boundOk :: "idxList \<Rightarrow> bool" where
  "boundOk x \<longleftrightarrow> \<not> (ix_start x < 1 \<or> ix_start x > ix_end x \<or> ix_step x \<le> 0)"

definition index :: "idx_token list \<Rightarrow> (idxList \<times> idx_token list) option" where
  "index ts =
     do { (x, us) \<leftarrow> region ts;
          (x, us) \<leftarrow> (case tok COLON us of
                        None \<Rightarrow> Some (x, us)
                      | Some vs \<Rightarrow> do { (k, ws) \<leftarrow> icon vs; Some (x\<lparr>ix_step := k\<rparr>, ws) });
          if boundOk x then Some (x, us) else None }"

lemma tok_Some: "tok t ts = Some us \<longleftrightarrow> ts = t # us"
  by (auto simp: tok_def split: list.splits)

lemma icon_Some: "icon ts = Some (a, us) \<longleftrightarrow> ts = ICON a # us"
  by (auto simp: icon_def split: list.splits idx_token.splits)

lemma region_shorter: "region ts = Some (x, us) \<Longrightarrow> length us < length ts"
  by (auto simp: region_def tok_Some icon_Some bind_eq_Some_conv split: option.splits prod.splits)

lemma index_shorter: "index ts = Some (x, us) \<Longrightarrow> length us < length ts"
  by (auto simp: index_def tok_Some icon_Some bind_eq_Some_conv dest!: region_shorter split: option.splits if_splits)

function indcies :: "idx_token list \<Rightarrow> (idxList list \<times> idx_token list) option" where
  "indcies ts =
     (case index ts of
        None \<Rightarrow> None
      | Some (x, us) \<Rightarrow>
          (case tok COMMA us of
             None \<Rightarrow> Some ([x], us)
           | Some vs \<Rightarrow> (case indcies vs of None \<Rightarrow> None | Some (xs, ws) \<Rightarrow> Some (x # xs, ws))))"
  by pat_completeness auto
termination
  by (relation "measure length") (auto simp: tok_Some dest!: index_shorter)

declare indcies.simps [simp del]

definition arrayInd :: "idx_token list \<Rightarrow> (idxList list \<times> idx_token list) option" where
  "arrayInd ts = do { us \<leftarrow> tok LBRACK ts; (xs, vs) \<leftarrow> indcies us; ws \<leftarrow> tok RBRACK vs; Some (xs, ws) }"

text \<open>\<open>None\<close> where the parser fails; the limit is unchanged unless the text has one.\<close>

definition idxparse :: "idx_token list \<Rightarrow> int \<Rightarrow> (idxList list \<times> int) option" where
  "idxparse ts maxJLimit =
     do { (xs, us) \<leftarrow> arrayInd ts;
          if us = [] then Some (xs, maxJLimit)
          else do { vs \<leftarrow> tok PERCENT us; (k, ws) \<leftarrow> icon vs; if ws = [] then Some (xs, k) else None } }"

section \<open>The checks of mbatchd\<close>

definition LSBE_NO_ERROR :: int where "LSBE_NO_ERROR = 0"
definition LSBE_BAD_JOB :: int where "LSBE_BAD_JOB = 42"
definition LSBE_BAD_IDX :: int where "LSBE_BAD_IDX = 97"
definition LSBE_BIG_IDX :: int where "LSBE_BIG_IDX = 98"

lemmas lsbe_defs = LSBE_NO_ERROR_def LSBE_BAD_JOB_def LSBE_BAD_IDX_def LSBE_BIG_IDX_def

text \<open>One round of the loop over the ranges: the range with its end filled in and the error.\<close>

definition checkIdx :: "bool \<Rightarrow> int \<Rightarrow> idxList \<Rightarrow> int \<Rightarrow> idxList \<times> int" where
  "checkIdx replay maxJobArraySize x err =
     (let err = (if ix_start x < 1 \<or> ix_step x < 1 then LSBE_BAD_IDX else err);
          x = (if ix_end x = INFINIT_INT
               then x\<lparr>ix_end := c_int (ix_start x + c_int (c_int (maxJobArraySize - 1) * ix_step x))\<rparr> else x);
          err = (if ix_start x > ix_end x then LSBE_BAD_IDX else err);
          err = (if \<not> replay \<and> ix_end x \<ge> LSB_MAX_ARRAY_IDX then LSBE_BIG_IDX else err)
      in (x, err))"

fun checkIdxLoop :: "bool \<Rightarrow> int \<Rightarrow> idxList list \<Rightarrow> int \<Rightarrow> int \<Rightarrow> idxList list \<times> int \<times> int" where
  "checkIdxLoop replay maxJobArraySize [] arraySize err = ([], arraySize, err)"
| "checkIdxLoop replay maxJobArraySize (x # xs) arraySize err =
     (let (x, err) = checkIdx replay maxJobArraySize x err;
          d = c_int (ix_end x - ix_start x);
          arraySize = c_int (arraySize + (sgn d * sgn (ix_step x) * (\<bar>d\<bar> div \<bar>ix_step x\<bar>)) + 1);
          (xs, r) = checkIdxLoop replay maxJobArraySize xs arraySize err
      in (x # xs, r))"

text \<open>
  The first argument is what the buffer \<open>token\<close> holds from earlier calls.  The
  result is the index list (\<open>None\<close> for the null pointer), the error and, where it
  was written, the limit of running elements; there is none for a text beyond the lexer.
\<close>

definition parseJobArrayIndex ::
    "string \<Rightarrow> bool \<Rightarrow> int \<Rightarrow> string \<Rightarrow> (idxList list option \<times> int \<times> int option) option" where
  "parseJobArrayIndex token replay maxJobArraySize job_name =
     (case dropWhile (\<lambda>c. c \<noteq> CHR ''['') job_name of
        [] \<Rightarrow> Some (None, LSBE_NO_ERROR, None)
      | c # cs \<Rightarrow>
          (case idxTokens token (c # cs) of
             None \<Rightarrow> None
           | Some ts \<Rightarrow>
               (case idxparse ts INFINIT_INT of
                  None \<Rightarrow> Some (None, LSBE_BAD_JOB, Some INFINIT_INT)
                | Some (xs, maxJLimit) \<Rightarrow>
                    let (xs, arraySize, err) = checkIdxLoop replay maxJobArraySize xs 0 LSBE_NO_ERROR;
                        err = (if \<not> replay \<and> arraySize > maxJobArraySize then LSBE_BIG_IDX else err)
                    in Some (if err = LSBE_NO_ERROR then Some xs else None, err, Some maxJLimit))))"

text \<open>
  The values of a loop \<open>for (i = start; i <= end; i += step)\<close> with an \<open>int\<close> counter,
  which wraps around; \<open>None\<close> where the loop does not end.
\<close>

partial_function (option) idxValues :: "int \<Rightarrow> int \<Rightarrow> int \<Rightarrow> int list option" where
  [code]: "idxValues i e step =
     (if i \<le> e then do { is \<leftarrow> idxValues (c_int (i + step)) e step; Some (i # is) } else Some [])"

fun listValues :: "idxList list \<Rightarrow> int list option" where
  "listValues [] = Some []"
| "listValues (x # xs) =
     do { is \<leftarrow> idxValues (ix_start x) (ix_end x) (ix_step x); js \<leftarrow> listValues xs; Some (is @ js) }"

text \<open>C's remainder has the sign of the dividend; \<open>None\<close> of the list is the null pointer.\<close>

fun inIdxLoop :: "int \<Rightarrow> idxList list \<Rightarrow> bool" where
  "inIdxLoop jid [] = False"
| "inIdxLoop jid (x # xs) =
     (let i = LSB_ARRAY_IDX jid
      in if i < ix_start x \<or> i > ix_end x then inIdxLoop jid xs
         else if (i - ix_start x) mod ix_step x = 0 then True
         else inIdxLoop jid xs)"

definition inIdxList :: "int \<Rightarrow> idxList list option \<Rightarrow> bool" where
  "inIdxList jid xs = (case xs of None \<Rightarrow> True | Some xs \<Rightarrow> inIdxLoop jid xs)"

text \<open>\<open>getJobIdList\<close> for an array: the identifiers without repetitions, in order.\<close>

fun collectIds :: "int \<Rightarrow> int list \<Rightarrow> int list \<Rightarrow> int list" where
  "collectIds jid [] ids = ids"
| "collectIds jid (j # js) ids =
     (let i = LSB_JOBID jid j
      in collectIds jid js (if List.member ids i then ids else ids @ [i]))"

end
