(* ===== verification/Job_Lists.thy ===== *)
theory Job_Lists
  imports Slot_Books Job_Array "HOL-Library.List_Lexorder"
begin

unbundle bit_operations_syntax

text \<open>
  The job lists of mbatchd and their order (\<open>lsbatch/daemons/mbd.job.c\<close>): pending
  jobs in \<open>PJL\<close> and \<open>MJL\<close> (migrating), started jobs in \<open>SJL\<close>, finished jobs in
  \<open>FJL\<close>.  A list is walked by the scheduler from its back, so the jobs to look at
  first are at the end.  The observers that keep the scheduler's cursors into the
  lists are not part of this model.
\<close>

definition DEL_ACTION_REQUEUE :: uint32 where "DEL_ACTION_REQUEUE = 0x02"
definition Q_ATTRIB_FS :: uint32 where "Q_ATTRIB_FS = 0x08"
definition Q_ATTRIB_ENQUE_INTERACTIVE_AHEAD :: uint32 where "Q_ATTRIB_ENQUE_INTERACTIVE_AHEAD = 0x80000"
definition SUB_INTERACTIVE :: uint32 where "SUB_INTERACTIVE = 0x4000000"

section \<open>Operations\<close>

abbreviation bill :: "mbd \<Rightarrow> addr \<Rightarrow> submitReq" where
  "bill s j \<equiv> jobBill (shD s (shared (jD s j)))"

abbreviation jqueue :: "mbd \<Rightarrow> addr \<Rightarrow> qData" where
  "jqueue s j \<equiv> qD s (qPtr (jD s j))"

definition PJLorMJL :: "addr \<Rightarrow> mbd \<Rightarrow> jlistno" where
  "PJLorMJL job s = (if List.member (jDataList s MJL) job then MJL else PJL)"

definition jobsOnSameSegment :: "mbd \<Rightarrow> addr \<Rightarrow> addr \<Rightarrow> bool" where
  "jobsOnSameSegment s j1 j2 =
     (if qPtr (jD s j2) = qPtr (jD s j1) then True
      else if has (qAttrib (jqueue s j2)) Q_ATTRIB_FS \<or> has (qAttrib (jqueue s j1)) Q_ATTRIB_FS then False
      else priority (jqueue s j2) = priority (jqueue s j1))"

text \<open>\<open>listInsertEntryBefore\<close> with the header (\<open>None\<close>) or an entry as successor.\<close>

definition insBefore :: "addr \<Rightarrow> addr option \<Rightarrow> addr list \<Rightarrow> addr list" where
  "insBefore e p xs = (case p of None \<Rightarrow> xs @ [e]
     | Some p \<Rightarrow> takeWhile (\<lambda>x. x \<noteq> p) xs @ e # dropWhile (\<lambda>x. x \<noteq> p) xs)"

text \<open>
  Whether a job submitted (or requeued) at time \<open>ct\<close> goes before \<open>jp\<close> of the same
  segment.
\<close>

definition goesBefore :: "mbd \<Rightarrow> addr \<Rightarrow> int \<Rightarrow> addr \<Rightarrow> bool" where
  "goesBefore s job ct jp \<longleftrightarrow>
     (let p = jobPriority (jD s job); p' = jobPriority (jD s jp); t' = jb_submitTime (bill s jp);
          i = jobId (jD s job); i' = jobId (jD s jp)
      in p < p' \<or>
         p = p' \<and> (t' < ct \<or> ct = t' \<and> (arraySchedOrder s \<and> LSB_ARRAY_IDX i \<noteq> 0 \<or> i = -1 \<or> i' = -1 \<or> i' < i)))"

text \<open>
  The candidate \<open>lastJob\<close> that the scan of \<open>inPendJobList\<close> remembers for jobs of
  the same priority on another segment.
\<close>

definition pendLast :: "mbd \<Rightarrow> addr \<Rightarrow> addr \<Rightarrow> addr list \<Rightarrow> addr option \<Rightarrow> addr option" where
  "pendLast s job jp rest lastJob =
     (let t = jb_submitTime (bill s job); t' = jb_submitTime (bill s jp);
          i = jobId (jD s job); i' = jobId (jD s jp);
          lastJob = (if t' < t \<and> lastJob = None then Some jp
                     else if t = t' \<and> lastJob = None \<and> (i = -1 \<or> i' = -1 \<or> i' < i) then Some jp
                     else lastJob)
      in case rest of [] \<Rightarrow> lastJob
         | nxt # _ \<Rightarrow> if jobsOnSameSegment s nxt job then None else lastJob)"

text \<open>The scan: the entry to insert before (\<open>None\<close> for the header) and \<open>lastJob\<close>.\<close>

fun pendScan :: "mbd \<Rightarrow> addr \<Rightarrow> int \<Rightarrow> addr list \<Rightarrow> addr option \<Rightarrow> addr option \<times> addr option" where
  "pendScan s job ct [] lastJob = (None, lastJob)"
| "pendScan s job ct (jp # rest) lastJob =
     (let q = jqueue s job; q' = jqueue s jp
      in if priority q < priority q' then (Some jp, lastJob)
         else if priority q = priority q' then
           (if \<not> jobsOnSameSegment s job jp then
              (if has (qAttrib q) Q_ATTRIB_FS \<or> has (qAttrib q') Q_ATTRIB_FS
               then (if posId q' < posId q then (Some jp, lastJob) else pendScan s job ct rest lastJob)
               else pendScan s job ct rest (pendLast s job jp rest lastJob))
            else if has (qAttrib q) Q_ATTRIB_ENQUE_INTERACTIVE_AHEAD \<and>
                    has (jb_options (bill s job)) SUB_INTERACTIVE \<and>
                    \<not> has (jb_options (bill s jp)) SUB_INTERACTIVE
            then pendScan s job ct rest lastJob
            else if goesBefore s job ct jp then (Some jp, lastJob)
            else (case rest of [] \<Rightarrow> pendScan s job ct rest lastJob
                  | nxt # _ \<Rightarrow> if jobsOnSameSegment s job jp \<and> \<not> jobsOnSameSegment s job nxt
                               then (Some nxt, lastJob) else pendScan s job ct rest lastJob))
         else pendScan s job ct rest lastJob)"

text \<open>The walk from \<open>lastJob\<close> to the first entry of its segment, over the entries before it.\<close>

fun walkBack :: "mbd \<Rightarrow> addr \<Rightarrow> addr list \<Rightarrow> addr" where
  "walkBack s lastJob [] = lastJob"
| "walkBack s lastJob (n # ns) = (if \<not> jobsOnSameSegment s lastJob n then lastJob else walkBack s n ns)"

definition pendPlace :: "mbd \<Rightarrow> addr \<Rightarrow> int \<Rightarrow> addr list \<Rightarrow> addr option" where
  "pendPlace s job ct xs =
     (let (jp, lastJob) = pendScan s job ct xs None
      in case lastJob of None \<Rightarrow> jp
         | Some l \<Rightarrow> Some (if \<not> jobsOnSameSegment s job l
                           then walkBack s l (rev (takeWhile (\<lambda>x. x \<noteq> l) xs)) else l))"

definition clearRequeueDel :: "addr \<Rightarrow> mbd \<Rightarrow> mbd" where
  "clearRequeueDel job s =
     (if has (pe_sigDel (pendEvent (jD s job))) DEL_ACTION_REQUEUE
      then upd_j job (\<lambda>j. j\<lparr>pendEvent := (pendEvent j)\<lparr>pe_sigDel :=
             pe_sigDel (pendEvent j) AND NOT DEL_ACTION_REQUEUE\<rparr>\<rparr>) s
      else s)"

definition inPendJobList :: "addr \<Rightarrow> jlistno \<Rightarrow> int \<Rightarrow> mbd \<Rightarrow> mbd" where
  "inPendJobList job listno rqTime s =
     (let compareTime =
            (if rqTime \<noteq> 0 \<and> listno = PJL \<and>
                (requeueToBottom s \<or> has (pe_sigDel (pendEvent (jD s job))) DEL_ACTION_REQUEUE)
             then rqTime else jb_submitTime (bill s job));
          s = clearRequeueDel job s;
          xs = jDataList s listno
      in call (Call_detachJobEffeResReqEntry job)
           (s\<lparr>jDataList := (jDataList s)(listno := insBefore job (pendPlace s job compareTime xs) xs),
              pendJobSlots := pendJobSlots s + jb_numProcessors (bill s job)\<rparr>))"

text \<open>The links of the entry decide which list it leaves.\<close>

definition offJobList :: "addr \<Rightarrow> jlistno \<Rightarrow> mbd \<Rightarrow> mbd" where
  "offJobList jp listno s =
     (let s = s\<lparr>jDataList := (\<lambda>l. remove1 jp (jDataList s l))\<rparr>
      in if listno = PJL
         then s\<lparr>pendJobSlots := max 0 (pendJobSlots s - jb_numProcessors (bill s jp))\<rparr>
         else s)"

fun startScan :: "mbd \<Rightarrow> addr \<Rightarrow> addr list \<Rightarrow> addr option" where
  "startScan s job [] = None"
| "startScan s job (jp # rest) =
     (let q = jqueue s job; q' = jqueue s jp; j = jD s job; j' = jD s jp
      in if priority q < priority q' then Some jp
         else if priority q = priority q' \<and>
                 (startTime j' < startTime j \<or>
                  (startTime j = startTime j' \<or> startTime j = 0) \<and> jobId j' < jobId j)
         then Some jp
         else startScan s job rest)"

definition inStartJobList :: "addr \<Rightarrow> mbd \<Rightarrow> mbd" where
  "inStartJobList job s =
     (let xs = jDataList s SJL
      in s\<lparr>jDataList := (jDataList s)(SJL := insBefore job (startScan s job xs) xs)\<rparr>)"

definition jobInQueueEnd :: "addr \<Rightarrow> addr \<Rightarrow> mbd \<Rightarrow> mbd" where
  "jobInQueueEnd job qp s =
     (if IS_FINISH (jStatus (jD s job)) then s
      else let listno = (if IS_PEND (jStatus (jD s job)) then PJLorMJL job s else SJL);
               s = offJobList job listno s;
               s = set_queue job qp s;
               s = upd_sh (shared (jD s job)) (\<lambda>x. x\<lparr>jobBill := (jobBill x)\<lparr>jb_queue := queue (qD s qp)\<rparr>\<rparr>) s;
               s = call (Call_mkJobMergedResReqEntry job) s
           in if IS_PEND (jStatus (jD s job))
              then if has (jStatus (jD s job)) JOB_STAT_MIG
                   then if glMigToPendFlag s
                        then upd_j job (\<lambda>j. j\<lparr>jStatus := jStatus j AND NOT JOB_STAT_MIG\<rparr>)
                               (inPendJobList job PJL 0 s)
                        else inPendJobList job MJL 0 s
                   else inPendJobList job PJL 0 s
              else inStartJobList job s)"

section \<open>The scan never leaves a candidate\<close>

text \<open>
  Two jobs of equal queue priority are on different segments only if one of the
  queues has fairshare, so the branch that sets \<open>lastJob\<close> is not reached.
\<close>

lemma other_segment_FS:
  assumes "\<not> jobsOnSameSegment s j jp" and "priority (jqueue s j) = priority (jqueue s jp)"
  shows "has (qAttrib (jqueue s j)) Q_ATTRIB_FS \<or> has (qAttrib (jqueue s jp)) Q_ATTRIB_FS"
  using assms by (auto simp: jobsOnSameSegment_def split: if_splits)

lemma pendScan_lastJob: "snd (pendScan s job ct xs None) = None"
proof (induction xs)
  case (Cons jp rest)
  then show ?case
    using other_segment_FS [of s job jp]
    by (auto simp: Let_def split: list.splits)
qed simp

lemma pendPlace_scan: "pendPlace s job ct xs = fst (pendScan s job ct xs None)"
  using pendScan_lastJob [of s job ct xs] by (simp add: pendPlace_def case_prod_unfold)

section \<open>Insertion\<close>

lemma insBefore_split:
  obtains ys zs where "xs = ys @ zs" and "insBefore e p xs = ys @ e # zs"
proof (cases p)
  case None
  then show thesis using that [of xs "[]"] by (simp add: insBefore_def)
next
  case (Some a)
  then show thesis
    using that [of "takeWhile (\<lambda>x. x \<noteq> a) xs" "dropWhile (\<lambda>x. x \<noteq> a) xs"] by (simp add: insBefore_def)
qed

lemma insBefore_set [simp]: "set (insBefore e p xs) = insert e (set xs)"
  by (rule insBefore_split [of xs e p]) simp

lemma insBefore_distinct [simp]: "e \<notin> set xs \<Longrightarrow> distinct (insBefore e p xs) = distinct xs"
  by (rule insBefore_split [of xs e p]) simp

text \<open>The other entries keep their order.\<close>

lemma insBefore_others: "e \<notin> set xs \<Longrightarrow> remove1 e (insBefore e p xs) = xs"
  by (rule insBefore_split [of xs e p]) (simp add: remove1_append)

text \<open>Insertion before the first entry that must come later keeps a list sorted.\<close>

lemma find_sat: "List.find P xs = Some p \<Longrightarrow> P p"
  by (induction xs) (auto split: if_splits)

lemma takeWhile_not_find:
  "List.find P xs = Some p \<Longrightarrow> takeWhile (\<lambda>x. x \<noteq> p) xs = takeWhile (\<lambda>x. \<not> P x) xs"
  by (induction xs) (auto split: if_splits dest: find_sat)

lemma dropWhile_not_find:
  "List.find P xs = Some p \<Longrightarrow> dropWhile (\<lambda>x. x \<noteq> p) xs = dropWhile (\<lambda>x. \<not> P x) xs"
  by (induction xs) (auto split: if_splits dest: find_sat)

lemma insBefore_find:
  "insBefore e (List.find P xs) xs = takeWhile (\<lambda>x. \<not> P x) xs @ e # dropWhile (\<lambda>x. \<not> P x) xs"
proof (cases "List.find P xs")
  case None
  then have "\<forall>x \<in> set xs. \<not> P x" by (auto simp: find_None_iff)
  then have "takeWhile (\<lambda>x. \<not> P x) xs = xs" "dropWhile (\<lambda>x. \<not> P x) xs = []"
    by (simp_all add: takeWhile_eq_all_conv dropWhile_eq_Nil_conv)
  note eq = this
  show ?thesis unfolding None eq by (simp add: insBefore_def)
next
  case (Some p)
  show ?thesis unfolding Some insBefore_def by (simp add: takeWhile_not_find [OF Some] dropWhile_not_find [OF Some])
qed

lemma sorted_wrt_insBefore_find:
  assumes "sorted_wrt le xs"
    and "\<forall>x \<in> set xs. if P x then le e x else le x e"
    and "\<forall>x \<in> set xs. \<forall>y \<in> set xs. P x \<longrightarrow> le x y \<longrightarrow> P y"
  shows "sorted_wrt le (insBefore e (List.find P xs) xs)"
  using assms
proof (induction xs)
  case (Cons x xs)
  show ?case
  proof (cases "P x")
    case True
    moreover have "\<forall>y \<in> set xs. le x y" using Cons.prems(1) by simp
    ultimately have "\<forall>y \<in> set xs. P y" using Cons.prems(3) by (meson list.set_intros)
    then have "\<forall>y \<in> set (x # xs). le e y" using Cons.prems(2) True by simp
    with True Cons.prems(1) show ?thesis unfolding insBefore_find by simp
  next
    case False
    have "sorted_wrt le (insBefore e (List.find P xs) xs)"
    proof (rule Cons.IH)
      show "sorted_wrt le xs" using Cons.prems(1) by simp
      show "\<forall>x \<in> set xs. if P x then le e x else le x e" using Cons.prems(2) by simp
      show "\<forall>x \<in> set xs. \<forall>y \<in> set xs. P x \<longrightarrow> le x y \<longrightarrow> P y" using Cons.prems(3) by (meson list.set_intros(2))
    qed
    moreover have "\<forall>y \<in> set (insBefore e (List.find P xs) xs). le x y"
      using Cons.prems(1,2) False by simp
    ultimately show ?thesis using False unfolding insBefore_find by simp
  qed
qed (simp add: insBefore_def)

section \<open>The scheduling order\<close>

text \<open>
  The key of a job in a pending list, compared lexicographically.  A job with a
  smaller key is looked at later: lower queue priority, then lower job priority,
  then later submission, then higher job id.
\<close>

definition sched_key :: "mbd \<Rightarrow> addr \<Rightarrow> int list" where
  "sched_key s j = [priority (jqueue s j), jobPriority (jD s j), - jb_submitTime (bill s j), - jobId (jD s j)]"

abbreviation in_order :: "mbd \<Rightarrow> addr list \<Rightarrow> bool" where
  "in_order s xs \<equiv> sorted_wrt (\<lambda>a b. sched_key s a \<le> sched_key s b) xs"

lemma sched_key_less:
  "sched_key s a < sched_key s b \<longleftrightarrow>
     priority (jqueue s a) < priority (jqueue s b) \<or> priority (jqueue s a) = priority (jqueue s b) \<and>
     (jobPriority (jD s a) < jobPriority (jD s b) \<or> jobPriority (jD s a) = jobPriority (jD s b) \<and>
      (jb_submitTime (bill s b) < jb_submitTime (bill s a) \<or>
       jb_submitTime (bill s a) = jb_submitTime (bill s b) \<and> jobId (jD s b) < jobId (jD s a)))"
  by (auto simp: sched_key_def)

lemma sched_key_priority: "sched_key s a \<le> sched_key s b \<Longrightarrow> priority (jqueue s a) \<le> priority (jqueue s b)"
  by (auto simp: sched_key_def)

text \<open>
  Jobs of plain queues: no fairshare, no preference for interactive jobs, a job
  id, and no special order for array elements.
\<close>

definition plain_job :: "mbd \<Rightarrow> addr \<Rightarrow> bool" where
  "plain_job s j \<longleftrightarrow> \<not> has (qAttrib (jqueue s j)) Q_ATTRIB_FS \<and>
     \<not> has (qAttrib (jqueue s j)) Q_ATTRIB_ENQUE_INTERACTIVE_AHEAD \<and> jobId (jD s j) \<noteq> -1"

lemma plain_segment:
  "plain_job s a \<Longrightarrow> plain_job s b \<Longrightarrow> jobsOnSameSegment s a b \<longleftrightarrow> priority (jqueue s a) = priority (jqueue s b)"
  by (auto simp: jobsOnSameSegment_def plain_job_def)

lemma goesBefore_plain:
  assumes "plain_job s job" and "plain_job s jp" and "\<not> arraySchedOrder s"
    and "priority (jqueue s job) = priority (jqueue s jp)"
  shows "goesBefore s job (jb_submitTime (bill s job)) jp \<longleftrightarrow> sched_key s job < sched_key s jp"
  using assms by (simp add: goesBefore_def sched_key_less plain_job_def Let_def)

lemma pendScan_find:
  assumes "plain_job s job" and "\<forall>jp \<in> set xs. plain_job s jp" and "\<not> arraySchedOrder s"
    and "in_order s xs"
  shows "fst (pendScan s job (jb_submitTime (bill s job)) xs None) =
    List.find (\<lambda>jp. sched_key s job < sched_key s jp) xs"
  using assms(2,4)
proof (induction xs)
  case (Cons jp rest)
  let ?q = "priority (jqueue s job)" and ?q' = "priority (jqueue s jp)"
  have IH: "fst (pendScan s job (jb_submitTime (bill s job)) rest None) =
      List.find (\<lambda>jp. sched_key s job < sched_key s jp) rest"
    using Cons by simp
  have pj: "plain_job s jp" using Cons.prems by simp
  consider "?q < ?q'" | "?q' < ?q" | "?q = ?q'" by linarith
  then show ?case
  proof cases
    case 3
    have nxt: "sched_key s job < sched_key s n" if "rest = n # ns" "\<not> jobsOnSameSegment s job n" for n ns
    proof -
      have "plain_job s n" "?q' \<le> priority (jqueue s n)" using Cons.prems that sched_key_priority by auto
      then show ?thesis
        using that 3 plain_segment [OF assms(1), of n] by (simp add: sched_key_less)
    qed
    have ahead: "\<not> has (qAttrib (jqueue s job)) Q_ATTRIB_ENQUE_INTERACTIVE_AHEAD"
      using assms(1) by (simp add: plain_job_def)
    have "jobsOnSameSegment s job jp" using plain_segment [OF assms(1) pj] 3 by simp
    then show ?thesis
      using 3 IH nxt ahead goesBefore_plain [OF assms(1) pj assms(3)]
      by (cases rest) (simp_all add: Let_def)
  qed (use IH sched_key_less [of s job jp] in \<open>simp_all add: Let_def\<close>)
qed simp

lemma pendPlace_sorted:
  assumes "plain_job s job" and "\<forall>jp \<in> set xs. plain_job s jp" and "\<not> arraySchedOrder s"
    and "in_order s xs"
  shows "in_order s (insBefore job (pendPlace s job (jb_submitTime (bill s job)) xs) xs)"
  unfolding pendPlace_scan pendScan_find [OF assms]
  by (rule sorted_wrt_insBefore_find [OF assms(4)]) (auto simp: less_le_trans)

section \<open>What the list operations change\<close>

lemma clearRequeueDel_fields [simp]:
  "qD (clearRequeueDel job s) = qD s" "uD (clearRequeueDel job s) = uD s"
  "hD (clearRequeueDel job s) = hD s" "shD (clearRequeueDel job s) = shD s"
  "usergroups (clearRequeueDel job s) = usergroups s" "mSchedStage (clearRequeueDel job s) = mSchedStage s"
  "jDataList (clearRequeueDel job s) = jDataList s" "pendJobSlots (clearRequeueDel job s) = pendJobSlots s"
  "arraySchedOrder (clearRequeueDel job s) = arraySchedOrder s"
  "glMigToPendFlag (clearRequeueDel job s) = glMigToPendFlag s"
  "jStatus (jD (clearRequeueDel job s) i) = jStatus (jD s i)" "qPtr (jD (clearRequeueDel job s) i) = qPtr (jD s i)"
  "uPtr (jD (clearRequeueDel job s) i) = uPtr (jD s i)" "hPtr (jD (clearRequeueDel job s) i) = hPtr (jD s i)"
  "numHostPtr (jD (clearRequeueDel job s) i) = numHostPtr (jD s i)"
  "shared (jD (clearRequeueDel job s) i) = shared (jD s i)" "jobId (jD (clearRequeueDel job s) i) = jobId (jD s i)"
  "jobPriority (jD (clearRequeueDel job s) i) = jobPriority (jD s i)"
  "newReason (jD (clearRequeueDel job s) i) = newReason (jD s i)"
  "newSub (jD (clearRequeueDel job s) i) = newSub (jD s i)"
  by (simp_all add: clearRequeueDel_def upd_j_def)

lemma inPendJobList_fields [simp]:
  "qD (inPendJobList job l t s) = qD s" "uD (inPendJobList job l t s) = uD s"
  "hD (inPendJobList job l t s) = hD s" "shD (inPendJobList job l t s) = shD s"
  "usergroups (inPendJobList job l t s) = usergroups s" "mSchedStage (inPendJobList job l t s) = mSchedStage s"
  "jD (inPendJobList job l t s) = jD (clearRequeueDel job s)"
  "pendJobSlots (inPendJobList job l t s) = pendJobSlots s + jb_numProcessors (bill s job)"
  by (simp_all add: inPendJobList_def Let_def)

lemma inPendJobList_lists:
  obtains p where "jDataList (inPendJobList job l t s) = (jDataList s)(l := insBefore job p (jDataList s l))"
  by (auto simp: inPendJobList_def Let_def)

lemma inStartJobList_lists:
  obtains p where "inStartJobList job s = s\<lparr>jDataList := (jDataList s)(SJL := insBefore job p (jDataList s SJL))\<rparr>"
  by (auto simp: inStartJobList_def Let_def)

lemma offJobList_lists [simp]: "jDataList (offJobList jp l s) = (\<lambda>l. remove1 jp (jDataList s l))"
  by (simp add: offJobList_def Let_def)

lemma sched_key_inPend [simp]: "sched_key (inPendJobList job l t s) = sched_key s"
  by (simp add: sched_key_def fun_eq_iff)

section \<open>Properties\<close>

text \<open>
  C18. A job that becomes pending is put at its place.  Let neither the queue of
  the job nor that of any job on the list be a fairshare queue or have the
  attribute that puts interactive jobs ahead, let all of them have job ids
  (\<open>plain_job\<close>), let array elements have no scheduling order of their own, and
  let the job keep its submission time (it is not a requeued job that goes to
  the bottom).  Then, if the list is sorted by queue priority, job priority,
  submission time and job id, it still is after \<open>inPendJobList\<close>, the other jobs
  keep their order and no other list changes.  Besides, the slots the job asks
  for are added to \<open>pendJobSlots\<close>, the request to delete it by a requeue is
  cleared, its effective resource requirement is detached, and that is all.
\<close>

theorem inPendJobList_order:
  assumes "plain_job s job" and "\<forall>jp \<in> set (jDataList s l). plain_job s jp" and "\<not> arraySchedOrder s"
    and "rqTime = 0 \<or> l \<noteq> PJL \<or>
      \<not> requeueToBottom s \<and> \<not> has (pe_sigDel (pendEvent (jD s job))) DEL_ACTION_REQUEUE"
    and "in_order s (jDataList s l)" and "job \<notin> set (jDataList s l)"
  shows "let s' = inPendJobList job l rqTime s in
    in_order s' (jDataList s' l) \<and> job \<in> set (jDataList s' l) \<and> remove1 job (jDataList s' l) = jDataList s l \<and>
    (\<forall>l'. l' \<noteq> l \<longrightarrow> jDataList s' l' = jDataList s l') \<and>
    s' = call (Call_detachJobEffeResReqEntry job)
      ((clearRequeueDel job s)\<lparr>jDataList := jDataList s',
         pendJobSlots := pendJobSlots s + jb_numProcessors (bill s job)\<rparr>)"
proof -
  let ?t = "jb_submitTime (bill s job)" and ?s1 = "clearRequeueDel job s"
  have c: "inPendJobList job l rqTime s = inPendJobList job l 0 s"
    using assms(4) by (auto simp: inPendJobList_def Let_def)
  have l: "jDataList (inPendJobList job l 0 s) =
      (jDataList s)(l := insBefore job (pendPlace ?s1 job ?t (jDataList s l)) (jDataList s l))"
    by (simp add: inPendJobList_def Let_def)
  have "in_order ?s1 (insBefore job (pendPlace ?s1 job (jb_submitTime (bill ?s1 job)) (jDataList s l)) (jDataList s l))"
    by (rule pendPlace_sorted) (use assms in \<open>simp_all add: plain_job_def sched_key_def\<close>)
  moreover have "inPendJobList job l 0 s = call (Call_detachJobEffeResReqEntry job)
      (?s1\<lparr>jDataList := jDataList (inPendJobList job l 0 s),
         pendJobSlots := pendJobSlots s + jb_numProcessors (bill s job)\<rparr>)"
    unfolding l by (simp add: inPendJobList_def Let_def)
  ultimately show ?thesis
    unfolding c Let_def using assms(6) by (simp add: l insBefore_others sched_key_def)
qed

definition mbd2 :: mbd where
  "mbd2 = (mbd1 JOB_STAT_PEND)\<lparr>jD := (\<lambda>a. (jData1 JOB_STAT_PEND)\<lparr>jobId := int a\<rparr>),
     jDataList := (\<lambda>l. if l = PJL then [9, 8] else [])\<rparr>"

theorem inPendJobList_order_witness:
  "let s' = inPendJobList 6 PJL 7 mbd2 in in_order s' (jDataList s' PJL) \<and> jDataList s' PJL \<noteq> []"
proof -
  have "plain_job mbd2 6" "\<forall>jp \<in> set (jDataList mbd2 PJL). plain_job mbd2 jp" "\<not> arraySchedOrder mbd2"
    "(7 :: int) = 0 \<or> PJL \<noteq> PJL \<or>
      \<not> requeueToBottom mbd2 \<and> \<not> has (pe_sigDel (pendEvent (jD mbd2 6))) DEL_ACTION_REQUEUE"
    "in_order mbd2 (jDataList mbd2 PJL)" "6 \<notin> set (jDataList mbd2 PJL)"
    by (simp_all add: mbd2_def cluster1_defs plain_job_def has_def sched_key_def)
  from inPendJobList_order [OF this] show ?thesis by (auto simp: Let_def)
qed

end
