(* ===== verification/Job_State.thy ===== *)
theory Job_State
  imports Job_Lists
begin

unbundle bit_operations_syntax

text \<open>
  The life of a job in mbatchd: \<open>jStatusChange\<close> of \<open>lsbatch/daemons/mbd.job.c\<close>
  and the routines it calls, requeueing, and the cleaning of finished jobs.
  \<open>eventTime\<close> is \<open>LOG_IT\<close> for a change that happens now and the time of the event
  while the event log is replayed.
\<close>

section \<open>Constants\<close>

definition SUB_HOST :: uint32 where "SUB_HOST = 0x04"
definition SUB_CHKPNTABLE :: uint32 where "SUB_CHKPNTABLE = 0x800"
definition SUB_RESTART_FORCE :: uint32 where "SUB_RESTART_FORCE = 0x1000"
definition SUB_RESTART :: uint32 where "SUB_RESTART = 0x2000"
definition SUB_RERUNNABLE :: uint32 where "SUB_RERUNNABLE = 0x4000"
definition SUB_MODIFY_ONCE :: uint32 where "SUB_MODIFY_ONCE = 0x1000000"
definition SUB2_HOLD :: uint32 where "SUB2_HOLD = 0x01"
definition SUB2_BSUB_BLOCK :: uint32 where "SUB2_BSUB_BLOCK = 0x04"
definition EXIT_NORMAL :: uint32 where "EXIT_NORMAL = 0x00"
definition EXIT_KILL_ZOMBIE :: uint32 where "EXIT_KILL_ZOMBIE = 0x08"
definition EXIT_NO_MAPPING :: uint32 where "EXIT_NO_MAPPING = 0x40"
definition EXIT_INIT_ENVIRON :: uint32 where "EXIT_INIT_ENVIRON = 0x100"
definition EXIT_PRE_EXEC :: uint32 where "EXIT_PRE_EXEC = 0x200"
definition PEND_JOB_PRE_EXEC :: uint32 where "PEND_JOB_PRE_EXEC = 6"
definition PEND_JOB_REQUEUED :: uint32 where "PEND_JOB_REQUEUED = 23"
definition PEND_QUE_PRE_FAIL :: uint32 where "PEND_QUE_PRE_FAIL = 306"
definition PEND_SBD_JOB_REQUEUE :: uint32 where "PEND_SBD_JOB_REQUEUE = 311"
definition PEND_USER_STOP :: uint32 where "PEND_USER_STOP = 607"
definition JFLAG_LASTRUN_SUCC :: uint32 where "JFLAG_LASTRUN_SUCC = 0x002"
definition JFLAG_READY :: uint32 where "JFLAG_READY = 0x008"
definition JFLAG_SEND_SIG :: uint32 where "JFLAG_SEND_SIG = 0x10000"
definition JFLAG_READY1 :: uint32 where "JFLAG_READY1 = 0x100000"
definition JFLAG_READY2 :: uint32 where "JFLAG_READY2 = 0x200000"
definition JFLAG_URGENT :: uint32 where "JFLAG_URGENT = 0x400000"
definition JFLAG_URGENT_NOSTOP :: uint32 where "JFLAG_URGENT_NOSTOP = 0x800000"
definition JFLAG_REQUEUE :: uint32 where "JFLAG_REQUEUE = 0x1000000"
definition JFLAG_HAS_BEEN_REQUEUED :: uint32 where "JFLAG_HAS_BEEN_REQUEUED = 0x2000000"
definition JFLAG_WILL_BE_PREEMPTED :: uint32 where "JFLAG_WILL_BE_PREEMPTED = 0x40000000"
definition SIG_NULL :: int where "SIG_NULL = -65535"

abbreviation status :: "mbd \<Rightarrow> addr \<Rightarrow> uint32" where
  "status s j \<equiv> jStatus (jD s j)"

section \<open>Helpers\<close>

fun deallocHostsLoop :: "addr list \<Rightarrow> mbd \<Rightarrow> mbd" where
  "deallocHostsLoop [] s = s"
| "deallocHostsLoop (h # hs) s =
     deallocHostsLoop hs (upd_h h (\<lambda>x. x\<lparr>h_numDispJobs := h_numDispJobs x - 1\<rparr>) s)"

definition deallocHosts :: "addr \<Rightarrow> mbd \<Rightarrow> mbd" where
  "deallocHosts jp s =
     upd_j jp (\<lambda>j. j\<lparr>hPtr := None, numHostPtr := 0\<rparr>) (deallocHostsLoop (job_hosts (jD s jp)) s)"

definition freeReserveSlots :: "addr \<Rightarrow> mbd \<Rightarrow> mbd" where
  "freeReserveSlots jp s =
     (if \<not> has (status s jp) JOB_STAT_RESERVE then s
      else let s = updResCounters jp (status s jp AND NOT JOB_STAT_RESERVE) s;
               s = upd_j jp (\<lambda>j. j\<lparr>jStatus := jStatus j AND NOT JOB_STAT_RESERVE\<rparr>) s
           in deallocHosts jp s)"

definition resetReserve :: "addr \<Rightarrow> uint32 \<Rightarrow> mbd \<Rightarrow> mbd" where
  "resetReserve jp newStatus s =
     (if \<not> has (status s jp) JOB_STAT_RESERVE then s
      else let s = (if (has newStatus JOB_STAT_PSUSP \<or> IS_FINISH newStatus) \<and> has (status s jp) JOB_STAT_PEND
                    then upd_j jp (\<lambda>j. j\<lparr>jStatus := jStatus j AND NOT JOB_STAT_RESERVE, reserveTime := 0\<rparr>)
                           (freeReserveSlots jp s)
                    else s)
           in if IS_START (status s jp) \<and>
                 (has newStatus JOB_STAT_RUN \<or> IS_FINISH newStatus \<or> has newStatus JOB_STAT_USUSP \<or>
                  has newStatus JOB_STAT_PEND)
              then upd_j jp (\<lambda>j. j\<lparr>jStatus := jStatus j AND NOT JOB_STAT_RESERVE\<rparr>)
                     (updResCounters jp (NOT JOB_STAT_RESERVE AND status s jp) s)
              else s)"

definition deallocReservePreemptResources :: "addr \<Rightarrow> mbd \<Rightarrow> mbd" where
  "deallocReservePreemptResources jp =
     upd_j jp (\<lambda>j. j\<lparr>jStatus := jStatus j AND NOT JOB_STAT_RSRC_PREEMPT_WAIT\<rparr>)"

definition freeReservePreemptResources :: "addr \<Rightarrow> mbd \<Rightarrow> mbd" where
  "freeReservePreemptResources jp s =
     deallocReservePreemptResources jp (call (Call_freeReservePreemptResources jp) s)"

definition updateStopJobPreemptResources :: "addr \<Rightarrow> mbd \<Rightarrow> mbd" where
  "updateStopJobPreemptResources jp s =
     (if has (jFlags (jD s jp)) JFLAG_WILL_BE_PREEMPTED
      then upd_j jp (\<lambda>j. j\<lparr>jFlags := jFlags j AND NOT JFLAG_WILL_BE_PREEMPTED\<rparr>) s
      else call (Call_updateStopJobPreemptResources jp) s)"

definition accumRunTime :: "addr \<Rightarrow> uint32 \<Rightarrow> int \<Rightarrow> mbd \<Rightarrow> mbd" where
  "accumRunTime jp newStatus eventTime s =
     (let currentTime = (if eventTime \<noteq> 0 then eventTime else wallClock s);
          j = jD s jp; st = jStatus j;
          (diffTime, j) =
            (if has newStatus JOB_STAT_RUN \<and> has st JOB_STAT_PEND then (0, j\<lparr>runTime := 0\<rparr>)
             else if has newStatus JOB_STAT_RUN \<and> IS_SUSP st then (0, j\<lparr>resumeTime := nowTime s\<rparr>)
             else if \<not> IS_START newStatus \<and> IS_START st then (- runTime j, j\<lparr>runTime := 0\<rparr>)
             else if has st JOB_STAT_RUN
             then let d = currentTime - updStateTime j in (d, j\<lparr>runTime := runTime j + d\<rparr>)
             else (0, j));
          s = upd_j jp (\<lambda>_. j\<lparr>updStateTime := currentTime\<rparr>) s
      in if sa j \<noteq> NULL \<and> diffTime \<noteq> 0 then call (Call_sacctRuntime jp diffTime) s else s)"

definition setJobPendReason :: "addr \<Rightarrow> uint32 \<Rightarrow> mbd \<Rightarrow> mbd" where
  "setJobPendReason jp pendReason = upd_j jp (\<lambda>j. j\<lparr>newReason := pendReason\<rparr>)"

definition jobRequeueTimeUpdate :: "addr \<Rightarrow> int \<Rightarrow> mbd \<Rightarrow> mbd" where
  "jobRequeueTimeUpdate jp t = upd_j jp (\<lambda>j. j\<lparr>requeueTime := t\<rparr>)"

definition cleanCandHosts :: "addr \<Rightarrow> mbd \<Rightarrow> mbd" where
  "cleanCandHosts jp s =
     (if \<not> IS_PEND (status s jp) then s else upd_j jp (\<lambda>j. j\<lparr>jFlags := jFlags j AND NOT JFLAG_READY\<rparr>) s)"

definition freeExecParams :: "addr \<Rightarrow> mbd \<Rightarrow> mbd" where
  "freeExecParams jp s = cleanCandHosts jp (upd_j jp (\<lambda>j. j\<lparr>numHostPtr := 0, hPtr := None\<rparr>) s)"

definition getQueueData :: "string \<Rightarrow> mbd \<Rightarrow> addr" where
  "getQueueData name s = (case List.find (\<lambda>q. queue (qD s q) = name) (qDataList s) of None \<Rightarrow> NULL | Some q \<Rightarrow> q)"

text \<open>
  The modification of a job that takes effect when it finishes or is requeued.
  Where the asked hosts are rejected the routine returns early.
\<close>

definition changeJobParams :: "addr \<Rightarrow> mbd \<Rightarrow> mbd" where
  "changeJobParams jp s =
     (case newSub (jD s jp) of None \<Rightarrow> s\<lparr>died := True\<rparr>
      | Some sub \<Rightarrow>
          let sh = shared (jD s jp); old = jobBill (shD s sh);
              first = (has (jb_options sub) SUB_MODIFY_ONCE \<and> \<not> has (status s jp) JOB_STAT_MODIFY_ONCE);
              s = upd_j jp (\<lambda>j. j\<lparr>jStatus := (if first then jStatus j OR JOB_STAT_MODIFY_ONCE
                                             else jStatus j AND NOT JOB_STAT_MODIFY_ONCE), newSub := None\<rparr>) s;
              s = upd_sh sh (\<lambda>x. x\<lparr>jobBill := sub\<rparr>) s
          in if has (jb_options sub) SUB_HOST \<and> \<not> askedHostsOk s sub then s
             else let s = upd_sh sh (\<lambda>x. x\<lparr>dptRoot := (if jb_dependCond sub = [] then NULL else parsedDep s sub)\<rparr>) s
                  in upd_j jp (\<lambda>j. j\<lparr>newSub := (if first then Some old else newSub j),
                         qPtr := getQueueData (jb_queue sub) s, runCount := 1\<rparr>) s)"

section \<open>Finishing and requeueing\<close>

definition handleFinishJob :: "addr \<Rightarrow> uint32 \<Rightarrow> mbd \<Rightarrow> mbd" where
  "handleFinishJob jp oldStatus s =
     (let j = jD s jp; opts = jb_options (bill s jp);
          del = has (pe_sigDel (pendEvent j)) DEL_ACTION_REQUEUE;
          s = (if (has opts SUB_RERUNNABLE \<or> del) \<and> (has oldStatus JOB_STAT_ZOMBIE \<or> del) \<and>
                  \<not> has (newReason j) EXIT_KILL_ZOMBIE
               then upd_j jp (\<lambda>j. j\<lparr>jFlags := jFlags j OR JFLAG_REQUEUE\<rparr>) s else s);
          s = upd_j jp (\<lambda>j. j\<lparr>jStatus := jStatus j AND NOT JOB_STAT_MIG,
                pendEvent := (pendEvent j)\<lparr>pe_sig1 := SIG_NULL, pe_sig := SIG_NULL, notSwitched := False,
                                           notModified := False\<rparr>\<rparr>) s;
          s = offJobList jp (if IS_START oldStatus then SJL else PJLorMJL jp s) s;
          s = s\<lparr>jDataList := (jDataList s)(FJL := jp # jDataList s FJL)\<rparr>
      in if has opts SUB_MODIFY_ONCE \<and> newSub (jD s jp) \<noteq> None then changeJobParams jp s else s)"

definition initJobPriority :: "mbd \<Rightarrow> addr \<Rightarrow> int" where
  "initJobPriority s jp =
     (if 0 < jb_userPriority (bill s jp) then jb_userPriority (bill s jp)
      else if 0 < maxUserPriority s then maxUserPriority s div 2 else -1)"

definition requeueFields :: "bool \<Rightarrow> jData \<Rightarrow> jData" where
  "requeueFields rerun j =
     j\<lparr>runCount := 1,
       jFlags := (if has (jStatus j) JOB_STAT_DONE then jFlags j OR JFLAG_LASTRUN_SUCC
                  else jFlags j AND NOT JFLAG_LASTRUN_SUCC)
                 AND NOT (JFLAG_READY1 OR JFLAG_READY2) AND NOT (JFLAG_URGENT OR JFLAG_URGENT_NOSTOP),
       startTime := (if rerun \<and> has (jStatus j) JOB_STAT_MIG then 0 else startTime j),
       restartPid := (if rerun \<and> has (jStatus j) JOB_STAT_CHKPNTED_ONCE then jobPid j else restartPid j)\<rparr>"

text \<open>Up to the point where the job gets its pending status.\<close>

definition requeuePrep :: "addr \<Rightarrow> mbd \<Rightarrow> mbd" where
  "requeuePrep jp s =
     (let s = upd_j jp (\<lambda>j. j\<lparr>jFlags := jFlags j AND NOT JFLAG_REQUEUE\<rparr>) s;
          s = (if newSub (jD s jp) \<noteq> None then changeJobParams jp s else s);
          s = (if dptRoot (shD s (shared (jD s jp))) \<noteq> NULL then call (Call_resetDepCond jp) s else s);
          s = upd_j jp (requeueFields (has (jb_options (bill s jp)) SUB_RERUNNABLE)) s
      in countJgrp jp (status s jp) JOB_STAT_PEND s)"

text \<open>The status, the lists and the pending reason.\<close>

definition requeuePend :: "addr \<Rightarrow> int \<Rightarrow> mbd \<Rightarrow> mbd" where
  "requeuePend jp rqTime s =
     (let s = upd_j jp (\<lambda>j. j\<lparr>jStatus := JOB_STAT_PEND, cpuTime := 0, jobPriority := initJobPriority s jp\<rparr>) s;
          s = offJobList jp FJL s;
          s = inPendJobList jp PJL rqTime s;
          s = jobRequeueTimeUpdate jp rqTime s
      in if pe_sig1Flags (pendEvent (jD s jp)) = JOB_STAT_PSUSP
         then let s = upd_j jp (\<lambda>j. j\<lparr>jStatus := JOB_STAT_PSUSP\<rparr>) s;
                  s = setJobPendReason jp PEND_USER_STOP s;
                  s = countJgrp jp JOB_STAT_PEND JOB_STAT_PSUSP s
              in upd_j jp (\<lambda>j. j\<lparr>pendEvent := (pendEvent j)\<lparr>pe_sig1Flags := 0\<rparr>\<rparr>) s
         else setJobPendReason jp PEND_JOB_REQUEUED s)"

definition handleRequeueJob :: "addr \<Rightarrow> int \<Rightarrow> mbd \<Rightarrow> mbd" where
  "handleRequeueJob jp rqTime s =
     (let s = requeuePrep jp s;
          s = requeuePend jp rqTime s;
          s = freeExecParams jp s;
          s = (if mSchedStage s \<noteq> M_STAGE_REPLAY
               then let s = resolveUser jp s; n = jb_maxNumProcessors (bill s jp)
                    in acct_QU jp (Cnts n n 0 0 0 0) s
               else s)
      in if has (jFlags (jD s jp)) JFLAG_HAS_BEEN_REQUEUED
         then s\<lparr>numRemoveJobs := numRemoveJobs s + 1\<rparr>
         else upd_j jp (\<lambda>j. j\<lparr>jFlags := jFlags j OR JFLAG_HAS_BEEN_REQUEUED\<rparr>) s)"

section \<open>Changing the status\<close>

text \<open>Up to and including the assignment of the new state.\<close>

definition changeBegin :: "addr \<Rightarrow> uint32 \<Rightarrow> int \<Rightarrow> mbd \<Rightarrow> mbd" where
  "changeBegin jp newStatus eventTime s =
     (let s = (if eventTime = LOG_IT \<and> has (status s jp) JOB_STAT_RESERVE then resetReserve jp newStatus s else s);
          s = (if eventTime = LOG_IT \<and> has (status s jp) JOB_STAT_RSRC_PREEMPT_WAIT \<and>
                  (\<not> IS_PEND newStatus \<and> \<not> has newStatus JOB_STAT_SSUSP \<or>
                   has newStatus JOB_STAT_PSUSP \<or> IS_FINISH newStatus)
               then freeReservePreemptResources jp s else s);
          s = (if eventTime = LOG_IT \<and> has (status s jp) JOB_STAT_RUN \<and>
                  (\<not> has newStatus JOB_STAT_RUN \<or> IS_FINISH newStatus \<or> IS_SUSP newStatus)
               then updateStopJobPreemptResources jp s else s);
          s = (if 0 \<le> jobId (jD s jp) then countJgrp jp (status s jp) newStatus s else s);
          s = accumRunTime jp newStatus eventTime s;
          s = (if mSchedStage s \<noteq> M_STAGE_REPLAY \<and>
                  (IS_PEND (status s jp) \<and> IS_START newStatus \<or> IS_START (status s jp) \<and> IS_FINISH newStatus)
               then s\<lparr>statusChanged := True\<rparr> else s);
          s = upd_j jp (\<lambda>j. j\<lparr>jStatus := SET_STATE (jStatus j) newStatus\<rparr>) s
      in if has (status s jp) JOB_STAT_PSUSP \<and> has (jb_options2 (bill s jp)) SUB2_HOLD
         then upd_j jp (\<lambda>j. j\<lparr>startTime := 0, endTime := 0\<rparr>) s else s)"

text \<open>The four cases: a job is started, finishes, becomes pending again, or none of these.\<close>

definition changeStart :: "addr \<Rightarrow> int \<Rightarrow> mbd \<Rightarrow> mbd" where
  "changeStart jp eventTime s =
     (let s = upd_j jp (\<lambda>j. j\<lparr>newReason := 0, subreasons := 0, reserveTime := 0\<rparr>) s;
          s = (if eventTime = LOG_IT then call (Call_log_startjob jp (has (status s jp) JOB_STAT_PRE_EXEC)) s else s);
          s = upd_j jp (\<lambda>j. j\<lparr>jStatus := jStatus j AND NOT JOB_STAT_MIG\<rparr>) s;
          s = offJobList jp (PJLorMJL jp s) s
      in inStartJobList jp s)"

definition changeFinish :: "addr \<Rightarrow> uint32 \<Rightarrow> int \<Rightarrow> mbd \<Rightarrow> mbd" where
  "changeFinish jp oldStatus eventTime s =
     (let s = (if \<not> has (status s jp) JOB_STAT_ZOMBIE \<and> newReason (jD s jp) \<noteq> EXIT_INIT_ENVIRON \<and>
                  newReason (jD s jp) \<noteq> EXIT_NO_MAPPING \<and> newReason (jD s jp) \<noteq> EXIT_PRE_EXEC
               then upd_j jp (\<lambda>j. j\<lparr>newReason := EXIT_NORMAL\<rparr>) s else s);
          s = (if (has (jb_options (bill s jp)) SUB_INTERACTIVE \<or> has (jb_options2 (bill s jp)) SUB2_BSUB_BLOCK) \<and>
                  eventTime = LOG_IT \<and> \<not> has (status s jp) JOB_STAT_ZOMBIE
               then call (Call_breakCallback jp (IS_PEND oldStatus)) s else s);
          s = (if eventTime = LOG_IT then call (Call_log_newstatus jp) s else s);
          s = (if runCount (jD s jp) \<noteq> INFINIT_INT
               then upd_j jp (\<lambda>j. j\<lparr>runCount := max 0 (runCount j - 1)\<rparr>) s else s)
      in handleFinishJob jp oldStatus s)"

definition changePend :: "addr \<Rightarrow> int \<Rightarrow> mbd \<Rightarrow> mbd" where
  "changePend jp eventTime s =
     (let now = wallClock s;
          s = (if eventTime = LOG_IT
               then call (Call_detachedJobFromFSTree jp) (jobRequeueTimeUpdate jp now (call (Call_log_newstatus jp) s))
               else jobRequeueTimeUpdate jp eventTime s);
          s = s\<lparr>jDataList := (\<lambda>l. remove1 jp (jDataList s l))\<rparr>;
          r = newReason (jD s jp);
          s = (if r = PEND_JOB_PRE_EXEC \<or> r = PEND_QUE_PRE_FAIL \<or> r = PEND_SBD_JOB_REQUEUE
               then upd_j jp (\<lambda>j. j\<lparr>startTime := 0\<rparr>) s else s);
          s = (if has (status s jp) JOB_STAT_MIG
               then let s = (if has (jb_options (bill s jp)) SUB_CHKPNTABLE
                             then upd_sh (shared (jD s jp)) (\<lambda>x. x\<lparr>jobBill := (jobBill x)\<lparr>jb_options :=
                                    jb_options (jobBill x) OR SUB_RESTART OR SUB_RESTART_FORCE\<rparr>\<rparr>) s
                             else s)
                    in if glMigToPendFlag s
                       then upd_j jp (\<lambda>j. j\<lparr>jStatus := jStatus j AND NOT JOB_STAT_MIG\<rparr>) (inPendJobList jp PJL now s)
                       else inPendJobList jp MJL 0 s
               else if r = PEND_SBD_JOB_REQUEUE then inPendJobList jp PJL now s
               else inPendJobList jp PJL 0 s);
          s = upd_j jp (\<lambda>j. j\<lparr>jStatus := jStatus j AND NOT JOB_STAT_PRE_EXEC\<rparr>) s
      in setJobPendReason jp (newReason (jD s jp)) s)"

definition changeOther :: "addr \<Rightarrow> uint32 \<Rightarrow> int \<Rightarrow> mbd \<Rightarrow> mbd" where
  "changeOther jp newStatus eventTime s =
     (let s = (if eventTime = LOG_IT then call (Call_log_newstatus jp) s else s)
      in if has newStatus JOB_STAT_RUN
         then upd_j jp (\<lambda>j. j\<lparr>newReason := 0, subreasons := 0, reserveTime := 0,
                jFlags := jFlags j AND NOT JFLAG_SEND_SIG\<rparr>) s
         else s)"

text \<open>The counters; while replaying, only a job suspended while waiting needs a correction.\<close>

definition changeCount :: "addr \<Rightarrow> uint32 \<Rightarrow> uint32 \<Rightarrow> int \<Rightarrow> mbd \<Rightarrow> mbd" where
  "changeCount jp oldStatus newStatus eventTime s =
     (if mSchedStage s \<noteq> M_STAGE_REPLAY \<or> eventTime = LOG_IT then updCounters jp oldStatus eventTime s
      else if has oldStatus JOB_STAT_RUN \<and> has oldStatus JOB_STAT_WAIT \<and>
              has newStatus (JOB_STAT_SSUSP OR JOB_STAT_USUSP)
      then let s = offJobList jp SJL s;
               s = upd_j jp (\<lambda>j. j\<lparr>jStatus := (if has newStatus JOB_STAT_SSUSP then JOB_STAT_PEND else JOB_STAT_PSUSP),
                                  hPtr := None, numHostPtr := 0\<rparr>) s
           in inPendJobList jp PJL 0 s
      else s)"

definition jStatusChange :: "addr \<Rightarrow> uint32 \<Rightarrow> int \<Rightarrow> mbd \<Rightarrow> mbd" where
  "jStatusChange jp newStatus eventTime s =
     (let oldStatus = status s jp
      in if jstate newStatus = jstate oldStatus then s
         else let newStatus = MASK_STATUS newStatus;
                  s = changeBegin jp newStatus eventTime s;
                  pends = (\<not> (IS_START newStatus \<and> IS_PEND oldStatus) \<and> \<not> IS_FINISH newStatus \<and>
                           has newStatus JOB_STAT_PEND \<and> IS_START oldStatus);
                  s = (if IS_START newStatus \<and> IS_PEND oldStatus then changeStart jp eventTime s
                       else if IS_FINISH newStatus then changeFinish jp oldStatus eventTime s
                       else if pends then changePend jp eventTime s
                       else changeOther jp newStatus eventTime s);
                  s = changeCount jp oldStatus newStatus eventTime s
              in if pends then freeExecParams jp s else s)"

end
