(* ===== verification/Job_Invariants.thy ===== *)
theory Job_Invariants
  imports Job_State
begin

unbundle bit_operations_syntax

text \<open>
  Two invariants of mbatchd through the changes of a job's status: the counters
  are the sums over the jobs (\<open>books\<close>), and every job is on the one list that
  belongs to its state (\<open>lists_ok\<close>).
\<close>

section \<open>Steps that do not matter for the books\<close>

text \<open>What the books read of a job: of its status, only the state and the reservation flag.\<close>

definition core :: "jData \<Rightarrow> uint32 \<times> bool \<times> int \<times> addr list option \<times> addr \<times> addr \<times> addr" where
  "core j = (jstate (jStatus j), has (jStatus j) JOB_STAT_RESERVE, numHostPtr j, hPtr j, qPtr j, uPtr j, shared j)"

definition calm :: "mbd \<Rightarrow> mbd \<Rightarrow> bool" where
  "calm s s' \<longleftrightarrow> same_cnts s s' \<and> (\<forall>j. core (jD s' j) = core (jD s j)) \<and>
     (\<forall>a. jb_maxNumProcessors (jobBill (shD s' a)) = jb_maxNumProcessors (jobBill (shD s a))) \<and>
     usergroups s' = usergroups s \<and> remote s' = remote s \<and> ugrps s' = ugrps s \<and> uinit s' = uinit s \<and>
     mSchedStage s' = mSchedStage s"

lemma calm_refl [simp, intro]: "calm s s"
  by (simp add: calm_def)

lemma calm_trans [trans]: "calm s s' \<Longrightarrow> calm s' s'' \<Longrightarrow> calm s s''"
  using same_cnts_trans by (simp add: calm_def) blast

lemma calm_upd_j: "(\<And>x. core (f x) = core x) \<Longrightarrow> calm s (upd_j j f s)"
  by (simp add: calm_def same_cnts_def proj_defs)

lemma calm_upd_sh:
  "(\<And>x. jb_maxNumProcessors (jobBill (f x)) = jb_maxNumProcessors (jobBill x)) \<Longrightarrow> calm s (upd_sh a f s)"
  by (simp add: calm_def same_cnts_def proj_defs upd_sh_def)

lemma calm_call [simp]: "calm s (call c s)"
  by (simp add: calm_def proj_defs)

lemma calm_countJgrp [simp]: "calm s (countJgrp j a b s)"
  by (simp add: calm_def same_cnts_def proj_defs)

lemma calm_fields [simp]:
  "calm s (s\<lparr>jDataList := x\<rparr>)" "calm s (s\<lparr>pendJobSlots := n\<rparr>)" "calm s (s\<lparr>statusChanged := b\<rparr>)"
  "calm s (s\<lparr>jDataList := x, pendJobSlots := n\<rparr>)" "calm s (s\<lparr>numRemoveJobs := n\<rparr>)"
  by (simp_all add: calm_def same_cnts_def proj_defs)

lemma calm_quiet: "frame s s' \<Longrightarrow> same_cnts s s' \<Longrightarrow> calm s s'"
  by (simp add: calm_def frame_def)

lemma core_views:
  assumes "core (jD s' j) = core (jD s j)"
  shows "jstate (status s' j) = jstate (status s j)"
    "has (status s' j) JOB_STAT_RESERVE = has (status s j) JOB_STAT_RESERVE"
    "num_of s' j = num_of s j" "qPtr (jD s' j) = qPtr (jD s j)" "uPtr (jD s' j) = uPtr (jD s j)"
    "shared (jD s' j) = shared (jD s j)" "job_hosts (jD s' j) = job_hosts (jD s j)"
  using assms by (simp_all add: core_def job_hosts_def split: option.splits)

text \<open>A contribution depends on the state and the reservation flag only.\<close>

lemma job_cnts_cong:
  assumes "jstate a = jstate b" and "has a JOB_STAT_RESERVE = has b JOB_STAT_RESERVE"
  shows "job_cnts a n r = job_cnts b n r" and "slot_cnts a = slot_cnts b"
  using assms by (simp_all add: job_cnts_def slot_cnts_def stat_preds stat_simps)

lemma has_state_cong:
  assumes "jstate a = jstate b"
  shows "has a JOB_STAT_PEND = has b JOB_STAT_PEND" "has a JOB_STAT_PSUSP = has b JOB_STAT_PSUSP"
    "has a JOB_STAT_RUN = has b JOB_STAT_RUN" "has a JOB_STAT_SSUSP = has b JOB_STAT_SSUSP"
    "has a JOB_STAT_USUSP = has b JOB_STAT_USUSP" "has a JOB_STAT_WAIT = has b JOB_STAT_WAIT"
    "IS_PEND a = IS_PEND b" "IS_START a = IS_START b" "IS_FINISH a = IS_FINISH b" "stat_ok a = stat_ok b"
  using assms by (simp_all add: stat_preds stat_simps stat_ok_def)

lemma updCounters_cong: "jstate a = jstate b \<Longrightarrow> updCounters j a et s = updCounters j b et s"
  by (simp only: updCounters_def has_state_cong [of a b])

lemma calm_views:
  assumes "calm s s'"
  shows "jcn s' = jcn s" "scn s' = scn s" "job_users s' = job_users s" "local_hosts s' = local_hosts s"
    "job_ok s' = job_ok s" "\<And>j. qPtr (jD s' j) = qPtr (jD s j)" "qcn s' = qcn s" "ucn s' = ucn s" "hcn s' = hcn s"
    "\<And>j. num_of s' j = num_of s j" "\<And>j. req_of s' j = req_of s j" "mSchedStage s' = mSchedStage s"
    "\<And>j. jstate (status s' j) = jstate (status s j)"
    "\<And>j. has (status s' j) JOB_STAT_RESERVE = has (status s j) JOB_STAT_RESERVE"
proof -
  have c: "core (jD s' j) = core (jD s j)" for j using assms by (simp add: calm_def)
  note v = core_views [OF c]
  have r: "jb_maxNumProcessors (jobBill (shD s' a)) = jb_maxNumProcessors (jobBill (shD s a))" for a
    using assms by (simp add: calm_def)
  have g: "usergroups s' = usergroups s" "remote s' = remote s" "ugrps s' = ugrps s" "uinit s' = uinit s"
    using assms by (simp_all add: calm_def)
  show "jcn s' = jcn s" "scn s' = scn s"
    using job_cnts_cong [OF v(1,2)] by (simp_all add: fun_eq_iff jcn_def scn_def r v)
  show "job_users s' = job_users s" "local_hosts s' = local_hosts s"
    by (simp_all add: fun_eq_iff job_users_def charged_users_def local_hosts_def g v)
  show "job_ok s' = job_ok s" by (simp add: fun_eq_iff job_ok_def user_ready_def g v r)
  show "qPtr (jD s' j) = qPtr (jD s j)" "num_of s' j = num_of s j" "req_of s' j = req_of s j"
    "jstate (status s' j) = jstate (status s j)"
    "has (status s' j) JOB_STAT_RESERVE = has (status s j) JOB_STAT_RESERVE" for j
    by (simp_all add: v r)
qed (use assms in \<open>simp_all add: calm_def same_cnts_def\<close>)

lemma calm_books_with: "calm s s' \<Longrightarrow> books_with J jc sc s' = books_with J jc sc s"
  by (simp add: books_with_def calm_views)

lemma calm_books: "calm s s' \<Longrightarrow> books J s' = books J s"
  by (simp add: books_def calm_books_with calm_views)

lemma calm_jobs_ok: "calm s s' \<Longrightarrow> jobs_ok J s' = jobs_ok J s"
  by (simp add: jobs_ok_def calm_views)

text \<open>The flags above the state that the routines set and clear.\<close>

lemma flag_core:
  "jstate (w AND NOT JOB_STAT_RSRC_PREEMPT_WAIT) = jstate w"
  "jstate (w AND NOT JOB_STAT_MODIFY_ONCE) = jstate w" "jstate (w OR JOB_STAT_MODIFY_ONCE) = jstate w"
  "has (w AND NOT JOB_STAT_RSRC_PREEMPT_WAIT) JOB_STAT_RESERVE = has w JOB_STAT_RESERVE"
  "has (w AND NOT JOB_STAT_MODIFY_ONCE) JOB_STAT_RESERVE = has w JOB_STAT_RESERVE"
  "has (w OR JOB_STAT_MODIFY_ONCE) JOB_STAT_RESERVE = has w JOB_STAT_RESERVE"
  "has (w AND NOT JOB_STAT_MIG) JOB_STAT_RESERVE = has w JOB_STAT_RESERVE"
  "has (w AND NOT JOB_STAT_PRE_EXEC) JOB_STAT_RESERVE = has w JOB_STAT_RESERVE"
  by (simp_all add: jstate_and has_def stat_flags and.assoc bit.conj_disj_distrib2 and.commute [of _ w])

lemma has_SET_STATE_RESERVE: "has (SET_STATE w (MASK_STATUS n)) JOB_STAT_RESERVE = has w JOB_STAT_RESERVE"
  by (simp add: has_def SET_STATE_def MASK_STATUS_def stat_flags stat_consts and.assoc bit.conj_disj_distrib2)

lemma not_has_MASK_RESERVE [simp]: "\<not> has (MASK_STATUS n) JOB_STAT_RESERVE"
  by (simp add: has_def MASK_STATUS_def stat_flags stat_consts and.assoc)

lemma calm_offJobList: "calm s (offJobList jp l s)"
  by (simp add: offJobList_def Let_def)

lemma calm_clearRequeueDel: "calm s (clearRequeueDel jp s)"
  by (auto simp: clearRequeueDel_def core_def intro!: calm_upd_j)

lemma calm_inPendJobList: "calm s (inPendJobList jp l t s)"
  by (simp only: inPendJobList_def Let_def)
    (rule calm_trans [OF calm_clearRequeueDel calm_trans [OF calm_fields(4) calm_call]])

lemma calm_inStartJobList: "calm s (inStartJobList jp s)"
  by (simp add: inStartJobList_def Let_def)

lemma calm_accumRunTime: "calm s (accumRunTime jp n et s)"
proof -
  define j where "j = jD s jp"
  have "calm s (upd_j jp (\<lambda>_. x) s)" if "core x = core j" for x
    using that by (simp add: calm_def same_cnts_def proj_defs j_def)
  moreover have "core (snd (if has n JOB_STAT_RUN \<and> has (jStatus j) JOB_STAT_PEND then (0, j\<lparr>runTime := 0\<rparr>)
             else if has n JOB_STAT_RUN \<and> IS_SUSP (jStatus j) then (0, j\<lparr>resumeTime := nowTime s\<rparr>)
             else if \<not> IS_START n \<and> IS_START (jStatus j) then (- runTime j, j\<lparr>runTime := 0\<rparr>)
             else if has (jStatus j) JOB_STAT_RUN
             then let d = c - updStateTime j in (d, j\<lparr>runTime := runTime j + d\<rparr>)
             else (0, j))\<lparr>updStateTime := c\<rparr>) = core j" for c
    by (simp add: core_def Let_def)
  ultimately show ?thesis
    unfolding accumRunTime_def j_def [symmetric] Let_def case_prod_unfold
    by (auto intro: calm_trans [OF _ calm_call])
qed

lemma calm_updateStop: "calm s (updateStopJobPreemptResources jp s)"
  by (auto simp: updateStopJobPreemptResources_def core_def intro!: calm_upd_j)

lemma calm_freeReservePreempt: "calm s (freeReservePreemptResources jp s)"
  unfolding freeReservePreemptResources_def deallocReservePreemptResources_def
  by (rule calm_trans [OF calm_call]) (rule calm_upd_j, simp add: core_def flag_core)

lemma calm_cleanCandHosts: "calm s (cleanCandHosts jp s)"
  by (auto simp: cleanCandHosts_def core_def intro!: calm_upd_j)

lemma calm_setJobPendReason: "calm s (setJobPendReason jp r s)"
  by (auto simp: setJobPendReason_def core_def intro!: calm_upd_j)

lemma calm_jobRequeueTimeUpdate: "calm s (jobRequeueTimeUpdate jp r s)"
  by (auto simp: jobRequeueTimeUpdate_def core_def intro!: calm_upd_j)

lemma calm_deallocHostsLoop: "calm s (deallocHostsLoop hs s)"
proof (induction hs arbitrary: s)
  case (Cons h hs)
  have "calm s (upd_h h (\<lambda>x. x\<lparr>h_numDispJobs := h_numDispJobs x - 1\<rparr>) s)"
    by (simp add: calm_def same_cnts_def proj_defs)
  from calm_trans [OF this Cons] show ?case by simp
qed simp

lemma calm_set_stat:
  assumes "calm s t" and "jstate a = jstate b" and "has a JOB_STAT_RESERVE = has b JOB_STAT_RESERVE"
  shows "calm (set_stat j a s) (set_stat j b t)"
  using assms by (simp add: calm_def set_stat_def same_cnts_def proj_defs core_def)

section \<open>A pending job without a reservation can lose its hosts\<close>

lemma total_cong: "(\<And>i. i \<in> J \<Longrightarrow> w i \<noteq> w' i \<Longrightarrow> jc i = 0) \<Longrightarrow> total J w jc = total J w' jc"
  unfolding total_def
  by (intro ext sum.cong refl) (metis cscale_add add_cancel_right_right)

definition drop_hosts :: "addr \<Rightarrow> mbd \<Rightarrow> mbd" where
  "drop_hosts j = upd_j j (\<lambda>x. x\<lparr>numHostPtr := 0, hPtr := None\<rparr>)"

lemma drop_hosts_books:
  assumes b: "books J s" and p: "IS_PEND (status s j)" and r: "\<not> has (status s j) JOB_STAT_RESERVE"
  shows "books J (drop_hosts j s)"
proof -
  have z: "scn s j = 0" using p r by (simp add: scn_def slot_cnts_def)
  have jc: "jcn (drop_hosts j s) = jcn s" and sc: "scn (drop_hosts j s) = scn s"
    using p r by (auto simp: drop_hosts_def fun_eq_iff jcn_def scn_def job_cnts_def)
  have u: "job_users (drop_hosts j s) = job_users s"
    by (simp add: drop_hosts_def fun_eq_iff job_users_def charged_users_def ugrps_def)
  have c: "qcn (drop_hosts j s) = qcn s" "ucn (drop_hosts j s) = ucn s" "hcn (drop_hosts j s) = hcn s"
    "\<And>i. qPtr (jD (drop_hosts j s) i) = qPtr (jD s i)"
    by (simp_all add: drop_hosts_def proj_defs)
  have "local_hosts (drop_hosts j s) i = local_hosts s i" if "i \<noteq> j" for i
    using that by (simp add: drop_hosts_def local_hosts_def remote_def)
  then have "total J (local_hosts (drop_hosts j s)) (scn s) = total J (local_hosts s) (scn s)"
    using z by (intro total_cong) metis
  then show ?thesis using b by (simp add: books_def books_with_def jc sc u c)
qed

lemma drop_hosts_jobs_ok: "jobs_ok J s \<Longrightarrow> jobs_ok J (drop_hosts j s)"
  by (auto simp: jobs_ok_def job_ok_def user_ready_def drop_hosts_def uinit_def)

lemma drop_hosts_upd:
  assumes "\<And>x. core (f x) = core (x\<lparr>numHostPtr := 0, hPtr := None\<rparr>)"
  shows "calm (drop_hosts j s) (upd_j j f s)"
  using assms by (simp add: calm_def drop_hosts_def same_cnts_def proj_defs)

section \<open>Giving up a reservation\<close>

lemma job_hosts_set_stat [simp]: "job_hosts (jD (set_stat j st s) i) = job_hosts (jD s i)"
  by (simp add: set_stat_def)

text \<open>What a routine on the way to a new status leaves alone.\<close>

definition same_lists :: "mbd \<Rightarrow> mbd \<Rightarrow> bool" where
  "same_lists s s' \<longleftrightarrow> jDataList s' = jDataList s \<and> (\<forall>i. jstate (status s' i) = jstate (status s i)) \<and>
     shD s' = shD s \<and> (\<forall>i. newSub (jD s' i) = newSub (jD s i) \<and> shared (jD s' i) = shared (jD s i)) \<and>
     mSchedStage s' = mSchedStage s"

lemma same_lists_refl [simp]: "same_lists s s"
  by (simp add: same_lists_def)

lemma same_lists_trans [trans]: "same_lists s s' \<Longrightarrow> same_lists s' s'' \<Longrightarrow> same_lists s s''"
  by (simp add: same_lists_def)

lemma same_lists_frame: "frame s s' \<Longrightarrow> same_lists s s'"
  by (simp add: same_lists_def frame_def)

lemma same_lists_upd_j:
  "(\<And>x. jstate (jStatus (f x)) = jstate (jStatus x) \<and> newSub (f x) = newSub x \<and> shared (f x) = shared x) \<Longrightarrow>
   same_lists s (upd_j j f s)"
  by (simp add: same_lists_def)

lemma same_lists_deallocHostsLoop: "same_lists s (deallocHostsLoop hs s)"
  by (induction hs arbitrary: s) (simp_all add: same_lists_def)

text \<open>The changes for which \<open>resetReserve\<close> gives up the reservation.\<close>

definition resets :: "uint32 \<Rightarrow> uint32 \<Rightarrow> bool" where
  "resets old new \<longleftrightarrow>
     has old JOB_STAT_PEND \<and> (has new JOB_STAT_PSUSP \<or> IS_FINISH new) \<or>
     (has old JOB_STAT_SSUSP \<or> has old JOB_STAT_USUSP) \<and>
       (has new JOB_STAT_RUN \<or> IS_FINISH new \<or> has new JOB_STAT_USUSP \<or> has new JOB_STAT_PEND)"

definition inv :: "addr set \<Rightarrow> mbd \<Rightarrow> bool" where
  "inv J s \<longleftrightarrow> jobs_ok J s \<and> books J s"

lemma calm_inv: "calm s s' \<Longrightarrow> inv J s' = inv J s"
  by (simp add: inv_def calm_books calm_jobs_ok)

lemma release_step:
  assumes "inv J s" and "j \<in> J" and "stat_ok (status s j)" and "\<not> has (status s j) JOB_STAT_RUN"
    and "\<not> IS_FINISH (status s j)"
  defines "st \<equiv> status s j AND NOT JOB_STAT_RESERVE"
  shows "inv J (set_stat j st (updResCounters j st s))" "frame s (updResCounters j st s)"
proof -
  have "reservable (status s j) st"
    using assms by (simp add: reservable_def stat_ok_def stat_simps)
  then have b: "books J (set_stat j st (updResCounters j st s))" and f: "frame s (updResCounters j st s)"
    using updResCounters_step [of J s j] assms by (auto simp: inv_def)
  have "jobs_ok J (set_stat j st (updResCounters j st s))"
    using assms(1) frame_views(6) [OF f] by (simp add: inv_def jobs_ok_def set_stat_views)
  then show "inv J (set_stat j st (updResCounters j st s))" "frame s (updResCounters j st s)"
    using b f by (simp_all add: inv_def)
qed

lemma freeReserveSlots_step:
  assumes "inv J s" and "j \<in> J" and "stat_ok (status s j)" and p: "has (status s j) JOB_STAT_PEND"
    and r: "has (status s j) JOB_STAT_RESERVE"
  shows "inv J (freeReserveSlots j s)" "same_lists s (freeReserveSlots j s)"
    "\<not> has (status (freeReserveSlots j s) j) JOB_STAT_RESERVE"
proof -
  let ?st = "status s j AND NOT JOB_STAT_RESERVE"
  define s1 where "s1 = set_stat j ?st (updResCounters j ?st s)"
  define s2 where "s2 = deallocHostsLoop (job_hosts (jD s1 j)) s1"
  have q: "\<not> has (status s j) JOB_STAT_RUN" "\<not> IS_FINISH (status s j)" "IS_PEND (status s j)"
    using assms(3,4) by (cases rule: stat_table; simp)+
  have i1: "inv J s1" and f: "frame s (updResCounters j ?st s)"
    using release_step [OF assms(1-3) q(1,2)] by (simp_all add: s1_def)
  have st: "status (updResCounters j ?st s) j = status s j" using f by (simp add: frame_def)
  have eq: "freeReserveSlots j s = upd_j j (\<lambda>x. x\<lparr>hPtr := None, numHostPtr := 0\<rparr>) s2"
    using r set_stat_upd [of j "\<lambda>w. w AND NOT JOB_STAT_RESERVE" "updResCounters j ?st s"]
    by (simp add: freeReserveSlots_def Let_def deallocHosts_def s2_def s1_def st)
  have c2: "calm s1 s2" by (simp add: s2_def calm_deallocHostsLoop)
  have st2: "jstate (status s2 j) = jstate (status s j)" "\<not> has (status s2 j) JOB_STAT_RESERVE"
    using calm_views(13,14) [OF c2] by (simp_all add: s1_def set_stat_views stat_simps)
  have d: "calm (drop_hosts j s2) (freeReserveSlots j s)" unfolding eq by (rule drop_hosts_upd) (simp add: core_def)
  have "IS_PEND (status s2 j)" using q(3) st2(1) has_state_cong(7) by blast
  then show "inv J (freeReserveSlots j s)"
    using i1 c2 st2(2) drop_hosts_books drop_hosts_jobs_ok calm_inv [OF d] calm_inv [OF c2, of J] by (simp add: inv_def)
  have "same_lists s s2"
    using same_lists_frame [OF f] same_lists_deallocHostsLoop
    by (simp add: s2_def s1_def) (rule same_lists_trans, auto simp: set_stat_def same_lists_def stat_simps st)
  then show "same_lists s (freeReserveSlots j s)"
    unfolding eq by (rule same_lists_trans) (rule same_lists_upd_j, simp)
  show "\<not> has (status (freeReserveSlots j s) j) JOB_STAT_RESERVE" unfolding eq using st2(2) by simp
qed

lemma resetReserve_step:
  assumes i: "inv J s" and j: "j \<in> J" and ok: "stat_ok (status s j)" and r: "has (status s j) JOB_STAT_RESERVE"
    and rs: "resets (status s j) new"
  shows "inv J (resetReserve j new s)" "same_lists s (resetReserve j new s)"
    "\<not> has (status (resetReserve j new s) j) JOB_STAT_RESERVE"
proof -
  let ?st = "status s j AND NOT JOB_STAT_RESERVE"
  have "inv J (resetReserve j new s) \<and> same_lists s (resetReserve j new s) \<and>
    \<not> has (status (resetReserve j new s) j) JOB_STAT_RESERVE"
  proof (cases "has (status s j) JOB_STAT_PEND")
    case True
    note fr = freeReserveSlots_step [OF i j ok True r]
    let ?s1 = "freeReserveSlots j s"
    let ?s2 = "upd_j j (\<lambda>x. x\<lparr>jStatus := jStatus x AND NOT JOB_STAT_RESERVE, reserveTime := 0\<rparr>) ?s1"
    have ns: "\<not> IS_START (status s j)" and ps: "has new JOB_STAT_PSUSP \<or> IS_FINISH new"
      using ok True rs by (cases rule: stat_table; simp add: resets_def)+
    have js: "jstate (status ?s2 j) = jstate (status s j)"
      using fr(2) by (simp add: same_lists_def stat_simps)
    then have eq: "resetReserve j new s = ?s2"
      using True r ps ns has_state_cong(8) [OF js] by (simp add: resetReserve_def Let_def)
    have "calm ?s1 ?s2"
    proof -
      have "\<not> has (status ?s1 j) JOB_STAT_RESERVE" by (rule fr(3))
      then show ?thesis by (simp add: calm_def same_cnts_def proj_defs core_def stat_simps)
    qed
    then have "inv J ?s2" using fr(1) by (simp add: calm_inv)
    moreover have "same_lists s ?s2"
      by (rule same_lists_trans [OF fr(2)]) (rule same_lists_upd_j, simp add: stat_simps)
    ultimately show ?thesis unfolding eq by (simp add: stat_simps)
  next
    case False
    have q: "\<not> has (status s j) JOB_STAT_RUN" "\<not> IS_FINISH (status s j)" "IS_START (status s j)"
      "has new JOB_STAT_RUN \<or> IS_FINISH new \<or> has new JOB_STAT_USUSP \<or> has new JOB_STAT_PEND"
      using ok False rs by (cases rule: stat_table; simp add: resets_def)+
    note rl = release_step [OF i j ok q(1,2)]
    have "status (updResCounters j ?st s) j = status s j" using rl(2) by (simp add: frame_def)
    then have eq: "resetReserve j new s = set_stat j ?st (updResCounters j ?st s)"
      using False r q(3,4) set_stat_upd [of j "\<lambda>w. w AND NOT JOB_STAT_RESERVE" "updResCounters j ?st s"]
      by (simp add: resetReserve_def Let_def and.commute [of "NOT JOB_STAT_RESERVE"])
    have "same_lists s (set_stat j ?st (updResCounters j ?st s))"
      using rl(2) by (simp add: same_lists_def set_stat_def frame_def stat_simps)
    then show ?thesis unfolding eq using rl(1) by (simp add: set_stat_views stat_simps)
  qed
  then show "inv J (resetReserve j new s)" "same_lists s (resetReserve j new s)"
    "\<not> has (status (resetReserve j new s) j) JOB_STAT_RESERVE" by blast+
qed

section \<open>The stages of a change\<close>

definition mild :: "mbd \<Rightarrow> mbd \<Rightarrow> bool" where
  "mild s s' \<longleftrightarrow> calm s s' \<and> same_lists s s'"

lemma mild_refl [simp, intro]: "mild s s"
  by (simp add: mild_def)

lemma mild_trans [trans]: "mild s s' \<Longrightarrow> mild s' s'' \<Longrightarrow> mild s s''"
  unfolding mild_def using calm_trans same_lists_trans by blast

lemma mild_if: "(b \<Longrightarrow> mild s s') \<Longrightarrow> mild s (if b then s' else s)"
  by simp

lemma mild_upd_j: "(\<And>x. core (f x) = core x \<and> newSub (f x) = newSub x) \<Longrightarrow> mild s (upd_j j f s)"
  unfolding mild_def by (intro conjI calm_upd_j same_lists_upd_j) (simp_all add: core_def)

lemma mild_call [simp]: "mild s (call c s)"
  by (simp add: mild_def same_lists_def)

lemma mild_countJgrp [simp]: "mild s (countJgrp j a b s)"
  by (simp add: mild_def same_lists_def)

lemma mild_statusChanged [simp]: "mild s (s\<lparr>statusChanged := b\<rparr>)"
  by (simp add: mild_def same_lists_def)

lemma mild_accumRunTime: "mild s (accumRunTime jp n et s)"
proof -
  have "newSub (jD (accumRunTime jp n et s) i) = newSub (jD s i)"
    "shared (jD (accumRunTime jp n et s) i) = shared (jD s i)" "jDataList (accumRunTime jp n et s) = jDataList s"
    "shD (accumRunTime jp n et s) = shD s" for i
    by (simp_all add: accumRunTime_def Let_def split: if_splits)
  then show ?thesis
    using calm_accumRunTime [of s jp n et] calm_views(12,13) [OF calm_accumRunTime] by (simp add: mild_def same_lists_def)
qed

lemma mild_updateStop: "mild s (updateStopJobPreemptResources jp s)"
  by (auto simp: updateStopJobPreemptResources_def core_def intro!: mild_upd_j)

lemma mild_freeReservePreempt: "mild s (freeReservePreemptResources jp s)"
  unfolding freeReservePreemptResources_def deallocReservePreemptResources_def
  by (rule mild_trans [OF mild_call]) (rule mild_upd_j, simp add: core_def flag_core)

lemma mild_setJobPendReason: "mild s (setJobPendReason jp r s)"
  by (auto simp: setJobPendReason_def core_def intro!: mild_upd_j)

lemma mild_jobRequeueTimeUpdate: "mild s (jobRequeueTimeUpdate jp r s)"
  by (auto simp: jobRequeueTimeUpdate_def core_def intro!: mild_upd_j)

lemma mild_set_stat:
  assumes "mild s t" and "jstate a = jstate b" and "has a JOB_STAT_RESERVE = has b JOB_STAT_RESERVE"
  shows "mild (set_stat j a s) (set_stat j b t)"
  using assms calm_set_stat [of s t a b j] by (auto simp: mild_def same_lists_def set_stat_def)

definition begun :: "addr \<Rightarrow> uint32 \<Rightarrow> int \<Rightarrow> mbd \<Rightarrow> mbd" where
  "begun jp newStatus eventTime s =
     (if eventTime = LOG_IT \<and> has (status s jp) JOB_STAT_RESERVE then resetReserve jp newStatus s else s)"

lemma changeBegin_step:
  assumes "new = MASK_STATUS n"
  shows "mild (set_stat j (SET_STATE (status (begun j new et s) j) new) (begun j new et s)) (changeBegin j new et s)"
proof -
  define s1 where "s1 = begun j new et s"
  define s2 where "s2 = (if et = LOG_IT \<and> has (status s1 j) JOB_STAT_RSRC_PREEMPT_WAIT \<and>
    (\<not> IS_PEND new \<and> \<not> has new JOB_STAT_SSUSP \<or> has new JOB_STAT_PSUSP \<or> IS_FINISH new)
    then freeReservePreemptResources j s1 else s1)"
  define s3 where "s3 = (if et = LOG_IT \<and> has (status s2 j) JOB_STAT_RUN \<and>
    (\<not> has new JOB_STAT_RUN \<or> IS_FINISH new \<or> IS_SUSP new) then updateStopJobPreemptResources j s2 else s2)"
  define s4 where "s4 = (if 0 \<le> jobId (jD s3 j) then countJgrp j (status s3 j) new s3 else s3)"
  define s5 where "s5 = accumRunTime j new et s4"
  define s6 where "s6 = (if mSchedStage s5 \<noteq> M_STAGE_REPLAY \<and>
    (IS_PEND (status s5 j) \<and> IS_START new \<or> IS_START (status s5 j) \<and> IS_FINISH new) then s5\<lparr>statusChanged := True\<rparr> else s5)"
  define s7 where "s7 = set_stat j (SET_STATE (status s6 j) new) s6"
  define s8 where "s8 = (if has (status s7 j) JOB_STAT_PSUSP \<and> has (jb_options2 (bill s7 j)) SUB2_HOLD
    then upd_j j (\<lambda>x. x\<lparr>startTime := 0, endTime := 0\<rparr>) s7 else s7)"
  have eq: "changeBegin j new et s = s8"
    using set_stat_upd [of j "\<lambda>w. SET_STATE w new" s6]
    by (simp only: changeBegin_def Let_def begun_def s1_def s2_def s3_def s4_def s5_def s6_def s7_def s8_def)
  have "mild s1 s2" "mild s2 s3" "mild s3 s4" "mild s4 s5" "mild s5 s6"
    unfolding s2_def s3_def s4_def s5_def s6_def
    using mild_freeReservePreempt mild_updateStop mild_accumRunTime by (simp_all split: if_splits)
  then have "mild s1 s6" using mild_trans by meson
  then have "mild (set_stat j (SET_STATE (status s1 j) new) s1) s7"
    unfolding s7_def
    by (rule mild_set_stat) (use \<open>mild s1 s6\<close> calm_views(14) in \<open>auto simp: stat_simps assms has_SET_STATE_RESERVE mild_def\<close>)
  moreover have "mild s7 s8" unfolding s8_def by (rule mild_if, rule mild_upd_j, simp add: core_def)
  ultimately show ?thesis unfolding eq s1_def [symmetric] by (rule mild_trans)
qed

section \<open>Lists\<close>

definition on_list :: "mbd \<Rightarrow> addr \<Rightarrow> jlistno \<Rightarrow> bool" where
  "on_list s j l \<longleftrightarrow> (\<forall>l'. l' \<noteq> ZJL \<longrightarrow> (j \<in> set (jDataList s l') \<longleftrightarrow> l' = l))"

definition homes :: "uint32 \<Rightarrow> jlistno set" where
  "homes st = (if IS_START st then {SJL} else if IS_FINISH st then {FJL} else {PJL, MJL})"

definition distinct_lists :: "mbd \<Rightarrow> bool" where
  "distinct_lists s \<longleftrightarrow> (\<forall>l. distinct (jDataList s l))"

text \<open>Every job is on exactly one list, and that list belongs to its state.\<close>

definition lists_ok :: "addr set \<Rightarrow> mbd \<Rightarrow> bool" where
  "lists_ok J s \<longleftrightarrow> distinct_lists s \<and> (\<forall>j \<in> J. \<exists>l \<in> homes (status s j). on_list s j l)"

definition moved :: "addr \<Rightarrow> jlistno \<Rightarrow> mbd \<Rightarrow> mbd \<Rightarrow> bool" where
  "moved j l s s' \<longleftrightarrow> distinct_lists s' \<and> on_list s' j l \<and>
     (\<forall>i l'. i \<noteq> j \<longrightarrow> (i \<in> set (jDataList s' l') \<longleftrightarrow> i \<in> set (jDataList s l')))"

lemma moved_cong: "jDataList s = jDataList t \<Longrightarrow> jDataList s' = jDataList t' \<Longrightarrow> moved j l s s' = moved j l t t'"
  by (simp add: moved_def on_list_def distinct_lists_def)

text \<open>Leaving every list and entering one.\<close>

lemma moved_off_in:
  assumes "distinct_lists s" and "l \<noteq> ZJL"
    and "jDataList s' = (\<lambda>l. remove1 j (jDataList s l))(l := insBefore j p (remove1 j (jDataList s l)))"
  shows "moved j l s s'"
  using assms by (auto simp: moved_def on_list_def distinct_lists_def)

lemma moved_off_front:
  assumes "distinct_lists s"
    and "jDataList s' = (\<lambda>l. remove1 j (jDataList s l))(FJL := j # remove1 j (jDataList s FJL))"
  shows "moved j FJL s s'"
  using assms by (auto simp: moved_def on_list_def distinct_lists_def)

lemma homes_cong: "jstate a = jstate b \<Longrightarrow> homes a = homes b"
  by (simp only: homes_def has_state_cong [of a b])

lemma lists_ok_moved:
  assumes "lists_ok J s" and "moved j l s s'" and "l \<in> homes (status s' j)"
    and "\<And>i. i \<noteq> j \<Longrightarrow> jstate (status s' i) = jstate (status s i)"
  shows "lists_ok J s'"
  unfolding lists_ok_def
proof (intro conjI ballI)
  show "distinct_lists s'" using assms(2) by (simp add: moved_def)
  fix i
  assume i: "i \<in> J"
  show "\<exists>l \<in> homes (status s' i). on_list s' i l"
  proof (cases "i = j")
    case True
    then show ?thesis using assms(2,3) by (auto simp: moved_def)
  next
    case False
    then have "homes (status s' i) = homes (status s i)" "\<And>l. on_list s' i l = on_list s i l"
      using homes_cong [OF assms(4) [OF False]] assms(2) by (auto simp: moved_def on_list_def)
    then show ?thesis using assms(1) i by (auto simp: lists_ok_def)
  qed
qed

lemma lists_ok_same:
  assumes "lists_ok J s" and "jDataList s' = jDataList s" and "\<And>i. homes (status s' i) = homes (status s i)"
  shows "lists_ok J s'"
  using assms by (simp add: lists_ok_def distinct_lists_def on_list_def)

section \<open>The four cases\<close>

lemma calm_inPend_moved:
  assumes "distinct_lists s" and "l \<noteq> ZJL"
  shows "moved j l s (inPendJobList j l t (s\<lparr>jDataList := (\<lambda>l. remove1 j (jDataList s l))\<rparr>))"
proof -
  let ?s1 = "s\<lparr>jDataList := (\<lambda>l. remove1 j (jDataList s l))\<rparr>"
  obtain p where "jDataList (inPendJobList j l t ?s1) = (jDataList ?s1)(l := insBefore j p (jDataList ?s1 l))"
    by (rule inPendJobList_lists)
  then show ?thesis by (intro moved_off_in [OF assms]) simp
qed

lemma changeStart_step:
  assumes "distinct_lists s"
  shows "calm s (changeStart j et s)" and "moved j SJL s (changeStart j et s)"
proof -
  define s1 where "s1 = upd_j j (\<lambda>j. j\<lparr>newReason := 0, subreasons := 0, reserveTime := 0\<rparr>) s"
  define s2 where "s2 = (if et = LOG_IT then call (Call_log_startjob j (has (status s1 j) JOB_STAT_PRE_EXEC)) s1 else s1)"
  define s3 where "s3 = upd_j j (\<lambda>j. j\<lparr>jStatus := jStatus j AND NOT JOB_STAT_MIG\<rparr>) s2"
  define s4 where "s4 = offJobList j (PJLorMJL j s3) s3"
  have eq: "changeStart j et s = inStartJobList j s4"
    by (simp only: changeStart_def Let_def s1_def s2_def s3_def s4_def)
  have c: "calm s s1" "calm s1 s2" "calm s2 s3" "calm s3 s4" "calm s4 (inStartJobList j s4)"
    unfolding s1_def s2_def s3_def s4_def
    by (auto simp: core_def stat_simps flag_core calm_offJobList calm_inStartJobList intro!: calm_upd_j)
  then show "calm s (changeStart j et s)" unfolding eq using calm_trans by meson
  have l: "jDataList s3 = jDataList s" by (simp add: s1_def s2_def s3_def)
  obtain p where "inStartJobList j s4 = s4\<lparr>jDataList := (jDataList s4)(SJL := insBefore j p (jDataList s4 SJL))\<rparr>"
    by (rule inStartJobList_lists)
  then show "moved j SJL s (changeStart j et s)"
    unfolding eq by (intro moved_off_in [OF assms]) (simp_all add: s4_def l)
qed

lemma changeOther_step: "mild s (changeOther j n et s)"
proof -
  have "mild s (if et = LOG_IT then call (Call_log_newstatus j) s else s)" by simp
  moreover have "mild s' (if has n JOB_STAT_RUN then upd_j j (\<lambda>j. j\<lparr>newReason := 0, subreasons := 0, reserveTime := 0,
      jFlags := jFlags j AND NOT JFLAG_SEND_SIG\<rparr>) s' else s')" for s'
    by (rule mild_if, rule mild_upd_j, simp add: core_def)
  ultimately show ?thesis unfolding changeOther_def Let_def by (rule mild_trans)
qed

lemma handleFinishJob_step:
  assumes "distinct_lists s" and "\<not> (has (jb_options (bill s j)) SUB_MODIFY_ONCE \<and> newSub (jD s j) \<noteq> None)"
  shows "calm s (handleFinishJob j old s)" and "moved j FJL s (handleFinishJob j old s)"
proof -
  define s1 where "s1 = (if (has (jb_options (bill s j)) SUB_RERUNNABLE \<or> has (pe_sigDel (pendEvent (jD s j))) DEL_ACTION_REQUEUE) \<and>
      (has old JOB_STAT_ZOMBIE \<or> has (pe_sigDel (pendEvent (jD s j))) DEL_ACTION_REQUEUE) \<and> \<not> has (newReason (jD s j)) EXIT_KILL_ZOMBIE
    then upd_j j (\<lambda>j. j\<lparr>jFlags := jFlags j OR JFLAG_REQUEUE\<rparr>) s else s)"
  define s2 where "s2 = upd_j j (\<lambda>j. j\<lparr>jStatus := jStatus j AND NOT JOB_STAT_MIG,
                pendEvent := (pendEvent j)\<lparr>pe_sig1 := SIG_NULL, pe_sig := SIG_NULL, notSwitched := False,
                                           notModified := False\<rparr>\<rparr>) s1"
  define s3 where "s3 = offJobList j (if IS_START old then SJL else PJLorMJL j s2) s2"
  define s4 where "s4 = s3\<lparr>jDataList := (jDataList s3)(FJL := j # jDataList s3 FJL)\<rparr>"
  have c: "calm s s1" "calm s1 s2" "calm s2 s3" "calm s3 s4"
    unfolding s1_def s2_def s3_def s4_def
    by (auto simp: core_def stat_simps flag_core calm_offJobList intro!: calm_upd_j)
  have "newSub (jD s4 j) = newSub (jD s j)"
    by (simp add: s4_def s3_def s2_def s1_def offJobList_def Let_def)
  then have eq: "handleFinishJob j old s = s4"
    using assms(2) by (simp only: handleFinishJob_def Let_def s1_def s2_def s3_def s4_def simp_thms if_False)
  show "calm s (handleFinishJob j old s)" unfolding eq using c calm_trans by meson
  have l: "jDataList s2 = jDataList s" by (simp add: s1_def s2_def)
  show "moved j FJL s (handleFinishJob j old s)"
    unfolding eq by (rule moved_off_front [OF assms(1)]) (simp add: s4_def s3_def l)
qed

definition modifies_once :: "mbd \<Rightarrow> addr \<Rightarrow> bool" where
  "modifies_once s j \<longleftrightarrow> has (jb_options (bill s j)) SUB_MODIFY_ONCE \<and> newSub (jD s j) \<noteq> None"

lemma same_lists_modifies: "same_lists s s' \<Longrightarrow> modifies_once s' j = modifies_once s j"
  by (simp add: same_lists_def modifies_once_def)

lemma changeFinish_step:
  assumes "distinct_lists s" and "\<not> modifies_once s j"
  shows "calm s (changeFinish j old et s)" and "moved j FJL s (changeFinish j old et s)"
proof -
  define s1 where "s1 = (if \<not> has (status s j) JOB_STAT_ZOMBIE \<and> newReason (jD s j) \<noteq> EXIT_INIT_ENVIRON \<and>
      newReason (jD s j) \<noteq> EXIT_NO_MAPPING \<and> newReason (jD s j) \<noteq> EXIT_PRE_EXEC
    then upd_j j (\<lambda>j. j\<lparr>newReason := EXIT_NORMAL\<rparr>) s else s)"
  define s2 where "s2 = (if (has (jb_options (bill s1 j)) SUB_INTERACTIVE \<or> has (jb_options2 (bill s1 j)) SUB2_BSUB_BLOCK) \<and>
      et = LOG_IT \<and> \<not> has (status s1 j) JOB_STAT_ZOMBIE
    then call (Call_breakCallback j (IS_PEND old)) s1 else s1)"
  define s3 where "s3 = (if et = LOG_IT then call (Call_log_newstatus j) s2 else s2)"
  define s4 where "s4 = (if runCount (jD s3 j) \<noteq> INFINIT_INT
    then upd_j j (\<lambda>j. j\<lparr>runCount := max 0 (runCount j - 1)\<rparr>) s3 else s3)"
  have eq: "changeFinish j old et s = handleFinishJob j old s4"
    by (simp only: changeFinish_def Let_def s1_def s2_def s3_def s4_def)
  have "mild s s1" "mild s3 s4"
    unfolding s1_def s4_def by (rule mild_if, rule mild_upd_j, simp add: core_def)+
  moreover have "mild s1 s2" "mild s2 s3" unfolding s2_def s3_def by simp_all
  ultimately have m: "mild s s4" using mild_trans by meson
  then have l: "jDataList s4 = jDataList s" "\<not> modifies_once s4 j"
    using assms(2) same_lists_modifies by (auto simp: mild_def same_lists_def)
  then have d: "distinct_lists s4" using assms(1) by (simp add: distinct_lists_def)
  note h = handleFinishJob_step [OF d, of j old, folded modifies_once_def, OF l(2)]
  show "calm s (changeFinish j old et s)" unfolding eq using h(1) m calm_trans by (auto simp: mild_def)
  show "moved j FJL s (changeFinish j old et s)" unfolding eq using h(2) l(1) by (simp add: moved_def)
qed

text \<open>Entering a pending list at the end of \<open>changePend\<close>.\<close>

definition pendAgain :: "addr \<Rightarrow> uint32 \<Rightarrow> int \<Rightarrow> mbd \<Rightarrow> mbd" where
  "pendAgain jp r now s =
     (if has (status s jp) JOB_STAT_MIG
      then let s = (if has (jb_options (bill s jp)) SUB_CHKPNTABLE
                    then upd_sh (shared (jD s jp)) (\<lambda>x. x\<lparr>jobBill := (jobBill x)\<lparr>jb_options :=
                           jb_options (jobBill x) OR SUB_RESTART OR SUB_RESTART_FORCE\<rparr>\<rparr>) s
                    else s)
           in if glMigToPendFlag s
              then upd_j jp (\<lambda>j. j\<lparr>jStatus := jStatus j AND NOT JOB_STAT_MIG\<rparr>) (inPendJobList jp PJL now s)
              else inPendJobList jp MJL 0 s
      else if r = PEND_SBD_JOB_REQUEUE then inPendJobList jp PJL now s
      else inPendJobList jp PJL 0 s)"

lemma pendAgain_lists:
  "\<exists>l \<in> {PJL, MJL}. \<exists>p. jDataList (pendAgain j r now s) = (jDataList s)(l := insBefore j p (jDataList s l))"
proof -
  define s1 where "s1 = (if has (jb_options (bill s j)) SUB_CHKPNTABLE
    then upd_sh (shared (jD s j)) (\<lambda>x. x\<lparr>jobBill := (jobBill x)\<lparr>jb_options :=
           jb_options (jobBill x) OR SUB_RESTART OR SUB_RESTART_FORCE\<rparr>\<rparr>) s else s)"
  have l: "jDataList s1 = jDataList s" by (simp add: s1_def upd_sh_def)
  have "\<exists>p. jDataList (inPendJobList j l t s') = (jDataList s')(l := insBefore j p (jDataList s' l))" for l t s'
    using inPendJobList_lists [of j l t s'] by blast
  note pl = this [of PJL now s1] this [of MJL 0 s1] this [of PJL now s] this [of PJL 0 s]
  show ?thesis
    unfolding pendAgain_def s1_def [symmetric] Let_def using pl [unfolded l] by auto
qed

lemma calm_pendAgain: "calm s (pendAgain j r now s)"
proof -
  define s1 where "s1 = (if has (jb_options (bill s j)) SUB_CHKPNTABLE
    then upd_sh (shared (jD s j)) (\<lambda>x. x\<lparr>jobBill := (jobBill x)\<lparr>jb_options :=
           jb_options (jobBill x) OR SUB_RESTART OR SUB_RESTART_FORCE\<rparr>\<rparr>) s else s)"
  have c: "calm s s1" unfolding s1_def by (auto intro: calm_upd_sh)
  have m: "calm s' (upd_j j (\<lambda>j. j\<lparr>jStatus := jStatus j AND NOT JOB_STAT_MIG\<rparr>) s')" for s'
    by (rule calm_upd_j) (simp add: core_def stat_simps flag_core)
  have "calm s1 (if glMigToPendFlag s1
      then upd_j j (\<lambda>j. j\<lparr>jStatus := jStatus j AND NOT JOB_STAT_MIG\<rparr>) (inPendJobList j PJL now s1)
      else inPendJobList j MJL 0 s1)"
    using calm_trans [OF calm_inPendJobList m] calm_inPendJobList by (simp split: if_splits)
  from calm_trans [OF c this] show ?thesis
    unfolding pendAgain_def s1_def [symmetric] Let_def by (simp add: calm_inPendJobList)
qed

lemma changePend_step:
  assumes "distinct_lists s"
  shows "calm s (changePend j et s)" and "\<exists>l \<in> {PJL, MJL}. moved j l s (changePend j et s)"
proof -
  define s1 where "s1 = (if et = LOG_IT
    then call (Call_detachedJobFromFSTree j) (jobRequeueTimeUpdate j (wallClock s) (call (Call_log_newstatus j) s))
    else jobRequeueTimeUpdate j et s)"
  define s2 where "s2 = s1\<lparr>jDataList := (\<lambda>l. remove1 j (jDataList s1 l))\<rparr>"
  define r where "r = newReason (jD s2 j)"
  define s3 where "s3 = (if r = PEND_JOB_PRE_EXEC \<or> r = PEND_QUE_PRE_FAIL \<or> r = PEND_SBD_JOB_REQUEUE
    then upd_j j (\<lambda>j. j\<lparr>startTime := 0\<rparr>) s2 else s2)"
  define s4 where "s4 = pendAgain j r (wallClock s) s3"
  define s5 where "s5 = upd_j j (\<lambda>j. j\<lparr>jStatus := jStatus j AND NOT JOB_STAT_PRE_EXEC\<rparr>) s4"
  have eq: "changePend j et s = setJobPendReason j (newReason (jD s5 j)) s5"
    by (simp only: changePend_def Let_def s1_def s2_def r_def s3_def s4_def s5_def pendAgain_def)
  have m1: "mild s s1"
    unfolding s1_def using mild_trans [OF mild_trans [OF mild_call mild_jobRequeueTimeUpdate] mild_call]
      mild_jobRequeueTimeUpdate by auto
  have m3: "mild s2 s3" unfolding s3_def by (rule mild_if, rule mild_upd_j, simp add: core_def)
  have c5: "calm s4 s5" unfolding s5_def by (rule calm_upd_j) (simp add: core_def stat_simps flag_core)
  have "calm s s1" "calm s1 s2" "calm s2 s3" "calm s3 s4" "calm s5 (changePend j et s)"
    using m1 m3 calm_pendAgain calm_setJobPendReason by (auto simp: mild_def s2_def s4_def eq)
  with c5 show "calm s (changePend j et s)" using calm_trans by meson
  have l: "jDataList s3 = (\<lambda>l. remove1 j (jDataList s l))"
    using m1 m3 by (simp add: mild_def same_lists_def s2_def)
  obtain l p where lp: "l \<in> {PJL, MJL}" "jDataList s4 = (jDataList s3)(l := insBefore j p (jDataList s3 l))"
    using pendAgain_lists [of j r "wallClock s" s3] s4_def by auto
  have "jDataList (changePend j et s) = jDataList s4"
    unfolding eq by (simp add: setJobPendReason_def s5_def)
  then have "moved j l s (changePend j et s)"
    using lp l by (intro moved_off_in [OF assms]) auto
  with lp(1) show "\<exists>l \<in> {PJL, MJL}. moved j l s (changePend j et s)" by blast
qed

section \<open>The whole change\<close>

lemma accounted_cong:
  assumes "accounted a b" and "jstate a' = jstate a" and "jstate b' = jstate b"
    and "\<not> has a' JOB_STAT_RESERVE" and "\<not> has b' JOB_STAT_RESERVE"
  shows "accounted a' b'"
  using assms(1,4,5) by (simp add: accounted_def has_state_cong [OF assms(2)] has_state_cong [OF assms(3)] assms(3))

lemma updCounters_calm:
  assumes i: "inv J s" and j: "j \<in> J" and c: "calm (set_stat j st s) t"
    and acc: "accounted (status s j) (status t j)"
  shows "inv J (updCounters j (status s j) et t)" and "frame t (updCounters j (status s j) et t)"
proof -
  note v = calm_views [OF c, unfolded set_stat_views]
  have ok: "jobs_ok J t" using i by (simp add: inv_def calm_jobs_ok [OF c] set_stat_views)
  have "(jcn t)(j := job_cnts (status s j) (num_of t j) (req_of t j)) = jcn s"
    "(scn t)(j := slot_cnts (status s j)) = scn s"
    by (simp_all add: v fun_eq_iff jcn_def scn_def)
  moreover have "books_with J (jcn s) (scn s) t"
    using i by (simp add: inv_def books_def calm_books_with [OF c] set_stat_books_with)
  ultimately have b: "books J (updCounters j (status s j) et t)" and f: "frame t (updCounters j (status s j) et t)"
    using updCounters_from [OF ok j acc] by simp_all
  then show "inv J (updCounters j (status s j) et t)" using ok jobs_ok_frame [OF f] by (simp add: inv_def)
  show "frame t (updCounters j (status s j) et t)" by (rule f)
qed

lemma other_homes:
  assumes "accounted a b" and "\<not> (IS_START b \<and> IS_PEND a)" and "\<not> IS_FINISH b"
    and "\<not> (has b JOB_STAT_PEND \<and> IS_START a)"
  shows "homes a = homes b"
proof -
  have "stat_ok a" "stat_ok b" using assms(1) by (simp_all add: accounted_def)
  from this(1) show ?thesis
  proof (cases rule: stat_table)
    case PEND with \<open>stat_ok b\<close> assms show ?thesis by (cases rule: stat_table) (simp_all add: homes_def accounted_def)
  next
    case PSUSP with \<open>stat_ok b\<close> assms show ?thesis by (cases rule: stat_table) (simp_all add: homes_def accounted_def)
  next
    case RUN with \<open>stat_ok b\<close> assms show ?thesis by (cases rule: stat_table) (simp_all add: homes_def accounted_def)
  next
    case RWAIT with \<open>stat_ok b\<close> assms show ?thesis by (cases rule: stat_table) (simp_all add: homes_def accounted_def)
  next
    case SSUSP with \<open>stat_ok b\<close> assms show ?thesis by (cases rule: stat_table) (simp_all add: homes_def accounted_def)
  next
    case USUSP with \<open>stat_ok b\<close> assms show ?thesis by (cases rule: stat_table) (simp_all add: homes_def accounted_def)
  next
    case EXIT with \<open>stat_ok b\<close> assms show ?thesis by (cases rule: stat_table) (simp_all add: homes_def accounted_def)
  next
    case DONE with \<open>stat_ok b\<close> assms show ?thesis by (cases rule: stat_table) (simp_all add: homes_def accounted_def)
  qed
qed

definition change_case :: "addr \<Rightarrow> uint32 \<Rightarrow> uint32 \<Rightarrow> int \<Rightarrow> mbd \<Rightarrow> mbd" where
  "change_case j old new et s =
     (if IS_START new \<and> IS_PEND old then changeStart j et s
      else if IS_FINISH new then changeFinish j old et s
      else if has new JOB_STAT_PEND \<and> IS_START old then changePend j et s
      else changeOther j new et s)"

text \<open>
  The case that applies puts the job on a list of its new state.  \<open>s\<close> is the
  state before the change, \<open>t\<close> the state with the new status.
\<close>

lemma change_case_step:
  assumes l: "lists_ok J s" and t: "jDataList t = jDataList s" and st: "jstate (status t j) = jstate new"
    and others: "\<forall>i. i \<noteq> j \<longrightarrow> jstate (status t i) = jstate (status s i)"
    and acc: "accounted a new" "jstate a = jstate (status s j)" "jstate old = jstate a"
    and once: "\<not> (IS_FINISH new \<and> modifies_once t j)"
  shows "calm t (change_case j old new et t)" and "lists_ok J (change_case j old new et t)"
proof -
  have d: "distinct_lists t" using l t by (simp add: lists_ok_def distinct_lists_def)
  have lt: "moved j l t u \<Longrightarrow> calm t u \<Longrightarrow> l \<in> homes new \<Longrightarrow> lists_ok J u" for l u
    using lists_ok_moved [OF l, of j l u] moved_cong [of t s u u] homes_cong [of "status u j" new]
      calm_views(13) [of t u] t st others by simp
  have ok: "stat_ok new" using acc(1) by (simp add: accounted_def)
  note old = has_state_cong [OF acc(3)]
  consider "IS_START new" "IS_PEND old" | "\<not> (IS_START new \<and> IS_PEND old)" "IS_FINISH new"
    | "\<not> (IS_START new \<and> IS_PEND old)" "\<not> IS_FINISH new" "has new JOB_STAT_PEND" "IS_START old"
    | "\<not> (IS_START new \<and> IS_PEND old)" "\<not> IS_FINISH new" "\<not> (has new JOB_STAT_PEND \<and> IS_START old)" by blast
  then have "calm t (change_case j old new et t) \<and> lists_ok J (change_case j old new et t)"
  proof cases
    case 1
    then show ?thesis
      using changeStart_step [OF d, of j et] lt by (simp add: change_case_def homes_def)
  next
    case 2
    then have "\<not> IS_START new" using stat_ok_partition [OF ok] by blast
    then show ?thesis
      using 2 once changeFinish_step [OF d, of j old et] lt by (auto simp add: change_case_def homes_def)
  next
    case 3
    then have "homes new = {PJL, MJL}" using stat_ok_partition [OF ok] by (auto simp: homes_def IS_PEND_def)
    then show ?thesis
      using 3 changePend_step [OF d, of j et] lt by (auto simp: change_case_def)
  next
    case 4
    then have h: "homes a = homes new" using other_homes [OF acc(1)] old by auto
    have m: "mild t (change_case j old new et t)" using 4 changeOther_step by (auto simp: change_case_def)
    have "homes (status (change_case j old new et t) i) = homes (status s i)" for i
      using m others h homes_cong acc(2) st calm_views(13) unfolding mild_def by metis
    then show ?thesis using lists_ok_same [OF l] m t by (simp add: mild_def same_lists_def)
  qed
  then show "calm t (change_case j old new et t)" and "lists_ok J (change_case j old new et t)" by blast+
qed

text \<open>The changes of status that keep the invariants.\<close>

definition change_ok :: "mbd \<Rightarrow> addr \<Rightarrow> uint32 \<Rightarrow> int \<Rightarrow> bool" where
  "change_ok s j new eventTime \<longleftrightarrow>
     accounted (status s j AND NOT JOB_STAT_RESERVE) (MASK_STATUS new) \<and>
     (has (status s j) JOB_STAT_RESERVE \<longrightarrow> eventTime = LOG_IT \<and> resets (status s j) (MASK_STATUS new)) \<and>
     \<not> (IS_FINISH new \<and> modifies_once s j)"

lemma begun_step:
  assumes i: "inv J s" and j: "j \<in> J" and ok: "change_ok s j n et"
  shows "inv J (begun j (MASK_STATUS n) et s)" "same_lists s (begun j (MASK_STATUS n) et s)"
    "\<not> has (status (begun j (MASK_STATUS n) et s) j) JOB_STAT_RESERVE"
proof -
  have so: "stat_ok (status s j)" using ok by (simp add: change_ok_def accounted_def stat_ok_def stat_simps)
  note r = resetReserve_step [OF i j so]
  show "inv J (begun j (MASK_STATUS n) et s)" "same_lists s (begun j (MASK_STATUS n) et s)"
    "\<not> has (status (begun j (MASK_STATUS n) et s) j) JOB_STAT_RESERVE"
    using ok i r by (auto simp: begun_def change_ok_def)
qed

lemma IS_FINISH_MASK [simp]: "IS_FINISH (MASK_STATUS n) = IS_FINISH n"
  by (simp add: stat_preds stat_simps)

lemma freeExecParams_step:
  assumes "inv J s" and "IS_PEND (status s j)" and "\<not> has (status s j) JOB_STAT_RESERVE"
  shows "inv J (freeExecParams j s)" and "jDataList (freeExecParams j s) = jDataList s"
    and "\<And>i. status (freeExecParams j s) i = status s i"
proof -
  have "calm (drop_hosts j s) (freeExecParams j s)"
    unfolding freeExecParams_def drop_hosts_def by (rule calm_cleanCandHosts)
  moreover have "inv J (drop_hosts j s)"
    using assms drop_hosts_books drop_hosts_jobs_ok by (simp add: inv_def)
  ultimately show "inv J (freeExecParams j s)" by (simp add: calm_inv)
  show "jDataList (freeExecParams j s) = jDataList s" "\<And>i. status (freeExecParams j s) i = status s i"
    by (auto simp: freeExecParams_def cleanCandHosts_def)
qed

text \<open>Everything before the counters are updated.\<close>

lemma change_status:
  assumes i: "inv J s" and l: "lists_ok J s" and j: "j \<in> J" and ch: "change_ok s j n et"
  defines "new \<equiv> MASK_STATUS n" and "s1 \<equiv> begun j (MASK_STATUS n) et s"
  defines "s3 \<equiv> change_case j (status s j) new et (changeBegin j new et s)"
  shows "calm (set_stat j (SET_STATE (status s1 j) new) s1) s3" and "lists_ok J s3"
proof -
  define st where "st = SET_STATE (status s1 j) new"
  define s2 where "s2 = changeBegin j new et s"
  note b = begun_step [OF i j ch, folded s1_def]
  have m2: "mild (set_stat j st s1) s2"
    using changeBegin_step [OF refl, of j n et s] by (simp add: s1_def s2_def st_def new_def)
  have st_js: "jstate st = jstate new" by (simp add: st_def stat_simps)
  have "modifies_once s2 j = modifies_once (set_stat j st s1) j"
    using m2 same_lists_modifies by (simp add: mild_def)
  also have "\<dots> = modifies_once s1 j" by (simp add: modifies_once_def set_stat_def)
  finally have once: "\<not> (IS_FINISH new \<and> modifies_once s2 j)"
    using ch same_lists_modifies [OF b(2)] by (simp add: change_ok_def new_def)
  have L2: "jDataList s2 = jDataList s" and js2: "jstate (status s2 j) = jstate new"
    "\<forall>i. i \<noteq> j \<longrightarrow> jstate (status s2 i) = jstate (status s i)"
    using m2 st_js b(2) by (auto simp: mild_def same_lists_def set_stat_def)
  have acc: "accounted (status s j AND NOT JOB_STAT_RESERVE) new" using ch by (simp add: change_ok_def new_def)
  have a: "jstate (status s j AND NOT JOB_STAT_RESERVE) = jstate (status s j)" by (simp add: stat_simps)
  note cc = change_case_step [OF l L2 js2 acc a a [symmetric] once, of et, folded s3_def [folded s2_def]]
  have "calm (set_stat j st s1) s2" using m2 by (simp add: mild_def)
  from calm_trans [OF this cc(1)] show "calm (set_stat j (SET_STATE (status s1 j) new) s1) s3" by (simp only: st_def)
  show "lists_ok J s3" by (rule cc(2))
qed

lemma lists_ok_frame: "frame s t \<Longrightarrow> lists_ok J t = lists_ok J s"
  by (simp add: frame_def lists_ok_def distinct_lists_def on_list_def)

lemma jStatusChange_unfold:
  assumes "jstate n \<noteq> jstate (status s j)"
  shows "jStatusChange j n et s =
    (let new = MASK_STATUS n;
         t = changeCount j (status s j) new et (change_case j (status s j) new et (changeBegin j new et s))
     in if \<not> (IS_START new \<and> IS_PEND (status s j)) \<and> \<not> IS_FINISH new \<and> has new JOB_STAT_PEND \<and> IS_START (status s j)
        then freeExecParams j t else t)"
  using assms by (auto simp: jStatusChange_def change_case_def Let_def)

lemma jStatusChange_step:
  assumes i: "inv J s" and l: "lists_ok J s" and j: "j \<in> J" and stage: "mSchedStage s \<noteq> M_STAGE_REPLAY"
    and ch: "change_ok s j n et"
  shows "inv J (jStatusChange j n et s) \<and> lists_ok J (jStatusChange j n et s) \<and>
    jstate (status (jStatusChange j n et s) j) = jstate n \<and> mSchedStage (jStatusChange j n et s) = mSchedStage s \<and>
    (\<forall>i. i \<noteq> j \<longrightarrow> jstate (status (jStatusChange j n et s) i) = jstate (status s i))"
proof (cases "jstate n = jstate (status s j)")
  case True
  then show ?thesis using i l by (simp add: jStatusChange_def)
next
  case False
  define new where "new = MASK_STATUS n"
  define s1 where "s1 = begun j new et s"
  define s3 where "s3 = change_case j (status s j) new et (changeBegin j new et s)"
  define s4 where "s4 = updCounters j (status s j) et s3"
  note b = begun_step [OF i j ch, folded new_def, folded s1_def]
  note c = change_status [OF i l j ch, folded new_def, folded s1_def s3_def]
  have js1: "jstate (status s1 j) = jstate (status s j)" using b(2) by (simp add: same_lists_def)
  have st3: "jstate (status s3 j) = jstate n" "\<not> has (status s3 j) JOB_STAT_RESERVE"
    using calm_views(13,14) [OF c(1), of j] b(3) by (simp_all add: set_stat_views new_def stat_simps has_SET_STATE_RESERVE)
  have others: "jstate (status s3 k) = jstate (status s k)" if "k \<noteq> j" for k
    using calm_views(13) [OF c(1), of k] b(2) that by (simp add: set_stat_def same_lists_def)
  have acc: "accounted (status s1 j) (status s3 j)"
    by (rule accounted_cong [of "status s j AND NOT JOB_STAT_RESERVE" new])
      (use ch js1 st3 b(3) in \<open>simp_all add: change_ok_def new_def stat_simps\<close>)
  have i4: "inv J s4" and f4: "frame s3 s4"
    using updCounters_calm [OF b(1) j c(1) acc, of et] updCounters_cong [OF js1] by (simp_all add: s4_def)
  have st4: "\<And>i. status s4 i = status s3 i" using f4 by (simp add: frame_def)
  have l4: "lists_ok J s4" using c(2) lists_ok_frame [OF f4] by simp
  have stage3: "mSchedStage s3 = mSchedStage s"
    using b(2) calm_views(12) [OF c(1)] by (simp add: same_lists_def set_stat_def)
  then have stage4: "mSchedStage s4 = mSchedStage s" using f4 by (simp add: frame_def)
  have count: "changeCount j (status s j) new et s3 = s4" using stage stage3 by (simp add: changeCount_def s4_def)
  show ?thesis
  proof (cases "\<not> (IS_START new \<and> IS_PEND (status s j)) \<and> \<not> IS_FINISH new \<and> has new JOB_STAT_PEND \<and> IS_START (status s j)")
    case True
    have "jstate (status s4 j) = jstate new" using st3(1) by (simp only: st4 new_def stat_simps)
    from has_state_cong(7) [OF this] have "IS_PEND (status s4 j)" using True by (simp add: IS_PEND_def [of new])
    then have "inv J (freeExecParams j s4)" "lists_ok J (freeExecParams j s4)" "\<And>k. status (freeExecParams j s4) k = status s4 k"
      "mSchedStage (freeExecParams j s4) = mSchedStage s4"
      using freeExecParams_step [OF i4, of j] st3(2) l4
      by (simp_all add: st4 lists_ok_def distinct_lists_def on_list_def freeExecParams_def cleanCandHosts_def)
    then show ?thesis
      using jStatusChange_unfold [OF False, of et] True st3(1) st4 stage4 others by (simp add: Let_def new_def [symmetric] s3_def [symmetric] count)
  next
    case no: False
    show ?thesis
      using jStatusChange_unfold [OF False, of et] no i4 l4 st3(1) st4 stage4 others
      by (simp only: Let_def new_def [symmetric] s3_def [symmetric] count if_False simp_thms) blast
  qed
qed

end
