(* ===== verification/Jgrp_Laws.thy ===== *)
theory Jgrp_Laws
  imports Jgrp_Tree "HOL-Library.Multiset"
begin

unbundle bit_operations_syntax

text \<open>
  What the links of the job group tree mean, and that the operations keep them:
  the store represents an ordered tree, the walk is its preorder, insertion adds
  a last child and clipping cuts out a subtree.
\<close>

section \<open>Ordered trees in the store\<close>

datatype rose = Node (label: addr) (kids: "rose list")

text \<open>The preorder of a list of siblings.\<close>

fun pres :: "rose list \<Rightarrow> addr list" where
  "pres [] = []"
| "pres (Node a cs # ts) = a # pres cs @ pres ts"

text \<open>The siblings \<open>ts\<close> below \<open>p\<close> and right of \<open>l\<close>, starting at \<open>a\<close>.\<close>

fun sibs :: "jgstore \<Rightarrow> addr \<Rightarrow> addr \<Rightarrow> rose list \<Rightarrow> addr \<Rightarrow> bool" where
  "sibs t p l [] a \<longleftrightarrow> a = NULL"
| "sibs t p l (Node b cs # ts) a \<longleftrightarrow>
     a = b \<and> b \<noteq> NULL \<and> g_parent (t b) = p \<and> g_left (t b) = l \<and>
     sibs t b NULL cs (g_child (t b)) \<and> sibs t p b ts (g_right (t b))"

definition tree_ok :: "jgstore \<Rightarrow> addr \<Rightarrow> rose \<Rightarrow> bool" where
  "tree_ok t root r \<longleftrightarrow> sibs t NULL NULL [r] root \<and> distinct (pres [r])"

definition lk :: "jgTreeNode \<Rightarrow> addr \<times> addr \<times> addr \<times> addr" where
  "lk n = (g_parent n, g_child n, g_left n, g_right n)"

lemma sibs_cong:
  assumes "\<And>x. x \<in> set (pres ts) \<Longrightarrow> lk (t' x) = lk (t x)"
  shows "sibs t' p l ts a = sibs t p l ts a"
  using assms by (induction t p l ts a rule: sibs.induct) (simp_all add: lk_def)

lemma sibs_notnull: "sibs t p l ts a \<Longrightarrow> NULL \<notin> set (pres ts)"
  by (induction t p l ts a rule: sibs.induct) auto

fun first :: "addr list \<Rightarrow> addr \<Rightarrow> addr" where
  "first [] k = k"
| "first (x # xs) k = x"

lemma first_append [simp]: "first (xs @ ys) k = first xs (first ys k)"
  by (cases xs) simp_all

lemma sibs_first: "sibs t p l ts a \<Longrightarrow> first (pres ts) k = (if a = NULL then k else a)"
  by (cases "(t, p, l, ts, a)" rule: sibs.cases) auto

section \<open>The walk is the preorder\<close>

fun succ_seq :: "(addr \<Rightarrow> addr option) \<Rightarrow> addr list \<Rightarrow> addr \<Rightarrow> bool" where
  "succ_seq f [] k \<longleftrightarrow> True"
| "succ_seq f (x # xs) k \<longleftrightarrow> f x = Some (first xs k) \<and> succ_seq f xs k"

lemma succ_seq_append [simp]: "succ_seq f (xs @ ys) k \<longleftrightarrow> succ_seq f xs (first ys k) \<and> succ_seq f ys k"
  by (induction xs) auto

lemma treeLexUp_links:
  assumes "sibs t p l ts a" and "treeLexUp t p = Some k" and "x \<noteq> NULL" and "g_parent (t x) = p" and "g_right (t x) = a"
  shows "treeLexUp t x = Some (first (pres ts) k)"
  using assms sibs_first [OF assms(1)] by (simp add: treeLexUp.simps [of t x])

lemma treeLexNext_links:
  assumes "sibs t p l ts a" and "treeLexUp t p = Some k"
  shows "succ_seq (treeLexNext t) (pres ts) k"
  using assms
proof (induction t p l ts a arbitrary: k rule: sibs.induct)
  case (2 t p l b cs ts a)
  have b: "b \<noteq> NULL" "g_parent (t b) = p" and c: "sibs t b NULL cs (g_child (t b))" and r: "sibs t p b ts (g_right (t b))"
    using "2.prems"(1) by simp_all
  have up: "treeLexUp t b = Some (first (pres ts) k)" by (rule treeLexUp_links [OF r "2.prems"(2) b refl])
  then have "treeLexNext t b = Some (first (pres cs) (first (pres ts) k))"
    using b sibs_first [OF c] by (simp add: treeLexNext_def treeLexUp.simps [of t b])
  then show ?case using "2.IH"(1) [OF c up] "2.IH"(2) [OF r "2.prems"(2)] by simp
qed simp

lemma treeWalk_succ:
  assumes "succ_seq (treeLexNext t) xs NULL" and "NULL \<notin> set xs"
  shows "treeWalk t (first xs NULL) = Some xs"
  using assms
proof (induction xs)
  case (Cons x xs)
  then show ?case by (simp add: treeWalk.simps [of t x])
qed (simp add: treeWalk.simps [of t NULL])

lemma treeWalk_preorder:
  assumes "tree_ok t root r"
  shows "treeWalk t root = Some (pres [r])"
proof -
  have l: "sibs t NULL NULL [r] root" using assms by (simp add: tree_ok_def)
  have "first (pres [r]) NULL = root" using sibs_first [OF l, of NULL] by simp
  moreover have "succ_seq (treeLexNext t) (pres [r]) NULL"
    using treeLexNext_links [OF l] by (simp add: treeLexUp.simps [of t NULL])
  moreover have "NULL \<notin> set (pres [r])" using sibs_notnull [OF l] by simp
  ultimately show ?thesis using treeWalk_succ by metis
qed

section \<open>Chains of parents\<close>

text \<open>The nodes that a loop over \<open>parent\<close> sibs visits.\<close>

inductive chain :: "jgstore \<Rightarrow> addr \<Rightarrow> addr list \<Rightarrow> bool" for t where
  chain_nil: "chain t NULL []"
| chain_step: "g \<noteq> NULL \<Longrightarrow> chain t (g_parent (t g)) xs \<Longrightarrow> chain t g (g # xs)"

inductive_simps chain_simps: "chain t g []" "chain t g (x # xs)"

lemma chain_unique: "chain t g xs \<Longrightarrow> chain t g ys \<Longrightarrow> xs = ys"
proof (induction arbitrary: ys rule: chain.induct)
  case chain_nil
  then show ?case by (cases ys) (simp_all add: chain_simps)
next
  case (chain_step g xs)
  from chain_step(4,1) obtain zs where "ys = g # zs" "chain t (g_parent (t g)) zs"
    by (cases ys) (simp_all add: chain_simps)
  with chain_step(3) [of zs] show ?case by simp
qed

lemma chain_suffix: "chain t g (as @ b # bs) \<Longrightarrow> chain t b (b # bs)"
  by (induction as arbitrary: g) (auto simp: chain_simps)

lemma chain_distinct: "chain t g xs \<Longrightarrow> distinct xs"
proof (induction rule: chain.induct)
  case (chain_step g xs)
  have "g \<notin> set xs"
  proof
    assume "g \<in> set xs"
    then obtain as bs where "xs = as @ g # bs" by (meson split_list)
    with chain_step have "chain t g (g # bs)" "chain t g (g # xs)"
      using chain_suffix [of t "g_parent (t g)" as g bs] chain.chain_step [of g t xs] by simp_all
    from chain_unique [OF this] \<open>xs = _\<close> show False by simp
  qed
  with chain_step show ?case by simp
qed simp

lemma chain_cong:
  assumes "chain t g xs" and "\<And>x. x \<in> set xs \<Longrightarrow> g_parent (t' x) = g_parent (t x)"
  shows "chain t' g xs"
  using assms by (induction rule: chain.induct) (auto intro: chain.intros)

lemma sibs_chain:
  assumes "sibs t p l ts a" and "chain t p ps" and "x \<in> set (pres ts)"
  shows "\<exists>xs. chain t x (xs @ ps) \<and> x \<in> set xs \<and> set xs \<subseteq> set (pres ts)"
  using assms
proof (induction t p l ts a arbitrary: ps rule: sibs.induct)
  case (2 t p l b cs ts a)
  then have cb: "chain t b (b # ps)" by (auto intro: chain.intros)
  consider "x = b" | "x \<in> set (pres cs)" | "x \<in> set (pres ts)" using "2.prems"(3) by auto
  then show ?case
  proof cases
    case 1
    then show ?thesis using cb by (intro exI [of _ "[b]"]) simp
  next
    case 2
    then obtain xs where "chain t x (xs @ b # ps)" "x \<in> set xs" "set xs \<subseteq> set (pres cs)"
      using "2.IH"(1) [OF _ cb] "2.prems"(1) by auto
    then show ?thesis by (intro exI [of _ "xs @ [b]"]) auto
  next
    case 3
    then obtain xs where "chain t x (xs @ ps)" "x \<in> set xs" "set xs \<subseteq> set (pres ts)"
      using "2.IH"(2) [OF _ "2.prems"(2)] "2.prems"(1) by auto
    then show ?thesis by (intro exI [of _ xs]) auto
  qed
qed simp

section \<open>Neighbours\<close>

lemma sibs_near:
  assumes "sibs t p l ts a" and "x \<in> set (pres ts)"
  shows "g_parent (t x) \<in> insert p (set (pres ts)) \<and> g_left (t x) \<in> {NULL, l} \<union> set (pres ts) \<and>
    g_right (t x) \<in> insert NULL (set (pres ts)) \<and> g_child (t x) \<in> insert NULL (set (pres ts))"
  using assms
proof (induction t p l ts a rule: sibs.induct)
  case (2 t p l b cs ts a)
  have c: "sibs t b NULL cs (g_child (t b))" and r: "sibs t p b ts (g_right (t b))" using "2.prems" by simp_all
  have f: "g_child (t b) \<in> insert NULL (set (pres cs))" "g_right (t b) \<in> insert NULL (set (pres ts))"
    using sibs_first [OF c, of NULL] by (cases "pres cs"; simp split: if_splits)
      (use sibs_first [OF r, of NULL] in \<open>cases "pres ts"; simp split: if_splits\<close>)
  consider "x = b" | "x \<in> set (pres cs)" | "x \<in> set (pres ts)" using "2.prems"(2) by auto
  then show ?case
  proof cases
    case 1
    then show ?thesis using f "2.prems"(1) by auto
  next
    case 2
    then show ?thesis using "2.IH"(1) [OF c 2] by auto
  next
    case 3
    then show ?thesis using "2.IH"(2) [OF r 3] by auto
  qed
qed simp

text \<open>The first sibling is known by its links.\<close>

lemma sibs_split:
  assumes "sibs t p l ts a" and "x \<in> set (pres ts)"
  obtains b cs ts' where "ts = Node b cs # ts'" "sibs t b NULL cs (g_child (t b))" "sibs t p b ts' (g_right (t b))"
    "a = b" "b \<noteq> NULL" "g_parent (t b) = p" "g_left (t b) = l" "x = b \<or> x \<in> set (pres cs) \<or> x \<in> set (pres ts')"
  using assms by (cases "(t, p, l, ts, a)" rule: sibs.cases) auto

lemma sibs_at_head: "sibs t p l ts a \<Longrightarrow> a \<noteq> NULL \<Longrightarrow> g_parent (t a) = p \<and> g_left (t a) = l"
  by (cases "(t, p, l, ts, a)" rule: sibs.cases) auto

lemma sibs_head_left:
  assumes "sibs t p l ts a" and "x \<in> set (pres ts)" and "l \<notin> set (pres ts)" and "l \<noteq> NULL" and "g_left (t x) = l"
  shows "x = a"
  using assms(1,2)
proof (cases rule: sibs_split)
  case (1 b cs ts')
  have "x \<notin> set (pres cs)" "x \<notin> set (pres ts')"
    using sibs_near [OF 1(2), of x] sibs_near [OF 1(3), of x] assms(3-5) 1(1) by auto
  then show ?thesis using 1 by simp
qed

lemma sibs_parent_left:
  assumes "sibs t p l ts a" and "x \<in> set (pres ts)" and "p \<notin> set (pres ts)" and "g_parent (t x) = p" and "l \<noteq> NULL"
  shows "g_left (t x) \<noteq> NULL"
  using assms
proof (induction t p l ts a rule: sibs.induct)
  case (2 t p l b cs ts a)
  have "x \<notin> set (pres cs)" using sibs_near [of t b NULL cs "g_child (t b)" x] 2 by auto
  then show ?case using 2 by auto
qed simp

lemma sibs_head_parent:
  assumes "sibs t p l ts a" and "x \<in> set (pres ts)" and "p \<notin> set (pres ts)" and "g_parent (t x) = p" and "g_left (t x) = NULL"
  shows "x = a"
  using assms(1,2)
proof (cases rule: sibs_split)
  case (1 b cs ts')
  have "x \<notin> set (pres cs)" "x \<notin> set (pres ts')"
    using sibs_near [OF 1(2), of x] sibs_parent_left [OF 1(3), of x] assms(3-5) 1(1,5) by auto
  then show ?thesis using 1 by simp
qed

section \<open>Clipping\<close>

fun dels :: "addr \<Rightarrow> rose list \<Rightarrow> rose list" where
  "dels x [] = []"
| "dels x (Node b cs # ts) = (if b = x then dels x ts else Node b (dels x cs) # dels x ts)"

lemma dels_notin [simp]: "x \<notin> set (pres ts) \<Longrightarrow> dels x ts = ts"
  by (induction x ts rule: dels.induct) auto

lemma dels_subset: "set (pres (dels x ts)) \<subseteq> set (pres ts) - {x}"
  by (induction x ts rule: dels.induct) auto

lemma dels_distinct: "distinct (pres ts) \<Longrightarrow> distinct (pres (dels x ts))"
proof (induction x ts rule: dels.induct)
  case (2 x b cs ts)
  then show ?case using dels_subset [of x cs] dels_subset [of x ts] by auto
qed simp

text \<open>The links after the first part of \<open>treeClip\<close>.\<close>

lemma lk_upd_g:
  "lk (upd_g a f t x) = (if x = a then lk (f (t a)) else lk (t x))"
  by (simp add: upd_g_def)

definition clipped :: "jgstore \<Rightarrow> addr \<Rightarrow> jgstore \<Rightarrow> bool" where
  "clipped t n t' \<longleftrightarrow> (\<forall>x. lk (t' x) =
    (if g_left (t n) \<noteq> NULL \<and> x = g_left (t n) then (g_parent (t x), g_child (t x), g_left (t x), g_right (t n))
     else if g_left (t n) = NULL \<and> g_parent (t n) \<noteq> NULL \<and> x = g_parent (t n)
     then (g_parent (t x), g_right (t n), g_left (t x), g_right (t x))
     else if g_right (t n) \<noteq> NULL \<and> x = g_right (t n) then (g_parent (t x), g_child (t x), g_left (t n), g_right (t x))
     else lk (t x)))"

lemma clipLinks_clipped:
  assumes "g_left (t n) \<noteq> n" and "g_right (t n) \<noteq> n" and "g_parent (t n) \<noteq> n"
    and "g_right (t n) \<noteq> NULL \<Longrightarrow> g_right (t n) \<noteq> g_left (t n) \<and> g_right (t n) \<noteq> g_parent (t n)"
  shows "clipped t n (clipLinks n t)"
  unfolding clipped_def using assms by (auto simp: clipLinks_def Let_def upd_g_def lk_def)

lemma sibs_self:
  assumes "sibs t p l ts a" and "distinct (pres ts)" and "x \<in> set (pres ts)" and "p \<notin> set (pres ts)" and "l \<notin> set (pres ts)"
  shows "g_left (t x) \<noteq> x \<and> g_right (t x) \<noteq> x \<and> g_parent (t x) \<noteq> x \<and>
    (g_right (t x) \<noteq> NULL \<longrightarrow> g_right (t x) \<noteq> g_left (t x) \<and> g_right (t x) \<noteq> g_parent (t x))"
  using assms
proof (induction t p l ts a rule: sibs.induct)
  case (2 t p l b cs ts a)
  have c: "sibs t b NULL cs (g_child (t b))" and r: "sibs t p b ts (g_right (t b))" using "2.prems" by simp_all
  have R: "g_right (t b) \<in> insert NULL (set (pres ts))"
    using sibs_first [OF r, of NULL] by (cases "pres ts") (auto split: if_splits)
  have n: "NULL \<notin> set (pres cs)" by (rule sibs_notnull [OF c])
  consider "x = b" | "x \<in> set (pres cs)" | "x \<in> set (pres ts)" using "2.prems"(3) by auto
  then show ?case
  proof cases
    case 1
    then show ?thesis using "2.prems" R by auto
  next
    case 2
    then show ?thesis using "2.IH"(1) [OF c _ 2] n "2.prems" by auto
  next
    case 3
    then show ?thesis using "2.IH"(2) [OF r _ 3] "2.prems" by auto
  qed
qed simp

text \<open>The first sibling gets another left neighbour.\<close>

lemma sibs_reroot:
  assumes "sibs t p b ts a" and "distinct (pres ts)"
    and "\<And>x. x \<in> set (pres ts) \<Longrightarrow> lk (t' x) = (if x = a then (g_parent (t x), g_child (t x), l, g_right (t x)) else lk (t x))"
  shows "sibs t' p l ts a"
proof (cases "(t, p, b, ts, a)" rule: sibs.cases)
  case (2 _ _ _ c cs ts' _)
  then have c: "sibs t c NULL cs (g_child (t c))" and r: "sibs t p c ts' (g_right (t c))" and a: "a = c" "c \<noteq> NULL" "g_parent (t c) = p"
    using assms(1) by simp_all
  have "sibs t' c NULL cs (g_child (t c))" "sibs t' p c ts' (g_right (t c))"
    using c r assms(2,3) 2 a by (auto intro: sibs_cong [THEN iffD2])
  then show ?thesis using 2 a assms(3) [of c] by (simp add: lk_def)
qed (use assms in simp)

lemma sibs_clipped:
  assumes "sibs t p l ts a" and "distinct (pres ts)" and "x \<in> set (pres ts)" and "p \<notin> set (pres ts)"
    and "l \<notin> set (pres ts)" and "clipped t x t'"
  shows "sibs t' p l (dels x ts) (if a = x then g_right (t x) else a)"
  using assms
proof (induction t p l ts a rule: sibs.induct)
  case (2 t p l b cs ts a)
  have c: "sibs t b NULL cs (g_child (t b))" and r: "sibs t p b ts (g_right (t b))"
    and b: "a = b" "b \<noteq> NULL" "g_parent (t b) = p" "g_left (t b) = l" using "2.prems"(1) by simp_all
  have d: "b \<notin> set (pres cs)" "b \<notin> set (pres ts)" "\<forall>y. y \<in> set (pres cs) \<longrightarrow> y \<notin> set (pres ts)" "distinct (pres cs)" "distinct (pres ts)"
    "p \<noteq> b" "l \<noteq> b" "p \<notin> set (pres cs)" "p \<notin> set (pres ts)" "l \<notin> set (pres cs)" "l \<notin> set (pres ts)"
    using "2.prems"(2,4,5) by auto
  have n: "NULL \<notin> set (pres cs)" "NULL \<notin> set (pres ts)" using sibs_notnull [OF c] sibs_notnull [OF r] by simp_all
  note cl = "2.prems"(6) [unfolded clipped_def, rule_format]
  consider "x = b" | "x \<in> set (pres cs)" | "x \<in> set (pres ts)" using "2.prems"(3) by auto
  then show ?case
  proof cases
    case 1
    have "sibs t' p l ts (g_right (t b))"
    proof (rule sibs_reroot [OF r d(5)])
      fix y assume "y \<in> set (pres ts)"
      then have "y \<noteq> l" "y \<noteq> p" "y \<noteq> NULL" using d(9,11) n(2) by metis+
      then show "lk (t' y) = (if y = g_right (t b) then (g_parent (t y), g_child (t y), l, g_right (t y)) else lk (t y))"
        using cl [of y] 1 b by simp
    qed
    then show ?thesis using 1 b d by simp
  next
    case 2
    note near = sibs_near [OF c 2]
    have "lk (t' y) = lk (t y)" if "y \<in> set (pres ts)" for y
    proof -
      have "y \<noteq> b" "y \<notin> set (pres cs)" "y \<noteq> NULL" using that d(1-3) n by metis+
      then have "y \<noteq> g_left (t x)" "y \<noteq> g_parent (t x)" "y \<noteq> g_right (t x)" using near by auto
      then show ?thesis using cl [of y] by simp
    qed
    then have "sibs t' p b ts (g_right (t b))" using r sibs_cong by blast
    moreover have "lk (t' b) = (p, if g_child (t b) = x then g_right (t x) else g_child (t b), l, g_right (t b))"
    proof -
      have "b \<noteq> g_left (t x)" "b \<noteq> g_right (t x)" using near d b by auto
      moreover have "g_left (t x) = NULL \<and> g_parent (t x) = b \<longleftrightarrow> g_child (t b) = x"
      proof
        assume "g_left (t x) = NULL \<and> g_parent (t x) = b"
        then show "g_child (t b) = x" using sibs_head_parent [OF c 2 d(1)] by simp
      next
        assume "g_child (t b) = x"
        then show "g_left (t x) = NULL \<and> g_parent (t x) = b" using sibs_at_head [OF c] 2 n(1) by metis
      qed
      ultimately show ?thesis using cl [of b] b by (auto simp: lk_def)
    qed
    moreover have "sibs t' b NULL (dels x cs) (if g_child (t b) = x then g_right (t x) else g_child (t b))"
      using "2.IH"(1) [OF c d(4) 2 d(1) n(1) "2.prems"(6)] .
    moreover have "x \<noteq> b" using 2 d by auto
    moreover have "dels x ts = ts" using 2 d by (intro dels_notin) auto
    ultimately show ?thesis using b by (simp add: lk_def)
  next
    case 3
    note near = sibs_near [OF r 3]
    have "lk (t' y) = lk (t y)" if "y \<in> set (pres cs)" for y
    proof -
      have "y \<noteq> b" "y \<notin> set (pres ts)" "y \<noteq> NULL" "y \<noteq> p" using that d(1-3,8) n by metis+
      then have "y \<noteq> g_left (t x)" "y \<noteq> g_parent (t x)" "y \<noteq> g_right (t x)" using near by auto
      then show ?thesis using cl [of y] by simp
    qed
    then have "sibs t' b NULL cs (g_child (t b))" using c sibs_cong by blast
    moreover have "lk (t' b) = (p, g_child (t b), l, if g_right (t b) = x then g_right (t x) else g_right (t b))"
    proof -
      have "b \<noteq> g_parent (t x)" "b \<noteq> g_right (t x)" using near d b by auto
      moreover have "g_left (t x) = b \<longleftrightarrow> g_right (t b) = x"
      proof
        assume "g_left (t x) = b"
        then show "g_right (t b) = x" using sibs_head_left [OF r 3 d(2) b(2)] by simp
      next
        assume "g_right (t b) = x"
        then show "g_left (t x) = b" using sibs_at_head [OF r] 3 n(2) by metis
      qed
      ultimately show ?thesis using cl [of b] b by (auto simp: lk_def)
    qed
    moreover have "sibs t' p b (dels x ts) (if g_right (t b) = x then g_right (t x) else g_right (t b))"
      using "2.IH"(2) [OF r d(5) 3 d(9) d(2) "2.prems"(6)] .
    moreover have "x \<noteq> b" "x \<notin> set (pres cs)" using 3 d(2,3) by metis+
    ultimately show ?thesis using b by (simp add: lk_def)
  qed
qed simp

section \<open>Inserting\<close>

fun inss :: "addr \<Rightarrow> rose \<Rightarrow> rose list \<Rightarrow> rose list" where
  "inss q c [] = []"
| "inss q c (Node b cs # ts) = Node b (inss q c cs @ (if b = q then [c] else [])) # inss q c ts"

lemma inss_notin [simp]: "q \<notin> set (pres ts) \<Longrightarrow> inss q c ts = ts"
  by (induction q c ts rule: inss.induct) auto

lemma pres_append [simp]: "pres (ts @ us) = pres ts @ pres us"
  by (induction ts rule: pres.induct) simp_all

lemma pres_inss:
  assumes "distinct (pres ts)" and "q \<in> set (pres ts)"
  shows "mset (pres (inss q c ts)) = mset (pres ts) + mset (pres [c])"
  using assms
proof (induction q c ts rule: inss.induct)
  case (2 q c b cs ts)
  consider "q = b" | "q \<noteq> b" "q \<in> set (pres cs)" "q \<notin> set (pres ts)" | "q \<noteq> b" "q \<notin> set (pres cs)" "q \<in> set (pres ts)"
    using "2.prems" by auto
  then show ?case
  proof cases
    case 1
    then have "inss q c cs = cs" "inss q c ts = ts" using "2.prems" by simp_all
    then show ?thesis using 1 by simp
  next
    case 2
    then have "inss q c ts = ts" by simp
    then show ?thesis using "2.IH"(1) 2 "2.prems"(1) by simp
  next
    case 3
    then have "inss q c cs = cs" by simp
    then show ?thesis using "2.IH"(2) 3 "2.prems"(1) by simp
  qed
qed simp

lemma lastSibling_links:
  assumes "sibs t p l ts a" and "ts \<noteq> []"
  shows "lastSibling t a = Some (label (last ts))"
  using assms
proof (induction t p l ts a rule: sibs.induct)
  case (2 t p l b cs ts a)
  have r: "sibs t p b ts (g_right (t b))" and a: "a = b" using "2.prems"(1) by simp_all
  show ?case
  proof (cases "ts = []")
    case True
    then show ?thesis using r a by (simp add: lastSibling.simps [of t b])
  next
    case False
    then have "g_right (t b) \<noteq> NULL" using r by (cases "(t, p, b, ts, g_right (t b))" rule: sibs.cases) auto
    then show ?thesis using "2.IH"(2) [OF r False] False a by (simp add: lastSibling.simps [of t b])
  qed
qed simp

lemma label_last_in: "ts \<noteq> [] \<Longrightarrow> label (last ts) \<in> set (pres ts)"
  by (induction ts rule: pres.induct) auto

text \<open>The last sibling gets a right neighbour.\<close>

lemma sibs_snoc:
  assumes "sibs t p l ts a" and "ts \<noteq> []" and "distinct (pres ts)"
    and "\<And>x. x \<in> set (pres ts) \<Longrightarrow> lk (t' x) =
      (if x = label (last ts) then (g_parent (t x), g_child (t x), g_left (t x), label c) else lk (t x))"
    and "sibs t' p (label (last ts)) [c] (label c)"
  shows "sibs t' p l (ts @ [c]) a"
  using assms
proof (induction t p l ts a rule: sibs.induct)
  case (2 t p l b cs ts a)
  have c: "sibs t b NULL cs (g_child (t b))" and r: "sibs t p b ts (g_right (t b))"
    and b: "a = b" "b \<noteq> NULL" "g_parent (t b) = p" "g_left (t b) = l" using "2.prems"(1) by simp_all
  note eq = "2.prems"(4)
  have "label (last (Node b cs # ts)) \<notin> set (pres cs)"
    using "2.prems"(3) label_last_in [of ts] by (cases "ts = []") auto
  then have "lk (t' x) = lk (t x)" if "x \<in> set (pres cs)" for x using that eq [of x] by auto
  then have c': "sibs t' b NULL cs (g_child (t b))" using c sibs_cong by blast
  show ?case
  proof (cases "ts = []")
    case True
    then show ?thesis using b c' eq [of b] "2.prems"(5) by (simp add: lk_def)
  next
    case False
    have "label (last ts) \<noteq> b" using "2.prems"(3) label_last_in [OF False] by auto
    then have "lk (t' b) = lk (t b)" using eq [of b] False by simp
    moreover have "sibs t' p b (ts @ [c]) (g_right (t b))"
      by (rule "2.IH"(2) [OF r False]) (use "2.prems" False in auto)
    ultimately show ?thesis using b c' by (simp add: lk_def)
  qed
qed simp

text \<open>The links after the node \<open>c\<close> became the last child of \<open>q\<close>.\<close>

definition linked :: "jgstore \<Rightarrow> addr \<Rightarrow> addr \<Rightarrow> jgstore \<Rightarrow> bool" where
  "linked t q c t' \<longleftrightarrow>
     (if g_child (t q) = NULL
      then \<forall>x. lk (t' x) = (if x = q then (g_parent (t q), c, g_left (t q), g_right (t q))
             else if x = c then (q, g_child (t c), NULL, NULL) else lk (t x))
      else \<exists>n. lastSibling t (g_child (t q)) = Some n \<and>
             (\<forall>x. lk (t' x) = (if x = n then (g_parent (t n), g_child (t n), g_left (t n), c)
                else if x = c then (q, g_child (t c), n, NULL) else lk (t x))))"

text \<open>Where the insertion changes links.\<close>

lemma linked_near:
  assumes "sibs t p l ts a" and "q \<in> set (pres ts)" and "g_child (t q) \<noteq> NULL"
  obtains n where "lastSibling t (g_child (t q)) = Some n" "n \<in> set (pres ts)"
  using assms
proof (induction t p l ts a arbitrary: thesis rule: sibs.induct)
  case (2 t p l b cs ts a)
  have c: "sibs t b NULL cs (g_child (t b))" and r: "sibs t p b ts (g_right (t b))" using "2.prems"(2) by simp_all
  consider "q = b" | "q \<in> set (pres cs)" | "q \<in> set (pres ts)" using "2.prems"(3) by auto
  then show ?case
  proof cases
    case 1
    then have "cs \<noteq> []" using "2.prems"(4) c by (cases cs) auto
    then show ?thesis using 1 lastSibling_links [OF c] label_last_in [of cs] "2.prems"(1) by auto
  next
    case 2
    show ?thesis using "2.IH"(1) [OF _ c 2 "2.prems"(4)] "2.prems"(1) by auto
  next
    case 3
    show ?thesis using "2.IH"(2) [OF _ r 3 "2.prems"(4)] "2.prems"(1) by auto
  qed
qed simp

lemma linked_outside:
  assumes "sibs t p l us a" and "q \<in> set (pres us)" and "linked t q c t'" and "x \<notin> set (pres us)" and "x \<noteq> c"
  shows "lk (t' x) = lk (t x)"
proof (cases "g_child (t q) = NULL")
  case True
  then show ?thesis using assms(2-5) by (auto simp: linked_def)
next
  case False
  obtain n where "lastSibling t (g_child (t q)) = Some n" "n \<in> set (pres us)"
    by (rule linked_near [OF assms(1,2) False])
  then show ?thesis using False assms(3-5) by (auto simp: linked_def)
qed

lemma linked_here:
  assumes cs: "sibs t q NULL cs (g_child (t q))" and d: "distinct (q # pres cs)" and new: "sibs t c NULL ks (g_child (t c))"
    and c: "c \<noteq> NULL" "distinct (c # pres ks)" "set (c # pres ks) \<inter> set (q # pres cs) = {}" and l: "linked t q c t'"
  shows "sibs t' q NULL (cs @ [Node c ks]) (g_child (t' q))"
    and "g_parent (t' q) = g_parent (t q) \<and> g_left (t' q) = g_left (t q) \<and> g_right (t' q) = g_right (t q)"
proof -
  have "sibs t' q NULL (cs @ [Node c ks]) (g_child (t' q)) \<and>
    g_parent (t' q) = g_parent (t q) \<and> g_left (t' q) = g_left (t q) \<and> g_right (t' q) = g_right (t q)"
  proof (cases "g_child (t q) = NULL")
    case True
    then have cs0: "cs = []" using cs by (cases "(t, q, NULL :: nat, cs, g_child (t q))" rule: sibs.cases) auto
    have e: "lk (t' x) = (if x = q then (g_parent (t q), c, g_left (t q), g_right (t q))
             else if x = c then (q, g_child (t c), NULL, NULL) else lk (t x))" for x
      using l True by (simp add: linked_def)
    have "lk (t' x) = lk (t x)" if "x \<in> set (pres ks)" for x using that e [of x] c(2,3) by auto
    then have "sibs t' c NULL ks (g_child (t c))" using new sibs_cong by blast
    then show ?thesis using cs0 c e [of q] e [of c] by (simp add: lk_def)
  next
    case False
    then have ne: "cs \<noteq> []" using cs by (cases cs) auto
    let ?n = "label (last cs)"
    have n: "?n \<in> set (pres cs)" by (rule label_last_in [OF ne])
    have e: "lk (t' x) = (if x = ?n then (g_parent (t ?n), g_child (t ?n), g_left (t ?n), c)
                else if x = c then (q, g_child (t c), ?n, NULL) else lk (t x))" for x
      using l False lastSibling_links [OF cs ne] by (simp add: linked_def)
    have "lk (t' x) = lk (t x)" if "x \<in> set (pres ks)" for x using that e [of x] n c(2,3) by auto
    then have k: "sibs t' c NULL ks (g_child (t c))" using new sibs_cong by blast
    have q: "lk (t' q) = lk (t q)" using e [of q] n d c(3) by auto
    have "lk (t' c) = (q, g_child (t c), ?n, NULL)" using e [of c] n c(3) by auto
    then have "sibs t' q ?n [Node c ks] c" using k c(1) by (simp add: lk_def)
    then have "sibs t' q NULL (cs @ [Node c ks]) (g_child (t q))"
      by (intro sibs_snoc [OF cs ne]) (use d e c(3) in auto)
    then show ?thesis using q by (simp add: lk_def)
  qed
  then show "sibs t' q NULL (cs @ [Node c ks]) (g_child (t' q))"
    and "g_parent (t' q) = g_parent (t q) \<and> g_left (t' q) = g_left (t q) \<and> g_right (t' q) = g_right (t q)" by blast+
qed

lemma sibs_linked:
  assumes "sibs t p l ts a" and "distinct (pres ts)" and "q \<in> set (pres ts)" and "sibs t c NULL ks (g_child (t c))"
    and "c \<noteq> NULL" and "distinct (c # pres ks)" and "set (c # pres ks) \<inter> set (pres ts) = {}" and "linked t q c t'"
  shows "sibs t' p l (inss q (Node c ks) ts) a"
  using assms
proof (induction t p l ts a rule: sibs.induct)
  case (2 t p l b cs ts a)
  have cs: "sibs t b NULL cs (g_child (t b))" and r: "sibs t p b ts (g_right (t b))"
    and b: "a = b" "b \<noteq> NULL" "g_parent (t b) = p" "g_left (t b) = l" using "2.prems"(1) by simp_all
  have d: "b \<notin> set (pres cs)" "b \<notin> set (pres ts)" "\<forall>y. y \<in> set (pres cs) \<longrightarrow> y \<notin> set (pres ts)" "distinct (pres cs)" "distinct (pres ts)"
    using "2.prems"(2) by auto
  have f: "set (c # pres ks) \<inter> set (pres cs) = {}" "set (c # pres ks) \<inter> set (pres ts) = {}" "set (c # pres ks) \<inter> set (b # pres cs) = {}"
    "b \<noteq> c" "c \<notin> set (pres cs)" "c \<notin> set (pres ts)"
    using "2.prems"(7) by auto
  note l = "2.prems"(8)
  consider "q = b" | "q \<in> set (pres cs)" | "q \<in> set (pres ts)" using "2.prems"(3) by auto
  then show ?case
  proof cases
    case 1
    have h: "sibs t' b NULL (cs @ [Node c ks]) (g_child (t' b))"
      "g_parent (t' b) = g_parent (t b) \<and> g_left (t' b) = g_left (t b) \<and> g_right (t' b) = g_right (t b)"
      using linked_here [of t b cs c ks t'] cs d f "2.prems"(4-6) l 1 by simp_all
    have "lk (t' x) = lk (t x)" if x: "x \<in> set (pres ts)" for x
    proof (cases "g_child (t b) = NULL")
      case True
      have "x \<noteq> b" "x \<noteq> c" using x d f by metis+
      then show ?thesis using True l 1 by (simp add: linked_def)
    next
      case False
      then have "cs \<noteq> []" using cs by (cases cs) auto
      then have "lastSibling t (g_child (t b)) = Some (label (last cs))" "label (last cs) \<noteq> x"
        using lastSibling_links [OF cs] label_last_in [of cs] x d by auto
      moreover have "x \<noteq> c" using x f by metis
      ultimately show ?thesis using False l 1 by (auto simp: linked_def)
    qed
    then have "sibs t' p b ts (g_right (t b))" using r sibs_cong by blast
    then show ?thesis using 1 h b d by simp
  next
    case 2
    have o: "lk (t' x) = lk (t x)" if "x \<notin> set (pres cs)" "x \<noteq> c" for x
      by (rule linked_outside [OF cs 2 l that])
    have "sibs t' p b ts (g_right (t b))" using r o d f sibs_cong [of ts t' t] by metis
    moreover have "lk (t' b) = lk (t b)" using o d f by simp
    moreover have "sibs t' b NULL (inss q (Node c ks) cs) (g_child (t b))"
      using "2.IH"(1) [OF cs d(4) 2 "2.prems"(4-6) f(1) l] .
    moreover have "q \<noteq> b" "q \<notin> set (pres ts)" using 2 d by metis+
    ultimately show ?thesis using b by (simp add: lk_def)
  next
    case 3
    have o: "lk (t' x) = lk (t x)" if "x \<notin> set (pres ts)" "x \<noteq> c" for x
      by (rule linked_outside [OF r 3 l that])
    have "sibs t' b NULL cs (g_child (t b))" using cs o d f sibs_cong [of cs t' t] by metis
    moreover have "lk (t' b) = lk (t b)" using o d f by simp
    moreover have "sibs t' p b (inss q (Node c ks) ts) (g_right (t b))"
      using "2.IH"(2) [OF r d(5) 3 "2.prems"(4-6) f(2) l] .
    moreover have "q \<noteq> b" "q \<notin> set (pres cs)" using 3 d by metis+
    ultimately show ?thesis using b by (simp add: lk_def)
  qed
qed simp

end
