(* ===== verification/Jgrp_Counts.thy ===== *)
theory Jgrp_Counts
  imports Jgrp_Laws
begin

unbundle bit_operations_syntax

text \<open>
  The counters of groups and arrays: every node with counters counts, by state,
  the jobs whose node lies below it.  Changing the state of a job, inserting a
  node and clipping one keep this.
\<close>

section \<open>Walking up with the counters\<close>

definition counted :: "jgTreeNode \<Rightarrow> bool" where
  "counted n \<longleftrightarrow> g_nodeType n = JGRP_NODE_GROUP \<or> g_nodeType n = JGRP_NODE_ARRAY"

definition bumped :: "addr list \<Rightarrow> ((nat \<Rightarrow> int) \<Rightarrow> nat \<Rightarrow> int) \<Rightarrow> jgstore \<Rightarrow> jgstore" where
  "bumped xs f t = (\<lambda>x. if x \<in> set xs \<and> counted (t x) then (t x)\<lparr>g_counts := f (g_counts (t x))\<rparr> else t x)"

lemma bumped_views [simp]:
  "lk (bumped xs f t x) = lk (t x)" "g_parent (bumped xs f t x) = g_parent (t x)" "g_left (bumped xs f t x) = g_left (t x)"
  "g_right (bumped xs f t x) = g_right (t x)" "g_child (bumped xs f t x) = g_child (t x)"
  "g_nodeType (bumped xs f t x) = g_nodeType (t x)" "counted (bumped xs f t x) = counted (t x)"
  "g_job (bumped xs f t x) = g_job (t x)"
  by (simp_all add: bumped_def lk_def counted_def)

lemma updJgrpCountByJStatus_chain:
  "chain t g xs \<Longrightarrow> updJgrpCountByJStatus g old new t = Some (bumped xs (moveCount old new) t)"
proof (induction xs arbitrary: g t)
  case Nil
  then show ?case by (simp add: chain_simps updJgrpCountByJStatus.simps [of NULL] bumped_def)
next
  case (Cons x xs)
  then have x: "x = g" "g \<noteq> NULL" and c: "chain t (g_parent (t g)) xs" by (simp_all add: chain_simps)
  define t1 where "t1 = (if counted (t g) then upd_g g (\<lambda>n. n\<lparr>g_counts := moveCount old new (g_counts n)\<rparr>) t else t)"
  have "chain t1 (g_parent (t g)) xs" by (rule chain_cong [OF c]) (simp add: t1_def upd_g_def)
  moreover have "g \<notin> set xs" using chain_distinct [OF Cons.prems] x by simp
  then have "bumped xs (moveCount old new) t1 = bumped (x # xs) (moveCount old new) t"
    using x by (auto simp: bumped_def t1_def upd_g_def counted_def fun_eq_iff)
  ultimately show ?case
    using Cons.IH x by (simp add: updJgrpCountByJStatus.simps [of g] t1_def counted_def)
qed

definition addCounts :: "int \<Rightarrow> (nat \<Rightarrow> int) \<Rightarrow> (nat \<Rightarrow> int) \<Rightarrow> nat \<Rightarrow> int" where
  "addCounts k d c = (\<lambda>i. if i < NUM_JGRP_COUNTERS then c i + k * d i else c i)"

lemma countByOpLoop_chain:
  assumes "chain t p xs" and "jg \<notin> set xs" and "counted (t jg)" and "\<forall>x \<in> set xs. counted (t x)"
  shows "countByOpLoop jg k p t = Some (bumped xs (addCounts k (g_counts (t jg))) t)"
  using assms
proof (induction xs arbitrary: p t rule: list.induct)
  case Nil
  then show ?case by (simp add: chain_simps countByOpLoop.simps [of jg k NULL] bumped_def)
next
  case (Cons x xs)
  then have x: "x = p" "p \<noteq> NULL" and c: "chain t (g_parent (t p)) xs" by (simp_all add: chain_simps)
  define t1 where "t1 = upd_g p (\<lambda>n. n\<lparr>g_counts := addCounts k (g_counts (t jg)) (g_counts n)\<rparr>) t"
  have c1: "chain t1 (g_parent (t p)) xs" by (rule chain_cong [OF c]) (simp add: t1_def upd_g_def)
  have jg: "t1 jg = t jg" using Cons.prems(2) x by (simp add: t1_def upd_g_def)
  have t1: "\<forall>x \<in> set xs. counted (t1 x)" using Cons.prems(4) by (simp add: t1_def upd_g_def counted_def)
  have "p \<notin> set xs" using chain_distinct [OF Cons.prems(1)] x by simp
  then have "bumped xs (addCounts k (g_counts (t jg))) t1 = bumped (x # xs) (addCounts k (g_counts (t jg))) t"
    using x Cons.prems(4) by (auto simp: bumped_def t1_def upd_g_def counted_def fun_eq_iff)
  moreover have "countByOpLoop jg k p t = countByOpLoop jg k (g_parent (t p)) t1"
    using x Cons.prems(3) by (simp add: countByOpLoop.simps [of jg k p] t1_def counted_def addCounts_def)
  ultimately show ?case using Cons.IH [OF c1] Cons.prems(2,3) t1 jg by simp
qed

lemma ancestorLoop_chain: "chain t y xs \<Longrightarrow> ancestorLoop t x y = Some (x \<in> set xs)"
proof (induction xs arbitrary: y)
  case Nil
  then show ?case by (simp add: chain_simps ancestorLoop.simps [of t x NULL])
next
  case (Cons z xs)
  then show ?case by (auto simp: chain_simps ancestorLoop.simps [of t x y])
qed

lemma isAncestor_chain:
  assumes "x \<noteq> NULL" and "chain t y (y # ys)"
  shows "isAncestor t x y = Some (x \<in> set ys)"
  using assms by (simp add: isAncestor_def chain_simps ancestorLoop_chain)

section \<open>What the counters mean\<close>

definition stat_unit :: "uint32 \<Rightarrow> nat \<Rightarrow> int" where
  "stat_unit st i = (if st = JOB_STAT_NULL then 0
     else if i = JGRP_COUNT_NJOBS \<or> i = getIndexOfJStatus st then 1 else 0)"

lemma getIndex_range: "0 < getIndexOfJStatus st \<and> getIndexOfJStatus st \<le> NUM_JGRP_COUNTERS"
  by (simp add: getIndexOfJStatus_def Let_def jgrp_consts)

lemma moveCount_unit: "moveCount old new c = (\<lambda>i. c i - stat_unit old i + stat_unit new i)"
  using getIndex_range [of old] getIndex_range [of new]
  by (auto simp: moveCount_def Let_def addCount_def stat_unit_def jgrp_consts fun_eq_iff)

text \<open>The jobs below a node.\<close>

definition below :: "jgstore \<Rightarrow> (addr \<Rightarrow> addr) \<Rightarrow> addr \<Rightarrow> addr \<Rightarrow> bool" where
  "below t node n j \<longleftrightarrow> (\<exists>xs. chain t (node j) xs \<and> n \<in> set xs)"

definition nodes_ok :: "addr set \<Rightarrow> (addr \<Rightarrow> addr) \<Rightarrow> jgstore \<Rightarrow> bool" where
  "nodes_ok J node t \<longleftrightarrow> finite J \<and> (\<forall>j \<in> J. \<exists>xs. chain t (node j) xs)"

definition counts_ok :: "addr set \<Rightarrow> (addr \<Rightarrow> addr) \<Rightarrow> (addr \<Rightarrow> uint32) \<Rightarrow> jgstore \<Rightarrow> bool" where
  "counts_ok J node stat t \<longleftrightarrow>
     (\<forall>n i. counted (t n) \<longrightarrow> i < NUM_JGRP_COUNTERS \<longrightarrow>
        g_counts (t n) i = (\<Sum>j\<in>J. if below t node n j then stat_unit (stat j) i else 0))"

lemma chain_parent_cong: "(\<And>x. g_parent (t' x) = g_parent (t x)) \<Longrightarrow> chain t' g xs = chain t g xs"
  using chain_cong [of t g xs t'] chain_cong [of t' g xs t] by auto

lemma below_cong: "(\<And>x. g_parent (t' x) = g_parent (t x)) \<Longrightarrow> below t' node = below t node"
  using chain_parent_cong [of t' t] by (simp add: below_def fun_eq_iff)

lemma below_chain: "chain t (node j) xs \<Longrightarrow> below t node n j \<longleftrightarrow> n \<in> set xs"
  using chain_unique by (auto simp: below_def)

text \<open>A change of a job's state; \<open>JOB_STAT_NULL\<close> stands for a job that is not counted.\<close>

lemma updJgrpCountByJStatus_counts:
  assumes ok: "counts_ok J node stat t" and J: "nodes_ok J node t" and j: "j \<in> J"
  obtains t' where "updJgrpCountByJStatus (node j) (stat j) new t = Some t'" "counts_ok J node (stat(j := new)) t'"
    "nodes_ok J node t'" "\<And>x. lk (t' x) = lk (t x)" "\<And>x. g_nodeType (t' x) = g_nodeType (t x)" "\<And>x. g_job (t' x) = g_job (t x)"
proof -
  obtain xs where xs: "chain t (node j) xs" using J j by (auto simp: nodes_ok_def)
  define t' where "t' = bumped xs (moveCount (stat j) new) t"
  have p: "\<And>x. g_parent (t' x) = g_parent (t x)" by (simp add: t'_def)
  have fin: "finite J" using J by (simp add: nodes_ok_def)
  have "counts_ok J node (stat(j := new)) t'"
    unfolding counts_ok_def below_cong [OF p]
  proof (intro allI impI)
    fix n i assume n: "counted (t' n)" and i: "i < NUM_JGRP_COUNTERS"
    have *: "(\<Sum>k\<in>J. if below t node n k then stat_unit ((stat(j := new)) k) i else 0) =
      (\<Sum>k\<in>J. if below t node n k then stat_unit (stat k) i else 0) +
      (if n \<in> set xs then stat_unit new i - stat_unit (stat j) i else 0)"
      using fin j below_chain [of t node j xs n] xs by (simp add: sum.remove [of J j] cong: if_cong)
    have "g_counts (t n) i = (\<Sum>k\<in>J. if below t node n k then stat_unit (stat k) i else 0)"
      using ok n i by (simp add: counts_ok_def t'_def)
    moreover have "g_counts (t' n) i = g_counts (t n) i + (if n \<in> set xs then stat_unit new i - stat_unit (stat j) i else 0)"
      using n by (simp add: t'_def) (simp add: bumped_def moveCount_unit)
    ultimately show "g_counts (t' n) i = (\<Sum>k\<in>J. if below t node n k then stat_unit ((stat(j := new)) k) i else 0)"
      using * by simp
  qed
  moreover have "nodes_ok J node t'" using J chain_parent_cong [of t' t, OF p] by (simp add: nodes_ok_def)
  ultimately show thesis using that updJgrpCountByJStatus_chain [OF xs, of "stat j" new] by (simp add: t'_def)
qed

section \<open>Hanging a subtree in and out\<close>

text \<open>\<open>t2\<close> has \<open>c\<close>, a root in \<open>t1\<close>, below \<open>q\<close>, whose ancestors are \<open>qs\<close>.\<close>

definition grafted :: "jgstore \<Rightarrow> addr \<Rightarrow> addr \<Rightarrow> addr list \<Rightarrow> jgstore \<Rightarrow> bool" where
  "grafted t1 c q qs t2 \<longleftrightarrow> (\<forall>x. g_parent (t2 x) = (if x = c then q else g_parent (t1 x))) \<and>
     chain t1 c [c] \<and> chain t1 q qs \<and> c \<notin> set qs"

lemma chain_replace:
  assumes "chain t1 g (as @ c # bs)" and "chain t2 c (c # bs')" and "\<And>x. x \<in> set as \<Longrightarrow> g_parent (t2 x) = g_parent (t1 x)"
  shows "chain t2 g (as @ c # bs')"
  using assms
proof (induction as arbitrary: g rule: list.induct)
  case (Cons a as)
  then show ?case by (simp add: chain_simps)
qed (simp add: chain_simps)

lemma grafted_chain:
  assumes g: "grafted t1 c q qs t2" and x: "chain t1 g xs"
  shows "chain t2 g (if c \<in> set xs then xs @ qs else xs)"
proof (cases "c \<in> set xs")
  case True
  then obtain as bs where xs: "xs = as @ c # bs" and as: "c \<notin> set as" by (meson split_list_first)
  have "chain t1 c (c # bs)" using chain_suffix [of t1 g as c bs] x xs by simp
  then have bs: "bs = []" using g chain_unique [of t1 c "c # bs" "[c]"] by (simp add: grafted_def)
  have "chain t2 q qs" using g chain_cong [of t1 q qs t2] unfolding grafted_def by metis
  then have "chain t2 c (c # qs)" using g by (auto simp: grafted_def chain_simps)
  then have "chain t2 g (as @ c # qs)"
    using chain_replace [of t1 g as c bs t2 qs] x xs as g unfolding grafted_def by metis
  then show ?thesis using True xs bs by simp
next
  case False
  then show ?thesis using g chain_cong [OF x, of t2] unfolding grafted_def by metis
qed

lemma grafted_below:
  assumes g: "grafted t1 c q qs t2" and x: "chain t1 (node j) xs"
  shows "below t2 node n j \<longleftrightarrow> below t1 node n j \<or> below t1 node c j \<and> n \<in> set qs"
    and "n \<in> set qs \<Longrightarrow> \<not> (below t1 node n j \<and> below t1 node c j)"
proof -
  note b1 = below_chain [of t1 node j xs] and b2 = below_chain [of t2 node j "if c \<in> set xs then xs @ qs else xs"]
  show "below t2 node n j \<longleftrightarrow> below t1 node n j \<or> below t1 node c j \<and> n \<in> set qs"
    using b1 [OF x] b2 [OF grafted_chain [OF g x]] by (auto split: if_splits)
  show "\<not> (below t1 node n j \<and> below t1 node c j)" if n: "n \<in> set qs"
    using chain_distinct [OF grafted_chain [OF g x]] b1 [OF x] n by (auto split: if_splits)
qed

lemma grafted_nodes:
  assumes "grafted t1 c q qs t2" and "nodes_ok J node t1"
  shows "nodes_ok J node t2"
  using assms grafted_chain by (fastforce simp: nodes_ok_def)

lemma grafted_counts:
  assumes g: "grafted t1 c q qs t2" and J: "nodes_ok J node t1" and ct: "\<And>x. counted (t2 x) = counted (t1 x)"
    and cn: "\<And>x i. counted (t1 x) \<Longrightarrow> i < NUM_JGRP_COUNTERS \<Longrightarrow> g_counts (t2 x) i = g_counts (t1 x) i +
      (if x \<in> set qs then \<Sum>j\<in>J. if below t1 node c j then stat_unit (stat j) i else 0 else 0)"
  shows "counts_ok J node stat t2 = counts_ok J node stat t1"
proof -
  have "(\<Sum>j\<in>J. if below t2 node n j then stat_unit (stat j) i else 0) =
      (\<Sum>j\<in>J. if below t1 node n j then stat_unit (stat j) i else 0) +
      (if n \<in> set qs then \<Sum>j\<in>J. if below t1 node c j then stat_unit (stat j) i else 0 else 0)" for n i
  proof -
    have "(if below t2 node n j then stat_unit (stat j) i else 0) =
        (if below t1 node n j then stat_unit (stat j) i else 0) +
        (if n \<in> set qs then if below t1 node c j then stat_unit (stat j) i else 0 else 0)" if j: "j \<in> J" for j
    proof -
      obtain xs where "chain t1 (node j) xs" using J j by (auto simp: nodes_ok_def)
      then show ?thesis using grafted_below [OF g, of node j xs n] by auto
    qed
    then show ?thesis by (simp add: sum.distrib)
  qed
  then show ?thesis using cn by (auto simp: counts_ok_def ct)
qed

section \<open>Insertion\<close>

text \<open>The store after \<open>treeInsertChild\<close> has linked the new child, before it counts.\<close>

definition insertLinks :: "addr \<Rightarrow> addr \<Rightarrow> jgstore \<Rightarrow> jgstore option" where
  "insertLinks parent child t = do {
     t \<leftarrow> (if g_child (t parent) \<noteq> NULL
           then do { (c, t) \<leftarrow> treeLinkSibling (g_child (t parent)) child t;
                     Some (upd_g parent (\<lambda>x. x\<lparr>g_child := c\<rparr>) t) }
           else Some (upd_g parent (\<lambda>x. x\<lparr>g_child := child\<rparr>) t));
     setParents parent child t }"

lemma treeInsertChild_unfold:
  assumes "parent \<noteq> NULL" and "child \<noteq> NULL"
  shows "treeInsertChild node stat parent child g = do {
    t \<leftarrow> insertLinks parent child (jgD g);
    t \<leftarrow> countNew node stat child t;
    Some (parent, g\<lparr>jgD := t\<rparr>) }"
  using assms by (simp add: treeInsertChild_def insertLinks_def treeObserverEvalDep_def split: bind_splits)

text \<open>What an operation on the links leaves alone.\<close>

definition same_info :: "jgstore \<Rightarrow> jgstore \<Rightarrow> bool" where
  "same_info t t' \<longleftrightarrow> (\<forall>x. g_counts (t' x) = g_counts (t x) \<and> g_nodeType (t' x) = g_nodeType (t x) \<and> g_job (t' x) = g_job (t x))"

lemma insertLinks_linked:
  assumes l: "sibs t p l ts a" and d: "distinct (pres ts)" and q: "q \<in> set (pres ts)" and c: "c \<notin> set (pres ts)" "c \<noteq> NULL"
    and r: "g_left (t c) = NULL" "g_right (t c) = NULL"
  shows "\<exists>t'. insertLinks q c t = Some t' \<and> linked t q c t' \<and> same_info t t' \<and>
    (\<forall>x. g_parent (t' x) = (if x = c then q else g_parent (t x)))"
proof (cases "g_child (t q) = NULL")
  case True
  have "q \<noteq> c" using q c by auto
  then show ?thesis
    using True r
    by (intro exI [of _ "upd_g c (\<lambda>x. x\<lparr>g_parent := q\<rparr>) (upd_g q (\<lambda>x. x\<lparr>g_child := c\<rparr>) t)"])
      (auto simp: insertLinks_def setParents.simps [of q c] Let_def upd_g_def linked_def lk_def same_info_def)
next
  case False
  obtain n where n: "lastSibling t (g_child (t q)) = Some n" "n \<in> set (pres ts)"
    by (rule linked_near [OF l q False])
  have "q \<noteq> c" "n \<noteq> c" using q n c by auto
  then show ?thesis
    using False r n c(2)
    by (intro exI [of _ "upd_g c (\<lambda>x. x\<lparr>g_parent := q\<rparr>) (upd_g q (\<lambda>x. x\<lparr>g_child := g_child (t q)\<rparr>)
        (upd_g c (\<lambda>x. x\<lparr>g_left := n\<rparr>) (upd_g n (\<lambda>x. x\<lparr>g_right := c\<rparr>) t)))"])
      (auto simp: insertLinks_def treeLinkSibling_def setParents.simps [of q c] Let_def upd_g_def linked_def lk_def same_info_def)
qed

text \<open>
  The nodes that are put onto the tree: a group or an array, or the node of one
  job.
\<close>

definition node_kind :: "addr set \<Rightarrow> (addr \<Rightarrow> addr) \<Rightarrow> jgstore \<Rightarrow> addr \<Rightarrow> bool" where
  "node_kind J node t c \<longleftrightarrow> counted (t c) \<or>
     g_nodeType (t c) = JGRP_NODE_JOB \<and> g_job (t c) \<in> J \<and> node (g_job (t c)) = c \<and>
     (\<forall>j \<in> J. below t node c j \<longrightarrow> j = g_job (t c))"

text \<open>What the jobs below a node contribute.\<close>

definition load :: "addr set \<Rightarrow> (addr \<Rightarrow> addr) \<Rightarrow> (addr \<Rightarrow> uint32) \<Rightarrow> jgstore \<Rightarrow> addr \<Rightarrow> nat \<Rightarrow> int" where
  "load J node stat t c i = (\<Sum>j\<in>J. if below t node c j then stat_unit (stat j) i else 0)"

lemma load_counted: "counts_ok J node stat t \<Longrightarrow> counted (t c) \<Longrightarrow> i < NUM_JGRP_COUNTERS \<Longrightarrow> load J node stat t c i = g_counts (t c) i"
  by (simp add: load_def counts_ok_def)

lemma load_job:
  assumes "finite J" and "g_job (t c) \<in> J" and "node (g_job (t c)) = c" and "\<forall>j \<in> J. below t node c j \<longrightarrow> j = g_job (t c)"
    and "chain t c (c # qs)"
  shows "load J node stat t c i = stat_unit (stat (g_job (t c))) i"
proof -
  have "below t node c (g_job (t c))" unfolding below_def using assms(3,5) by (intro exI [of _ "c # qs"]) simp
  then have "below t node c j \<longleftrightarrow> j = g_job (t c)" if "j \<in> J" for j using assms(4) that by blast
  then have "(if below t node c j then stat_unit (stat j) i else 0) = (if j = g_job (t c) then stat_unit (stat j) i else 0)"
    if "j \<in> J" for j using that by simp
  then have "load J node stat t c i = (\<Sum>j\<in>J. if j = g_job (t c) then stat_unit (stat j) i else 0)"
    unfolding load_def by (rule sum.cong [OF refl])
  then show ?thesis using assms(1,2) by simp
qed

lemma counted_job: "counted n \<Longrightarrow> g_nodeType n \<noteq> JGRP_NODE_JOB"
  by (auto simp: counted_def JGRP_NODE_JOB_def JGRP_NODE_GROUP_def JGRP_NODE_ARRAY_def)

lemma countNew_step:
  assumes g: "grafted t c q qs t1" and si: "same_info t t1" and ok: "counts_ok J node stat t" and J: "nodes_ok J node t"
    and k: "node_kind J node t c" and qs: "\<forall>x \<in> set qs. counted (t x)"
  shows "\<exists>t2. countNew node stat c t1 = Some t2 \<and> counts_ok J node stat t2 \<and> nodes_ok J node t2 \<and> (\<forall>x. lk (t2 x) = lk (t1 x))"
proof -
  have v: "\<And>x. g_nodeType (t1 x) = g_nodeType (t x)" "\<And>x. g_job (t1 x) = g_job (t x)" "\<And>x. g_counts (t1 x) = g_counts (t x)"
    "\<And>x. counted (t1 x) = counted (t x)" using si by (simp_all add: same_info_def counted_def)
  have c: "chain t c [c]" "c \<notin> set qs" "c \<noteq> NULL" "g_parent (t1 c) = q" using g by (auto simp: grafted_def chain_simps)
  have cc: "chain t1 c (c # qs)" using grafted_chain [OF g c(1)] by simp
  have cq: "chain t1 q qs" using cc c(4) by (simp add: chain_simps)
  have *: ?thesis if new: "countNew node stat c t1 = Some (bumped xs f t1)" and xs: "\<And>x. counted (t x) \<Longrightarrow> x \<in> set xs \<longleftrightarrow> x \<in> set qs"
    and f: "\<And>n i. i < NUM_JGRP_COUNTERS \<Longrightarrow> f n i = n i + load J node stat t c i" for xs f
  proof -
    have p: "\<And>x. g_parent (bumped xs f t1 x) = g_parent (t1 x)" by simp
    have g2: "grafted t c q qs (bumped xs f t1)" using g by (simp add: grafted_def)
    have cn: "g_counts (bumped xs f t1 x) i = g_counts (t x) i +
        (if x \<in> set qs then \<Sum>j\<in>J. if below t node c j then stat_unit (stat j) i else 0 else 0)"
      if "counted (t x)" "i < NUM_JGRP_COUNTERS" for x i
      using that f xs by (simp add: bumped_def v load_def)
    have "counts_ok J node stat (bumped xs f t1)" using grafted_counts [OF g2 J _ cn] ok v by simp
    then show ?thesis using new grafted_nodes [OF g2 J] by auto
  qed
  show ?thesis
  proof (cases "counted (t c)")
    case True
    show ?thesis
    proof (rule *)
      have "countByOpLoop c 1 q t1 = Some (bumped qs (addCounts 1 (g_counts (t1 c))) t1)"
        by (rule countByOpLoop_chain [OF cq]) (use c qs True v in auto)
      then show "countNew node stat c t1 = Some (bumped qs (addCounts 1 (g_counts (t c))) t1)"
        using counted_job [OF True] c(4) v by (simp add: countNew_def updJgrpCountByOp_def)
    qed (use load_counted [OF ok True] in \<open>simp_all add: addCounts_def\<close>)
  next
    case False
    then have kj: "g_nodeType (t c) = JGRP_NODE_JOB" "g_job (t c) \<in> J" "node (g_job (t c)) = c"
      "\<forall>j \<in> J. below t node c j \<longrightarrow> j = g_job (t c)" using k by (auto simp: node_kind_def)
    show ?thesis
    proof (rule *)
      show "countNew node stat c t1 = Some (bumped (c # qs) (moveCount JOB_STAT_NULL (stat (g_job (t c)))) t1)"
        using updJgrpCountByJStatus_chain [OF cc] kj v by (simp add: countNew_def)
      show "moveCount JOB_STAT_NULL (stat (g_job (t c))) n i = n i + load J node stat t c i" for n i
        using load_job [OF _ kj(2-4), of "[]" stat i] c J by (simp add: moveCount_unit stat_unit_def nodes_ok_def)
      show "x \<in> set (c # qs) \<longleftrightarrow> x \<in> set qs" if "counted (t x)" for x using that False by auto
    qed
  qed
qed

text \<open>A tree with its counters.\<close>

definition group_tree :: "addr set \<Rightarrow> (addr \<Rightarrow> addr) \<Rightarrow> (addr \<Rightarrow> uint32) \<Rightarrow> jgstore \<Rightarrow> addr \<Rightarrow> rose \<Rightarrow> bool" where
  "group_tree J node stat t root r \<longleftrightarrow> tree_ok t root r \<and> counts_ok J node stat t \<and> nodes_ok J node t"

definition loose :: "jgstore \<Rightarrow> addr \<Rightarrow> rose list \<Rightarrow> addr list \<Rightarrow> bool" where
  "loose t c ks ns \<longleftrightarrow> c \<noteq> NULL \<and> g_parent (t c) = NULL \<and> g_left (t c) = NULL \<and> g_right (t c) = NULL \<and>
     sibs t c NULL ks (g_child (t c)) \<and> distinct (c # pres ks) \<and> set (c # pres ks) \<inter> set ns = {}"

lemma treeInsertChild_step:
  assumes gt: "group_tree J node stat (jgD g) root r" and q: "q \<in> set (pres [r])" and c: "loose (jgD g) c ks (pres [r])"
    and k: "node_kind J node (jgD g) c" and qs: "chain (jgD g) q qs" "\<forall>x \<in> set qs. counted (jgD g x)"
  shows "\<exists>t. treeInsertChild node stat q c g = Some (q, g\<lparr>jgD := t\<rparr>) \<and>
    group_tree J node stat t root (hd (inss q (Node c ks) [r]))"
proof -
  let ?t = "jgD g"
  have l: "sibs ?t NULL NULL [r] root" and d: "distinct (pres [r])" and ok: "counts_ok J node stat ?t" and J: "nodes_ok J node ?t"
    using gt by (simp_all add: group_tree_def tree_ok_def)
  have c': "c \<notin> set (pres [r])" "c \<noteq> NULL" "g_left (?t c) = NULL" "g_right (?t c) = NULL" "g_parent (?t c) = NULL"
    using c by (auto simp: loose_def)
  obtain t1 where t1: "insertLinks q c ?t = Some t1" "linked ?t q c t1" "same_info ?t t1"
    "\<And>x. g_parent (t1 x) = (if x = c then q else g_parent (?t x))"
    using insertLinks_linked [OF l d q c'(1-4)] by blast
  obtain xs where "chain ?t q xs" "set xs \<subseteq> set (pres [r])"
    using sibs_chain [OF l chain_nil q] by auto
  then have "set qs \<subseteq> set (pres [r])" using chain_unique [OF qs(1)] by blast
  then have "grafted ?t c q qs t1" using t1(4) qs(1) c' by (auto simp: grafted_def chain_simps chain_nil)
  from countNew_step [OF this t1(3) ok J k qs(2)]
  obtain t2 where t2: "countNew node stat c t1 = Some t2" "counts_ok J node stat t2" "nodes_ok J node t2" "\<And>x. lk (t2 x) = lk (t1 x)"
    by blast
  have "sibs t1 NULL NULL (inss q (Node c ks) [r]) root"
    by (rule sibs_linked [OF l d q _ _ _ _ t1(2)]) (use c in \<open>simp_all add: loose_def\<close>)
  then have l2: "sibs t2 NULL NULL (inss q (Node c ks) [r]) root" using sibs_cong [of _ t2 t1] t2(4) by simp
  obtain b cs where r: "r = Node b cs" by (cases r)
  then have one: "inss q (Node c ks) [r] = [hd (inss q (Node c ks) [r])]" by simp
  have "mset (pres (inss q (Node c ks) [r])) = mset (pres [r] @ pres [Node c ks])"
    using pres_inss [OF d q, of "Node c ks"] by simp
  then have "distinct (pres (inss q (Node c ks) [r]))"
    using mset_eq_imp_distinct_iff d c unfolding loose_def by (metis append_Nil2 distinct_append inf_commute pres.simps)
  then have "tree_ok t2 root (hd (inss q (Node c ks) [r]))" using l2 one by (simp add: tree_ok_def)
  moreover have "q \<noteq> NULL" using sibs_notnull [OF l] q by metis
  ultimately show ?thesis using t1(1) t2(1-3) c'(2) by (auto simp: treeInsertChild_unfold group_tree_def)
qed

section \<open>Clipping\<close>

lemma dels_near:
  assumes "sibs t p l ts a" and "x \<in> set (pres ts)" and "distinct (pres ts)"
  shows "g_right (t x) \<in> insert NULL (set (pres (dels x ts))) \<and> g_parent (t x) \<in> insert p (set (pres (dels x ts)))"
  using assms
proof (induction t p l ts a rule: sibs.induct)
  case (2 t p l b cs ts a)
  have c: "sibs t b NULL cs (g_child (t b))" and r: "sibs t p b ts (g_right (t b))" using "2.prems"(1) by simp_all
  consider "x = b" | "x \<in> set (pres cs)" | "x \<in> set (pres ts)" using "2.prems"(2) by auto
  then show ?case
  proof cases
    case 1
    have "g_right (t b) \<in> insert NULL (set (pres ts))"
      using sibs_first [OF r, of NULL] by (cases "pres ts") (auto split: if_splits)
    then show ?thesis using 1 "2.prems" by auto
  next
    case 2
    then have "x \<noteq> b" using "2.prems"(3) by auto
    then show ?thesis using "2.IH"(1) [OF c 2] "2.prems"(3) by auto
  next
    case 3
    then have "x \<noteq> b" using "2.prems"(3) by auto
    then show ?thesis using "2.IH"(2) [OF r 3] "2.prems"(3) by auto
  qed
qed simp

lemma dels_keeps:
  assumes "sibs t p l ts a" and "chain t p ps" and "e \<in> set (pres ts)"
  shows "\<exists>xs. chain t e (xs @ ps) \<and> (x \<notin> set xs \<longrightarrow> e \<in> set (pres (dels x ts)))"
  using assms
proof (induction t p l ts a arbitrary: ps rule: sibs.induct)
  case (2 t p l b cs ts a)
  then have cb: "chain t b (b # ps)" by (auto intro: chain.intros)
  consider "e = b" | "e \<in> set (pres cs)" | "e \<in> set (pres ts)" using "2.prems"(3) by auto
  then show ?case
  proof cases
    case 1
    then show ?thesis using cb by (intro exI [of _ "[b]"]) auto
  next
    case 2
    then obtain xs where "chain t e (xs @ b # ps)" "x \<notin> set xs \<longrightarrow> e \<in> set (pres (dels x cs))"
      using "2.IH"(1) [OF _ cb] "2.prems"(1) by auto
    then show ?thesis by (intro exI [of _ "xs @ [b]"]) auto
  next
    case 3
    then obtain xs where "chain t e (xs @ ps)" "x \<notin> set xs \<longrightarrow> e \<in> set (pres (dels x ts))"
      using "2.IH"(2) [OF _ "2.prems"(2)] "2.prems"(1) by auto
    then show ?thesis by (intro exI [of _ xs]) auto
  qed
qed simp

lemma treeLexUp_in:
  assumes "sibs t p l ts a" and "treeLexUp t p = Some k" and "y \<in> set (pres ts)"
  shows "\<exists>z \<in> insert k (set (pres ts)). treeLexUp t y = Some z"
  using assms
proof (induction t p l ts a arbitrary: k rule: sibs.induct)
  case (2 t p l b cs ts a)
  have c: "sibs t b NULL cs (g_child (t b))" and r: "sibs t p b ts (g_right (t b))"
    and b: "b \<noteq> NULL" "g_parent (t b) = p" using "2.prems"(1) by simp_all
  have up: "treeLexUp t b = Some (first (pres ts) k)" by (rule treeLexUp_links [OF r "2.prems"(2) b refl])
  have f: "first (pres ts) k \<in> insert k (set (pres ts))" by (cases "pres ts") auto
  consider "y = b" | "y \<in> set (pres cs)" | "y \<in> set (pres ts)" using "2.prems"(3) by auto
  then show ?case
  proof cases
    case 1
    then show ?thesis using up f by auto
  next
    case 2
    then show ?thesis using "2.IH"(1) [OF c up 2] f by auto
  next
    case 3
    then show ?thesis using "2.IH"(2) [OF r "2.prems"(2) 3] by auto
  qed
qed simp

lemma same_info_upd:
  "(\<And>n. g_counts (f n) = g_counts n \<and> g_nodeType (f n) = g_nodeType n \<and> g_job (f n) = g_job n) \<Longrightarrow> same_info t (upd_g a f t)"
  by (simp add: same_info_def upd_g_def)

lemma same_info_trans: "same_info t t' \<Longrightarrow> same_info t' t'' \<Longrightarrow> same_info t t''"
  by (simp add: same_info_def)

lemma clipLinks_same: "same_info t (clipLinks x t) \<and> (\<forall>y. g_parent (clipLinks x t y) = g_parent (t y))"
proof -
  define t1 where "t1 = (if g_left (t x) \<noteq> NULL then upd_g (g_left (t x)) (\<lambda>n. n\<lparr>g_right := g_right (t x)\<rparr>) t
               else if g_parent (t x) \<noteq> NULL then upd_g (g_parent (t x)) (\<lambda>n. n\<lparr>g_child := g_right (t x)\<rparr>) t
               else t)"
  have eq: "clipLinks x t = (if g_right (t1 x) \<noteq> NULL then upd_g (g_right (t1 x)) (\<lambda>n. n\<lparr>g_left := g_left (t1 x)\<rparr>) t1 else t1)"
    by (simp only: clipLinks_def Let_def t1_def)
  have "same_info t t1 \<and> (\<forall>y. g_parent (t1 y) = g_parent (t y))"
    by (simp add: t1_def same_info_def upd_g_def)
  then show ?thesis by (simp add: eq same_info_def upd_g_def)
qed

text \<open>The counting of \<open>treeClip\<close>.\<close>

definition countOff :: "(addr \<Rightarrow> addr) \<Rightarrow> (addr \<Rightarrow> uint32) \<Rightarrow> addr \<Rightarrow> jgstore \<Rightarrow> jgstore option" where
  "countOff node stat nd t =
     (if g_nodeType (t nd) = JGRP_NODE_JOB
      then updJgrpCountByJStatus (node (g_job (t nd))) (stat (g_job (t nd))) JOB_STAT_NULL t
      else updJgrpCountByOp nd (-1) t)"

lemma countOff_step:
  assumes si: "same_info t t1" and par: "\<And>x. g_parent (t1 x) = g_parent (t x)"
    and ok: "counts_ok J node stat t" and J: "nodes_ok J node t" and c: "chain t c (c # qs)"
    and k: "node_kind J node t c" and qs: "\<forall>x \<in> set qs. counted (t x)"
  shows "\<exists>t2. countOff node stat c t1 = Some t2 \<and> (\<forall>x. lk (t2 x) = lk (t1 x)) \<and>
    (\<forall>t3. same_info t2 t3 \<longrightarrow> (\<forall>x. g_parent (t3 x) = (if x = c then NULL else g_parent (t2 x))) \<longrightarrow>
       counts_ok J node stat t3 \<and> nodes_ok J node t3)"
proof -
  have v: "\<And>x. g_nodeType (t1 x) = g_nodeType (t x)" "\<And>x. g_job (t1 x) = g_job (t x)" "\<And>x. g_counts (t1 x) = g_counts (t x)"
    "\<And>x. counted (t1 x) = counted (t x)" using si by (simp_all add: same_info_def counted_def)
  have cc: "chain t1 c (c # qs)" using c chain_parent_cong [of t1 t, OF par] by simp
  have cq: "chain t1 (g_parent (t1 c)) qs" "c \<notin> set qs" "c \<noteq> NULL" using cc chain_distinct [OF cc] by (simp_all add: chain_simps)
  have *: ?thesis if new: "countOff node stat c t1 = Some (bumped xs f t1)" and xs: "\<And>x. counted (t x) \<Longrightarrow> x \<in> set xs \<longleftrightarrow> x \<in> set qs"
    and f: "\<And>n i. i < NUM_JGRP_COUNTERS \<Longrightarrow> f n i = n i - load J node stat t c i" for xs f
  proof -
    have "counts_ok J node stat t3 \<and> nodes_ok J node t3" if s3: "same_info (bumped xs f t1) t3"
      and p3: "\<forall>x. g_parent (t3 x) = (if x = c then NULL else g_parent (bumped xs f t1 x))" for t3
    proof -
      have p: "g_parent (t3 x) = (if x = c then NULL else g_parent (t x))" for x using p3 par by simp
      have q3: "chain t3 (g_parent (t c)) qs"
        by (rule chain_cong [OF cq(1) [unfolded par]]) (use cq(2) p par in auto)
      have g: "grafted t3 c (g_parent (t c)) qs t"
        using p q3 cq(2,3) by (auto simp: grafted_def chain_simps chain_nil)
      have n3: "nodes_ok J node t3"
        unfolding nodes_ok_def
      proof (intro conjI ballI)
        show "finite J" using J by (simp add: nodes_ok_def)
        fix j assume "j \<in> J"
        then obtain ys where ys: "chain t (node j) ys" using J by (auto simp: nodes_ok_def)
        show "\<exists>zs. chain t3 (node j) zs"
        proof (cases "c \<in> set ys")
          case True
          then obtain as bs where "ys = as @ c # bs" "c \<notin> set as" by (meson split_list_first)
          moreover have "chain t3 c [c]" using p [of c] cq(3) by (simp add: chain_simps)
          ultimately show ?thesis using chain_replace [of t "node j" as c bs t3 "[]"] ys p by metis
        next
          case False
          then show ?thesis using chain_cong [OF ys, of t3] p by metis
        qed
      qed
      have cb: "below t3 node c j \<longleftrightarrow> below t node c j" if "j \<in> J" for j
        using n3 that grafted_below(1) [OF g, of node j _ c] cq(2) by (auto simp: nodes_ok_def)
      have l: "(\<Sum>j\<in>J. if below t3 node c j then stat_unit (stat j) i else 0) = load J node stat t c i" for i
        unfolding load_def using cb by (intro sum.cong) auto
      have c3: "counted (t3 x) = counted (t x)" "g_counts (t3 x) = g_counts (bumped xs f t1 x)" for x
        using s3 v by (auto simp: same_info_def counted_def)
      have cn: "g_counts (t x) i = g_counts (t3 x) i +
          (if x \<in> set qs then \<Sum>j\<in>J. if below t3 node c j then stat_unit (stat j) i else 0 else 0)"
        if "counted (t3 x)" "i < NUM_JGRP_COUNTERS" for x i
        unfolding l using that f xs [of x] by (auto simp: c3) (simp_all add: bumped_def v)
      show ?thesis using n3 grafted_counts [OF g n3 _ cn] ok c3 by simp
    qed
    then show ?thesis using new by auto
  qed
  show ?thesis
  proof (cases "counted (t c)")
    case True
    show ?thesis
    proof (rule *)
      have "countByOpLoop c (-1) (g_parent (t1 c)) t1 = Some (bumped qs (addCounts (-1) (g_counts (t1 c))) t1)"
        by (rule countByOpLoop_chain [OF cq(1,2)]) (use qs True v in auto)
      then show "countOff node stat c t1 = Some (bumped qs (addCounts (-1) (g_counts (t c))) t1)"
        using counted_job [OF True] v by (simp add: countOff_def updJgrpCountByOp_def)
    qed (use load_counted [OF ok True] in \<open>simp_all add: addCounts_def\<close>)
  next
    case False
    then have kj: "g_nodeType (t c) = JGRP_NODE_JOB" "g_job (t c) \<in> J" "node (g_job (t c)) = c"
      "\<forall>j \<in> J. below t node c j \<longrightarrow> j = g_job (t c)" using k by (auto simp: node_kind_def)
    show ?thesis
    proof (rule *)
      show "countOff node stat c t1 = Some (bumped (c # qs) (moveCount (stat (g_job (t c))) JOB_STAT_NULL) t1)"
        using updJgrpCountByJStatus_chain [OF cc] kj v by (simp add: countOff_def)
      show "moveCount (stat (g_job (t c))) JOB_STAT_NULL n i = n i - load J node stat t c i" for n i
        using load_job [OF _ kj(2-4) c, of stat i] J by (simp add: moveCount_unit stat_unit_def nodes_ok_def)
      show "x \<in> set (c # qs) \<longleftrightarrow> x \<in> set qs" if "counted (t x)" for x using that False by auto
    qed
  qed
qed

text \<open>The place of the dependency check moves out of the clipped subtree.\<close>

lemma observer_clip:
  assumes t: "sibs t NULL NULL [r] root" "distinct (pres [r])" and x: "x \<in> set (pres [r])" "x \<noteq> root"
    and t2: "sibs t2 NULL NULL (dels x [r]) root" and par: "\<And>y. g_parent (t2 y) = g_parent (t y)"
    and right: "g_right (t2 x) = g_right (t x)" and e: "depEntry g \<in> insert NULL (set (pres [r]))" "jgD g = t2"
  shows "\<exists>e'. treeObserverEvalDep x TREE_EVENT_CLIP g = Some (g\<lparr>depEntry := e'\<rparr>) \<and> e' \<in> insert NULL (set (pres (dels x [r])))"
proof -
  have xn: "x \<noteq> NULL" using sibs_notnull [OF t(1)] x(1) by metis
  have near: "g_right (t x) \<in> insert NULL (set (pres (dels x [r])))" "g_parent (t x) \<in> insert NULL (set (pres (dels x [r])))"
    using dels_near [OF t(1) x(1) t(2)] by simp_all
  have up: "treeLexUp t2 NULL = Some NULL" by (simp add: treeLexUp.simps [of t2 NULL])
  have nxt: "\<exists>e'. treeNextSib t2 x = Some e' \<and> e' \<in> insert NULL (set (pres (dels x [r])))"
  proof (cases "g_right (t x) = NULL")
    case True
    then show ?thesis
      using treeLexUp_in [OF t2 up, of "g_parent (t x)"] near(2) up xn right par by (auto simp: treeNextSib_def)
  next
    case False
    then show ?thesis using near(1) xn right by (auto simp: treeNextSib_def)
  qed
  have "\<exists>b. (if depEntry g = x then Some True else isAncestor t2 x (depEntry g)) = Some b \<and>
      (\<not> b \<longrightarrow> depEntry g \<in> insert NULL (set (pres (dels x [r]))))"
  proof (cases "depEntry g = NULL")
    case True
    then show ?thesis using xn by (intro exI [of _ False]) (simp add: isAncestor_def)
  next
    case False
    then have "depEntry g \<in> set (pres [r])" using e by simp
    then obtain xs where xs: "chain t (depEntry g) (xs @ [])" "x \<notin> set xs \<longrightarrow> depEntry g \<in> set (pres (dels x [r]))"
      using dels_keeps [OF t(1) chain_nil] by blast
    then have c: "chain t2 (depEntry g) xs" using chain_parent_cong [of t2 t, OF par] by simp
    then obtain ys where ys: "xs = depEntry g # ys" using False by (cases rule: chain.cases) auto
    then show ?thesis using isAncestor_chain [OF xn, of t2 "depEntry g" ys] c xs(2) by auto
  qed
  then obtain b where b: "(if depEntry g = x then Some True else isAncestor t2 x (depEntry g)) = Some b"
    "\<not> b \<longrightarrow> depEntry g \<in> insert NULL (set (pres (dels x [r])))" by blast
  show ?thesis
  proof (cases b)
    case True
    then show ?thesis using b nxt e(2) by (auto simp: treeObserverEvalDep_def)
  next
    case False
    then show ?thesis using b e(2) by (intro exI [of _ "depEntry g"]) (auto simp: treeObserverEvalDep_def)
  qed
qed

lemma treeClip_unfold:
  assumes "nd \<noteq> NULL"
  shows "treeClip node stat nd g = do {
    t \<leftarrow> countOff node stat nd (clipLinks nd (jgD g));
    g \<leftarrow> treeObserverEvalDep nd TREE_EVENT_CLIP (g\<lparr>jgD := t\<rparr>);
    Some (g\<lparr>jgD := upd_g nd (\<lambda>x. x\<lparr>g_parent := NULL, g_left := NULL, g_right := NULL\<rparr>) (jgD g)\<rparr>) }"
  using assms by (simp add: treeClip_def countOff_def Let_def)

lemma treeClip_step:
  assumes gt: "group_tree J node stat (jgD g) root r" and x: "x \<in> set (pres [r])" "x \<noteq> root"
    and k: "node_kind J node (jgD g) x" and qs: "chain (jgD g) x (x # qs)" "\<forall>y \<in> set qs. counted (jgD g y)"
    and e: "depEntry g \<in> insert NULL (set (pres [r]))"
  shows "\<exists>g'. treeClip node stat x g = Some g' \<and> group_tree J node stat (jgD g') root (hd (dels x [r])) \<and>
    depEntry g' \<in> insert NULL (set (pres (dels x [r]))) \<and> groupRoot g' = groupRoot g \<and>
    g_parent (jgD g' x) = NULL \<and> g_left (jgD g' x) = NULL \<and> g_right (jgD g' x) = NULL"
proof -
  let ?t = "jgD g"
  have l: "sibs ?t NULL NULL [r] root" and d: "distinct (pres [r])" and ok: "counts_ok J node stat ?t" and J: "nodes_ok J node ?t"
    using gt by (simp_all add: group_tree_def tree_ok_def)
  have n: "NULL \<notin> set (pres [r])" by (rule sibs_notnull [OF l])
  then have xn: "x \<noteq> NULL" using x(1) by metis
  note self = sibs_self [OF l d x(1) n n]
  define t1 where "t1 = clipLinks x ?t"
  have cl: "clipped ?t x t1" unfolding t1_def by (rule clipLinks_clipped) (use self in blast)+
  have same: "same_info ?t t1" and par: "\<And>y. g_parent (t1 y) = g_parent (?t y)" using clipLinks_same by (simp_all add: t1_def)
  have l1: "sibs t1 NULL NULL (dels x [r]) root"
    using sibs_clipped [OF l d x(1) n n cl] x(2) by simp
  obtain t2 where t2: "countOff node stat x t1 = Some t2" "\<And>y. lk (t2 y) = lk (t1 y)"
    "\<And>t3. same_info t2 t3 \<Longrightarrow> \<forall>y. g_parent (t3 y) = (if y = x then NULL else g_parent (t2 y)) \<Longrightarrow>
       counts_ok J node stat t3 \<and> nodes_ok J node t3"
    using countOff_step [OF same par ok J qs(1) k qs(2)] by blast
  have l2: "sibs t2 NULL NULL (dels x [r]) root" using l1 sibs_cong [of _ t2 t1] t2(2) by simp
  have "lk (t1 x) = lk (?t x)" using cl self by (auto simp: clipped_def)
  then have right: "g_right (t2 x) = g_right (?t x)" using t2(2) [of x] by (simp add: lk_def)
  have par2: "g_parent (t2 y) = g_parent (?t y)" for y using t2(2) [of y] par by (simp add: lk_def)
  obtain e' where e': "treeObserverEvalDep x TREE_EVENT_CLIP (g\<lparr>jgD := t2\<rparr>) = Some (g\<lparr>jgD := t2, depEntry := e'\<rparr>)"
    "e' \<in> insert NULL (set (pres (dels x [r])))"
    using observer_clip [OF l d x l2 par2 right, of "g\<lparr>jgD := t2\<rparr>"] e by auto
  define t3 where "t3 = upd_g x (\<lambda>x. x\<lparr>g_parent := NULL, g_left := NULL, g_right := NULL\<rparr>) t2"
  have "counts_ok J node stat t3 \<and> nodes_ok J node t3"
    by (rule t2(3)) (auto simp: t3_def upd_g_def same_info_def)
  moreover have "lk (t3 y) = lk (t2 y)" if "y \<in> set (pres (dels x [r]))" for y
    using that dels_subset [of x "[r]"] by (auto simp: t3_def upd_g_def)
  then have l3: "sibs t3 NULL NULL (dels x [r]) root" using l2 sibs_cong by blast
  obtain b cs where r: "r = Node b cs" by (cases r)
  then have "dels x [r] = [hd (dels x [r])]" using l x(2) by auto
  then have "tree_ok t3 root (hd (dels x [r]))" using l3 dels_distinct [OF d, of x] by (simp add: tree_ok_def)
  ultimately show ?thesis
    using t2(1) e' xn by (auto simp: treeClip_unfold t1_def [symmetric] t3_def [symmetric] group_tree_def) (simp_all add: t3_def upd_g_def)
qed

end
