(* ===== verification/Group_Books.thy ===== *)
theory Group_Books
  imports Job_Invariants Jgrp_Counts
begin

unbundle bit_operations_syntax

text \<open>
  The counters of the job groups through the life of a job: only the calls of
  \<open>updJgrpCountByJStatus\<close> touch the tree, and they follow every change of a status.
\<close>

section \<open>What leaves the tree alone\<close>

text \<open>The tree, and what ties jobs to it and to the table of job identifiers.\<close>

type_synonym jview = "jgrp \<times> (addr \<Rightarrow> addr) \<times> (addr \<Rightarrow> int) \<times> (addr \<Rightarrow> int) \<times> (addr \<Rightarrow> addr) \<times> (int \<rightharpoonup> addr) \<times> (int \<times> int \<times> addr list)"

text \<open>What the cleaning of jobs reads besides.\<close>

definition cfg :: "mbd \<Rightarrow> int \<times> int \<times> addr list" where
  "cfg s = (clean_period s, nSbdConnections s, sbdJobs s)"

definition jv :: "mbd \<Rightarrow> jview" where
  "jv s = (jg s, \<lambda>i. jgrpNode (jD s i), \<lambda>i. jobId (jD s i), \<lambda>i. nodeType (jD s i), \<lambda>i. nextJob (jD s i), jobIdHT s, cfg s)"

lemma HT_upd [simp]:
  "jobIdHT (upd_q q f s) = jobIdHT s" "jobIdHT (upd_u u g s) = jobIdHT s" "jobIdHT (upd_h h k s) = jobIdHT s"
  "jobIdHT (upd_j j l s) = jobIdHT s" "jobIdHT (upd_sh a m s) = jobIdHT s" "jobIdHT (call c s) = jobIdHT s"
  "jobIdHT (countJgrp j x y s) = jobIdHT s"
  "cfg (upd_q q f s) = cfg s" "cfg (upd_u u g s) = cfg s" "cfg (upd_h h k s) = cfg s" "cfg (upd_j j l s) = cfg s"
  "cfg (upd_sh a m s) = cfg s" "cfg (call c s) = cfg s" "cfg (countJgrp j x y s) = cfg s"
  by (simp_all add: cfg_def upd_q_def upd_u_def upd_h_def upd_j_def upd_sh_def call_def countJgrp_def split: option.splits)

lemma jv_upd [simp]:
  "jv (upd_q q f s) = jv s" "jv (upd_u u g s) = jv s" "jv (upd_h h k s) = jv s" "jv (call c s) = jv s"
  "jv (upd_sh a m s) = jv s"
  by (simp_all add: jv_def) (simp_all add: upd_sh_def)

lemma jv_upd_j: "jgrpNode (f (jD s j)) = jgrpNode (jD s j) \<Longrightarrow> jobId (f (jD s j)) = jobId (jD s j) \<Longrightarrow>
    nodeType (f (jD s j)) = nodeType (jD s j) \<Longrightarrow> nextJob (f (jD s j)) = nextJob (jD s j) \<Longrightarrow> jv (upd_j j f s) = jv s"
  by (auto simp: jv_def)

lemma jv_fields [simp]:
  "jv (s\<lparr>hReasonTb := a\<rparr>) = jv s" "jv (s\<lparr>died := b\<rparr>) = jv s" "jv (s\<lparr>uDataList := c\<rparr>) = jv s" "jv (s\<lparr>nextAddr := d\<rparr>) = jv s"
  "jv (s\<lparr>uDataPtrTb := e\<rparr>) = jv s" "jv (s\<lparr>allUsersSet := f\<rparr>) = jv s" "jv (s\<lparr>jDataList := g\<rparr>) = jv s"
  "jv (s\<lparr>pendJobSlots := h\<rparr>) = jv s" "jv (s\<lparr>statusChanged := i\<rparr>) = jv s" "jv (s\<lparr>numRemoveJobs := k\<rparr>) = jv s"
  by (simp_all add: jv_def cfg_def)

lemma jv_foldl: "(\<And>s x. jv (f s x) = jv s) \<Longrightarrow> jv (foldl f s xs) = jv s"
  by (induction xs arbitrary: s) simp_all

lemma jv_updUAcct [simp]: "jv (updUAcct jp up a b c d e h s) = jv s"
  by (simp add: updUAcct_def Let_def split: option.splits)

lemma jv_updHAcctQLoop [simp]: "jv (updHAcctQLoop jp q a b c d hs s) = jv s"
  by (induction hs arbitrary: s) (simp_all add: Let_def split: option.splits)

lemma jv_updHAcctULoop [simp]: "jv (updHAcctULoop jp q a b c d hs s) = jv s"
  by (induction hs arbitrary: s) (simp_all add: Let_def split: option.splits)

lemma jv_updHAcct [simp]: "jv (updHAcctQ jp q a b c d s) = jv s" "jv (updHAcctU jp q a b c d s) = jv s"
  by (simp_all add: updHAcctQ_def updHAcctU_def Let_def)

lemma jv_joinAllUserGrp [simp]: "jv (joinAllUserGrp u g s) = jv s"
  by (simp add: joinAllUserGrp_def Let_def split: option.splits prod.splits)

lemma jv_addUserData [simp]: "jv (snd (addUserData a b c d e f g s)) = jv s"
  by (simp add: addUserData_def Let_def jv_foldl split: option.splits prod.splits)

lemma jv_getUserData [simp]: "jv (snd (getUserData u s)) = jv s"
  by (simp add: getUserData_def Let_def split: option.splits)

lemma jv_updUserData1 [simp]: "jv (updUserData1 jp up d s) = jv s"
  by (simp add: updUserData1_def Let_def)

lemma jv_chargeUser [simp]: "jv (snd (chargeUser jp up d r s)) = jv s"
  by (simp add: chargeUser_def Let_def)

lemma jv_findUserGroups [simp]: "jv (snd (findUserGroups u gs s)) = jv s"
  by (induction gs arbitrary: s) (simp_all add: Let_def case_prod_unfold)

lemma jv_initUserGroups [simp]: "jv (initUserGroups jp up s) = jv s"
  by (simp add: initUserGroups_def case_prod_unfold Let_def)

lemma jv_updUserGroups [simp]: "jv (snd (updUserGroups jp d us n s)) = jv s"
  by (induction us arbitrary: n s) (simp_all add: Let_def case_prod_unfold)

lemma jv_resolveUser [simp]: "jv (resolveUser jp s) = jv s"
  by (simp add: resolveUser_def case_prod_unfold Let_def jv_upd_j)

lemma jv_updUserData [simp]: "jv (updUserData jp d s) = jv s"
  by (simp add: updUserData_def Let_def case_prod_unfold)

lemma jv_setHostFull [simp]: "jv (setHostFull h s) = jv s"
  by (simp add: setHostFull_def Let_def jv_foldl)

lemma jv_updHostDataLoop [simp]: "jv (updHostDataLoop jp d hs s) = jv s"
  by (induction hs arbitrary: s) (simp_all add: Let_def)

lemma jv_updQaccount [simp]: "jv (updQaccount jp d s) = jv s"
  by (simp add: updQaccount_def Let_def jv_foldl)

lemma jv_acct [simp]:
  "jv (acct_QUH jp d b k l m n p s) = jv s" "jv (acct_QHU jp d b k l m n p s) = jv s" "jv (acct_QU jp d s) = jv s"
  by (simp_all add: acct_QUH_def acct_QHU_def acct_QU_def updHostData_def)

lemma jv_updCounters [simp]: "jv (updCounters jp old et s) = jv s"
  by (simp add: updCounters_def Let_def)

lemma jv_updResCounters [simp]: "jv (updResCounters jp n s) = jv s"
  by (simp add: updResCounters_def Let_def)

lemma jv_lists [simp]:
  "jv (offJobList jp l s) = jv s" "jv (inPendJobList jp l t s) = jv s" "jv (inStartJobList jp s) = jv s"
  by (simp_all add: offJobList_def inPendJobList_def clearRequeueDel_def inStartJobList_def Let_def jv_upd_j)

lemma jv_deallocHostsLoop [simp]: "jv (deallocHostsLoop hs s) = jv s"
  by (induction hs arbitrary: s) simp_all

lemma jv_reserve [simp]: "jv (freeReserveSlots jp s) = jv s" "jv (resetReserve jp n s) = jv s"
proof -
  show f: "jv (freeReserveSlots jp s) = jv s" for s by (simp add: freeReserveSlots_def deallocHosts_def Let_def jv_upd_j)
  show "jv (resetReserve jp n s) = jv s" by (simp add: resetReserve_def Let_def jv_upd_j f)
qed

lemma jv_helpers [simp]:
  "jv (freeReservePreemptResources jp s) = jv s" "jv (updateStopJobPreemptResources jp s) = jv s"
  "jv (accumRunTime jp n et s) = jv s" "jv (setJobPendReason jp r s) = jv s" "jv (jobRequeueTimeUpdate jp t s) = jv s"
  "jv (freeExecParams jp s) = jv s"
  by (simp_all add: freeReservePreemptResources_def deallocReservePreemptResources_def updateStopJobPreemptResources_def
      accumRunTime_def setJobPendReason_def jobRequeueTimeUpdate_def freeExecParams_def cleanCandHosts_def Let_def jv_upd_j)

lemma jv_changeStart [simp]: "jv (changeStart j et s) = jv s"
  by (simp add: changeStart_def Let_def jv_upd_j)

lemma jv_changeOther [simp]: "jv (changeOther j n et s) = jv s"
  by (simp add: changeOther_def Let_def jv_upd_j)

lemma jv_changeJobParams [simp]: "jv (changeJobParams j s) = jv s"
  by (simp add: changeJobParams_def Let_def jv_upd_j split: option.splits)

lemma jv_handleFinishJob [simp]: "jv (handleFinishJob j old s) = jv s"
  by (simp add: handleFinishJob_def Let_def jv_upd_j)

lemma jv_changeFinish [simp]: "jv (changeFinish j old et s) = jv s"
  by (simp add: changeFinish_def Let_def jv_upd_j)

lemma jv_pendAgain [simp]: "jv (pendAgain j r now s) = jv s"
  by (simp add: pendAgain_def Let_def jv_upd_j)

lemma jv_changePend [simp]: "jv (changePend j et s) = jv s"
proof -
  define s1 where "s1 = (if et = LOG_IT
    then call (Call_detachedJobFromFSTree j) (jobRequeueTimeUpdate j (wallClock s) (call (Call_log_newstatus j) s))
    else jobRequeueTimeUpdate j et s)"
  define s2 where "s2 = s1\<lparr>jDataList := (\<lambda>l. remove1 j (jDataList s1 l))\<rparr>"
  define r where "r = newReason (jD s2 j)"
  define s3 where "s3 = (if r = PEND_JOB_PRE_EXEC \<or> r = PEND_QUE_PRE_FAIL \<or> r = PEND_SBD_JOB_REQUEUE
    then upd_j j (\<lambda>j. j\<lparr>startTime := 0\<rparr>) s2 else s2)"
  define s4 where "s4 = pendAgain j r (wallClock s) s3"
  define s5 where "s5 = upd_j j (\<lambda>j. j\<lparr>jStatus := jStatus j AND NOT JOB_STAT_PRE_EXEC\<rparr>) s4"
  have eq: "changePend j et s = setJobPendReason j (newReason (jD s5 j)) s5"
    by (simp only: changePend_def Let_def s1_def s2_def r_def s3_def s4_def s5_def pendAgain_def)
  have "jv s1 = jv s" "jv s2 = jv s1" "jv s3 = jv s2" "jv s4 = jv s3" "jv s5 = jv s4"
    by (simp_all add: s1_def s2_def s3_def s4_def s5_def jv_upd_j)
  then show ?thesis by (simp add: eq)
qed

section \<open>What moves a job in the tree\<close>

definition jv_move :: "addr \<Rightarrow> uint32 \<Rightarrow> uint32 \<Rightarrow> jview \<Rightarrow> jview" where
  "jv_move j a b v = (case updJgrpCountByJStatus (fst (snd v) j) a b (jgD (fst v)) of
     None \<Rightarrow> v | Some t \<Rightarrow> ((fst v)\<lparr>jgD := t\<rparr>, snd v))"

lemma jv_countJgrp: "jv (countJgrp j a b s) = jv_move j a b (jv s)"
  by (simp add: countJgrp_def jv_def jv_move_def cfg_def split: option.splits)

text \<open>Every node of a job has a chain of ancestors that ends, and the counters are right.\<close>

definition groups_ok :: "addr set \<Rightarrow> mbd \<Rightarrow> bool" where
  "groups_ok J s \<longleftrightarrow> counts_ok J (\<lambda>j. jgrpNode (jD s j)) (status s) (jgD (jg s)) \<and>
     nodes_ok J (\<lambda>j. jgrpNode (jD s j)) (jgD (jg s)) \<and> (\<forall>j \<in> J. 0 \<le> jobId (jD s j) \<and> jstate (status s j) \<noteq> 0)"

lemma getIndex_jstate: "jstate a = jstate b \<Longrightarrow> getIndexOfJStatus a = getIndexOfJStatus b"
proof -
  have "MASK_STATUS (w AND NOT JOB_STAT_UNKWN AND NOT JOB_STAT_PDONE AND NOT JOB_STAT_PERR) =
    jstate w AND NOT JOB_STAT_PDONE AND NOT JOB_STAT_PERR" for w
    by (simp add: jstate_def MASK_STATUS_def and.assoc and.commute and.left_commute)
  then show "jstate a = jstate b \<Longrightarrow> getIndexOfJStatus a = getIndexOfJStatus b" by (simp add: getIndexOfJStatus_def)
qed

lemma jstate_nonzero: "jstate a \<noteq> 0 \<Longrightarrow> a \<noteq> JOB_STAT_NULL"
  by (auto simp: jstate_and JOB_STAT_NULL_def)

lemma stat_unit_jstate: "jstate a = jstate b \<Longrightarrow> jstate a \<noteq> 0 \<Longrightarrow> stat_unit a = stat_unit b"
  using getIndex_jstate [of a b] jstate_nonzero [of a] jstate_nonzero [of b] by (auto simp: stat_unit_def fun_eq_iff)

lemma counts_ok_cong: "(\<And>j. j \<in> J \<Longrightarrow> stat_unit (stat j) = stat_unit (stat' j)) \<Longrightarrow> counts_ok J node stat t = counts_ok J node stat' t"
proof -
  assume eq: "\<And>j. j \<in> J \<Longrightarrow> stat_unit (stat j) = stat_unit (stat' j)"
  have "(\<Sum>j\<in>J. if below t node n j then stat_unit (stat j) i else 0) =
    (\<Sum>j\<in>J. if below t node n j then stat_unit (stat' j) i else 0)" for n i
    by (rule sum.cong) (simp_all add: eq)
  then show ?thesis by (simp add: counts_ok_def)
qed

lemma groups_move:
  assumes ok: "groups_ok J s" and j: "j \<in> J" and v: "jv t = jv_move j a b (jv s)" and a: "jstate a = jstate (status s j)"
    and st: "jstate (status t j) = jstate b" "jstate b \<noteq> 0" "\<And>i. i \<noteq> j \<Longrightarrow> jstate (status t i) = jstate (status s i)"
  shows "groups_ok J t"
proof -
  let ?node = "\<lambda>j. jgrpNode (jD s j)" and ?stat = "(status s)(j := a)"
  have nz: "i \<in> J \<Longrightarrow> jstate (status s i) \<noteq> 0" for i using ok by (simp add: groups_ok_def)
  have "counts_ok J ?node ?stat (jgD (jg s))"
    using ok counts_ok_cong [of J "status s" ?stat ?node "jgD (jg s)"] stat_unit_jstate [of a "status s j"] a nz [OF j]
    by (auto simp: groups_ok_def)
  moreover have "nodes_ok J ?node (jgD (jg s))" using ok by (simp add: groups_ok_def)
  ultimately obtain g where g: "updJgrpCountByJStatus (?node j) a b (jgD (jg s)) = Some g"
    "counts_ok J ?node (?stat(j := b)) g" "nodes_ok J ?node g"
    by (rule updJgrpCountByJStatus_counts [of J ?node ?stat "jgD (jg s)" j b]) (use j in simp_all)
  have t: "jgD (jg t) = g" "(\<lambda>i. jgrpNode (jD t i)) = ?node" "\<And>i. jobId (jD t i) = jobId (jD s i)"
    using v g(1) by (auto simp: jv_def jv_move_def fun_eq_iff)
  have "stat_unit (status t i) = stat_unit ((?stat(j := b)) i)" if "i \<in> J" for i
    using stat_unit_jstate [of "status t i" "status s i"] stat_unit_jstate [of "status t j" b] st nz [OF that] by auto
  then have "counts_ok J ?node (status t) g" using g(2) counts_ok_cong [of J "status t" "?stat(j := b)"] by simp
  moreover have "jstate (status t i) \<noteq> 0" if "i \<in> J" for i using st nz [OF that] by (cases "i = j") auto
  ultimately show ?thesis using g(3) t ok by (simp add: groups_ok_def)
qed

lemma groups_same:
  assumes "groups_ok J s" and "jv t = jv s" and "\<And>i. jstate (status t i) = jstate (status s i)"
  shows "groups_ok J t"
proof -
  have t: "jg t = jg s" "(\<lambda>i. jgrpNode (jD t i)) = (\<lambda>i. jgrpNode (jD s i))" "\<And>i. jobId (jD t i) = jobId (jD s i)"
    using assms(2) by (auto simp: jv_def fun_eq_iff)
  have "stat_unit (status t i) = stat_unit (status s i)" if "i \<in> J" for i
    using stat_unit_jstate [of "status t i" "status s i"] assms that by (simp add: groups_ok_def)
  then have "counts_ok J (\<lambda>i. jgrpNode (jD s i)) (status t) (jgD (jg s))"
    using assms(1) counts_ok_cong [of J "status t" "status s"] by (simp add: groups_ok_def)
  then show ?thesis using assms(1,3) t by (simp add: groups_ok_def)
qed

section \<open>Status changes and requeues\<close>

lemma changeBegin_jv:
  assumes "new = MASK_STATUS n"
  shows "\<exists>st. jstate st = jstate (status (begun j new et s) j) \<and>
    jv (changeBegin j new et s) = (if 0 \<le> jobId (jD s j) then jv_move j st new (jv s) else jv s)"
proof -
  define s1 where "s1 = begun j new et s"
  define s2 where "s2 = (if et = LOG_IT \<and> has (status s1 j) JOB_STAT_RSRC_PREEMPT_WAIT \<and>
    (\<not> IS_PEND new \<and> \<not> has new JOB_STAT_SSUSP \<or> has new JOB_STAT_PSUSP \<or> IS_FINISH new)
    then freeReservePreemptResources j s1 else s1)"
  define s3 where "s3 = (if et = LOG_IT \<and> has (status s2 j) JOB_STAT_RUN \<and>
    (\<not> has new JOB_STAT_RUN \<or> IS_FINISH new \<or> IS_SUSP new) then updateStopJobPreemptResources j s2 else s2)"
  define s4 where "s4 = (if 0 \<le> jobId (jD s3 j) then countJgrp j (status s3 j) new s3 else s3)"
  define s5 where "s5 = accumRunTime j new et s4"
  define s6 where "s6 = (if mSchedStage s5 \<noteq> M_STAGE_REPLAY \<and>
    (IS_PEND (status s5 j) \<and> IS_START new \<or> IS_START (status s5 j) \<and> IS_FINISH new) then s5\<lparr>statusChanged := True\<rparr> else s5)"
  define s7 where "s7 = upd_j j (\<lambda>j. j\<lparr>jStatus := SET_STATE (jStatus j) new\<rparr>) s6"
  define s8 where "s8 = (if has (status s7 j) JOB_STAT_PSUSP \<and> has (jb_options2 (bill s7 j)) SUB2_HOLD
    then upd_j j (\<lambda>x. x\<lparr>startTime := 0, endTime := 0\<rparr>) s7 else s7)"
  have eq: "changeBegin j new et s = s8"
    by (simp only: changeBegin_def Let_def begun_def s1_def s2_def s3_def s4_def s5_def s6_def s7_def s8_def)
  have "mild s1 s2" "mild s2 s3"
    unfolding s2_def s3_def using mild_freeReservePreempt mild_updateStop by (simp_all split: if_splits)
  then have "mild s1 s3" by (rule mild_trans)
  then have js: "jstate (status s3 j) = jstate (status s1 j)" by (simp add: mild_def same_lists_def)
  have "jv s1 = jv s" "jv s2 = jv s1" "jv s3 = jv s2" "jv s5 = jv s4" "jv s6 = jv s5" "jv s7 = jv s6" "jv s8 = jv s7"
    by (simp_all add: s1_def begun_def s2_def s3_def s5_def s6_def s7_def s8_def jv_upd_j)
  moreover from this have "jobId (jD s3 j) = jobId (jD s j)" by (simp add: jv_def) metis
  ultimately show ?thesis
    using js unfolding eq s1_def [symmetric] by (intro exI [of _ "status s3 j"]) (simp add: s4_def jv_countJgrp)
qed

lemma jv_change_case [simp]: "jv (change_case j old new et s) = jv s"
  by (simp add: change_case_def)

lemma jv_changeCount: "mSchedStage s \<noteq> M_STAGE_REPLAY \<Longrightarrow> jv (changeCount j old new et s) = jv s"
  by (simp add: changeCount_def)

lemma jStatusChange_groups:
  assumes i: "inv J s" and l: "lists_ok J s" and j: "j \<in> J" and stage: "mSchedStage s \<noteq> M_STAGE_REPLAY"
    and ch: "change_ok s j n et" and g: "groups_ok J s"
  shows "groups_ok J (jStatusChange j n et s)"
proof (cases "jstate n = jstate (status s j)")
  case True
  then show ?thesis using g by (simp add: jStatusChange_def)
next
  case False
  define new where "new = MASK_STATUS n"
  define s1 where "s1 = begun j new et s"
  define s3 where "s3 = change_case j (status s j) new et (changeBegin j new et s)"
  define s4 where "s4 = changeCount j (status s j) new et s3"
  note b = begun_step [OF i j ch, folded new_def, folded s1_def]
  note c = change_status [OF i l j ch, folded new_def, folded s1_def s3_def]
  have js1: "jstate (status s1 k) = jstate (status s k)" for k using b(2) by (simp add: same_lists_def)
  have st: "stat_ok new" using ch by (simp add: change_ok_def accounted_def new_def)
  then have nz: "jstate new \<noteq> 0" by (cases rule: stat_ok_cases) simp_all
  have st3: "mSchedStage s3 \<noteq> M_STAGE_REPLAY"
    using stage b(2) calm_views(12) [OF c(1)] by (simp add: same_lists_def set_stat_def)
  obtain st where st: "jstate st = jstate (status s j)" "jv (changeBegin j new et s) = jv_move j st new (jv s)"
    using changeBegin_jv [OF new_def, of j et s] g j js1 by (auto simp: groups_ok_def s1_def)
  have "jv (jStatusChange j n et s) = jv s4"
    unfolding jStatusChange_unfold [OF False] Let_def new_def [symmetric] s3_def [symmetric] s4_def [symmetric] by simp
  then have v: "jv (jStatusChange j n et s) = jv_move j st new (jv s)"
    using st(2) jv_changeCount [OF st3] by (simp add: s4_def s3_def)
  show ?thesis
  proof (rule groups_move [OF g j v st(1)])
    show "jstate (status (jStatusChange j n et s) j) = jstate new"
      using jStatusChange_step [OF i l j stage ch] by (simp add: new_def stat_simps)
    show "jstate new \<noteq> 0" by (rule nz)
    show "jstate (status (jStatusChange j n et s) k) = jstate (status s k)" if "k \<noteq> j" for k
      using jStatusChange_step [OF i l j stage ch] that by blast
  qed
qed

end
