(* ===== verification/Job_Life.thy ===== *)
theory Job_Life
  imports Group_Books
begin

unbundle bit_operations_syntax

text \<open>
  Requeueing finished jobs, and histories of jobs: every state that mbatchd
  reaches by accounted changes and requeues has balanced counters and every job
  on its list.
\<close>

section \<open>Requeueing\<close>

definition finished :: "uint32 \<Rightarrow> bool" where
  "finished st \<longleftrightarrow> IS_FINISH st \<and> \<not> IS_PEND st \<and> \<not> IS_START st"

lemma calm_drop_hosts: "calm s t \<Longrightarrow> calm (drop_hosts j s) (drop_hosts j t)"
  by (simp add: calm_def drop_hosts_def same_cnts_def proj_defs core_def)

lemma requeue_books:
  assumes i: "inv J s" and j: "j \<in> J" and fin: "finished (status s j)"
    and c: "calm (drop_hosts j (set_stat j st s)) t" and p: "IS_PEND st" "\<not> has st JOB_STAT_RESERVE"
    and n: "n = req_of t j"
  shows "inv J (acct_QU j (Cnts n n 0 0 0 0) t)" and "frame t (acct_QU j (Cnts n n 0 0 0 0) t)"
proof -
  define s1 where "s1 = drop_hosts j (set_stat j st s)"
  have z: "jcn s j = 0" "scn s j = 0" using fin by (simp_all add: finished_def jcn_def scn_def job_cnts_def slot_cnts_def stat_preds)
  have ok1: "jobs_ok J s1" using i drop_hosts_jobs_ok by (simp add: s1_def inv_def set_stat_views)
  then have ok: "jobs_ok J t" using calm_jobs_ok [OF c] by (simp add: s1_def)
  have fin': "finite J" using ok by (simp add: jobs_ok_def)
  have jt: "jcn t = (jcn s)(j := Cnts n n 0 0 0 0)" "scn t = (scn s)(j := 0)"
  proof -
    have "jcn s1 = (jcn s)(j := job_cnts st 0 (req_of s j))" "scn s1 = (scn s)(j := slot_cnts st)" "req_of s1 j = req_of s j"
      by (auto simp: s1_def drop_hosts_def set_stat_def jcn_def scn_def fun_eq_iff)
    then show "jcn t = (jcn s)(j := Cnts n n 0 0 0 0)" "scn t = (scn s)(j := 0)"
      using calm_views(1,2,11) [OF c] p n by (simp_all add: s1_def [symmetric] job_cnts_def slot_cnts_def)
  qed
  have b1: "books_with J (jcn s) (scn s) s1"
  proof -
    have v: "qcn s1 = qcn s" "ucn s1 = ucn s" "hcn s1 = hcn s" "job_users s1 = job_users s"
      "\<And>i. qPtr (jD s1 i) = qPtr (jD s i)" "\<And>i. i \<noteq> j \<Longrightarrow> local_hosts s1 i = local_hosts s i"
      by (auto simp: s1_def drop_hosts_def set_stat_def proj_defs job_users_def charged_users_def local_hosts_def)
    have "total J (local_hosts s1) (scn s) = total J (local_hosts s) (scn s)" using z v(6) by (intro total_cong) metis
    then show ?thesis using i v by (simp add: inv_def books_def books_with_def)
  qed
  then have bt: "books_with J ((jcn t)(j := 0)) ((scn t)(j := 0)) t"
    using calm_books_with [OF c] z by (simp add: s1_def [symmetric] jt fun_upd_idem)
  have nn: "\<forall>i \<in> J. 0 \<le> jcn t i \<and> 0 \<le> scn t i" by (rule jobs_nonneg [OF ok])
  have r: "user_ready t (uPtr (jD t j))" using ok j by (simp add: jobs_ok_def job_ok_def)
  have h: "0 \<le> hcn t x" for x using books_nonneg(3) [OF bt] nn by simp
  have ch: "charges j (jcn t j - 0) (scn t j - 0) t (acct_QU j (Cnts n n 0 0 0 0) t)"
    using charges_QU [OF r h, of "Cnts n n 0 0 0 0"] by (simp add: jt)
  have "books_with J ((jcn t)(j := jcn t j)) ((scn t)(j := scn t j)) (acct_QU j (Cnts n n 0 0 0 0) t)"
    by (rule charges_step [OF ch]) (use bt fin' j nn in simp_all)
  moreover show f: "frame t (acct_QU j (Cnts n n 0 0 0 0) t)" using charges_frame [OF ch] .
  ultimately show "inv J (acct_QU j (Cnts n n 0 0 0 0) t)"
    using ok frame_views(1,2) [OF f] jobs_ok_frame [OF f] by (simp add: inv_def books_def)
qed

lemma requeuePrep_step:
  assumes "newSub (jD s j) = None"
  shows "mild s (requeuePrep j s)"
proof -
  define s1 where "s1 = upd_j j (\<lambda>j. j\<lparr>jFlags := jFlags j AND NOT JFLAG_REQUEUE\<rparr>) s"
  define s2 where "s2 = (if dptRoot (shD s1 (shared (jD s1 j))) \<noteq> NULL then call (Call_resetDepCond j) s1 else s1)"
  define s3 where "s3 = upd_j j (requeueFields (has (jb_options (bill s2 j)) SUB_RERUNNABLE)) s2"
  have n: "newSub (jD s1 j) = None" using assms by (simp add: s1_def)
  have eq: "requeuePrep j s = countJgrp j (status s3 j) JOB_STAT_PEND s3"
    by (simp only: requeuePrep_def Let_def s1_def [symmetric] n s2_def [symmetric] s3_def [symmetric] simp_thms if_False)
  have "mild s s1" "mild s2 s3" unfolding s1_def s3_def by (rule mild_upd_j, simp add: core_def requeueFields_def)+
  moreover have "mild s1 s2" unfolding s2_def by simp
  moreover have "mild s3 (requeuePrep j s)" unfolding eq by simp
  ultimately show ?thesis using mild_trans by meson
qed

definition requeue_stat :: "addr \<Rightarrow> int \<Rightarrow> mbd \<Rightarrow> uint32" where
  "requeue_stat jp rqTime s = status (requeuePend jp rqTime s) jp"

lemma requeuePend_step:
  assumes "distinct_lists s"
  shows "calm (set_stat j (requeue_stat j t s) s) (requeuePend j t s)"
    and "requeue_stat j t s \<in> {JOB_STAT_PEND, JOB_STAT_PSUSP}" and "moved j PJL s (requeuePend j t s)"
proof -
  define s1 where "s1 = upd_j j (\<lambda>x. x\<lparr>jStatus := JOB_STAT_PEND, cpuTime := 0, jobPriority := initJobPriority s j\<rparr>) s"
  define s2 where "s2 = jobRequeueTimeUpdate j t (inPendJobList j PJL t (offJobList j FJL s1))"
  define s3 where "s3 = countJgrp j JOB_STAT_PEND JOB_STAT_PSUSP (setJobPendReason j PEND_USER_STOP (set_stat j JOB_STAT_PSUSP s2))"
  define s4 where "s4 = upd_j j (\<lambda>j. j\<lparr>pendEvent := (pendEvent j)\<lparr>pe_sig1Flags := 0\<rparr>\<rparr>) s3"
  have eq: "requeuePend j t s = (if pe_sig1Flags (pendEvent (jD s2 j)) = JOB_STAT_PSUSP then s4
      else setJobPendReason j PEND_JOB_REQUEUED s2)"
    by (simp add: requeuePend_def Let_def s1_def [symmetric] s2_def [symmetric] s3_def s4_def set_stat_def)
  have "calm (set_stat j JOB_STAT_PEND s) s1"
    by (simp add: s1_def calm_def same_cnts_def proj_defs core_def set_stat_def)
  moreover have "calm s1 s2"
    unfolding s2_def using calm_offJobList calm_inPendJobList calm_jobRequeueTimeUpdate calm_trans by meson
  ultimately have c2: "calm (set_stat j JOB_STAT_PEND s) s2" by (rule calm_trans)
  have c3: "calm (set_stat j JOB_STAT_PSUSP s) (set_stat j JOB_STAT_PSUSP s2)"
  proof -
    have "set_stat j JOB_STAT_PSUSP (set_stat j JOB_STAT_PEND s) = set_stat j JOB_STAT_PSUSP s"
      by (simp add: set_stat_def upd_j_def)
    then show ?thesis using calm_set_stat [OF c2 refl refl] by metis
  qed
  have "calm (set_stat j JOB_STAT_PSUSP s2) s3"
    unfolding s3_def using calm_trans [OF calm_setJobPendReason calm_countJgrp] .
  moreover have "calm s3 s4" unfolding s4_def by (rule calm_upd_j) (simp add: core_def)
  ultimately have c4: "calm (set_stat j JOB_STAT_PSUSP s) s4" using c3 calm_trans by meson
  have st: "status s4 j = JOB_STAT_PSUSP" "status (setJobPendReason j PEND_JOB_REQUEUED s2) j = JOB_STAT_PEND"
    by (simp_all add: s4_def s3_def setJobPendReason_def set_stat_def s2_def s1_def jobRequeueTimeUpdate_def offJobList_def Let_def)
  show "requeue_stat j t s \<in> {JOB_STAT_PEND, JOB_STAT_PSUSP}" using st by (simp add: requeue_stat_def eq)
  show "calm (set_stat j (requeue_stat j t s) s) (requeuePend j t s)"
    using st c4 calm_trans [OF c2 calm_setJobPendReason] by (simp add: requeue_stat_def eq)
  obtain p where "jDataList (inPendJobList j PJL t (offJobList j FJL s1)) =
      (jDataList (offJobList j FJL s1))(PJL := insBefore j p (jDataList (offJobList j FJL s1) PJL))"
    by (rule inPendJobList_lists)
  then have "jDataList (requeuePend j t s) = (\<lambda>l. remove1 j (jDataList s l))(PJL := insBefore j p (remove1 j (jDataList s PJL)))"
    by (simp add: eq s4_def s3_def setJobPendReason_def set_stat_def s2_def jobRequeueTimeUpdate_def s1_def)
  then show "moved j PJL s (requeuePend j t s)" by (intro moved_off_in [OF assms]) simp_all
qed

lemma requeue_others:
  assumes "newSub (jD s j) = None" and "k \<noteq> j"
  shows "jD (requeuePend j t (requeuePrep j s)) k = jD s k"
proof -
  have "jD (requeuePend j t u) k = jD u k" for u
    using assms(2) by (simp add: requeuePend_def Let_def setJobPendReason_def jobRequeueTimeUpdate_def inPendJobList_def
        clearRequeueDel_def offJobList_def)
  then show ?thesis using assms by (simp add: requeuePrep_def Let_def)
qed

lemma requeuePend_zombies: "set (jDataList (requeuePend j t s) ZJL) \<subseteq> set (jDataList s ZJL)"
  using set_remove1_subset [of j] by (simp add: requeuePend_def Let_def setJobPendReason_def jobRequeueTimeUpdate_def inPendJobList_def
      clearRequeueDel_def offJobList_def)

lemma handleRequeueJob_step:
  assumes i: "inv J s" and l: "lists_ok J s" and j: "j \<in> J" and fin: "finished (status s j)"
    and sub: "newSub (jD s j) = None" and stage: "mSchedStage s \<noteq> M_STAGE_REPLAY"
  shows "inv J (handleRequeueJob j t s) \<and> lists_ok J (handleRequeueJob j t s) \<and>
    status (handleRequeueJob j t s) j \<in> {JOB_STAT_PEND, JOB_STAT_PSUSP} \<and>
    mSchedStage (handleRequeueJob j t s) = mSchedStage s \<and>
    (\<forall>k. status (handleRequeueJob j t s) k = status (requeuePend j t (requeuePrep j s)) k) \<and>
    (\<forall>k. k \<noteq> j \<longrightarrow> jD (handleRequeueJob j t s) k = jD s k) \<and>
    set (jDataList (handleRequeueJob j t s) ZJL) \<subseteq> set (jDataList s ZJL) \<and>
    (\<forall>k l. k \<noteq> j \<longrightarrow> (k \<in> set (jDataList (handleRequeueJob j t s) l) \<longleftrightarrow> k \<in> set (jDataList s l)))"
proof -
  define s1 where "s1 = requeuePrep j s"
  define s2 where "s2 = requeuePend j t s1"
  define s3 where "s3 = freeExecParams j s2"
  define n where "n = req_of s3 j"
  define s4 where "s4 = acct_QU j (Cnts n n 0 0 0 0) s3"
  let ?st = "requeue_stat j t s1"
  have m1: "mild s s1" unfolding s1_def by (rule requeuePrep_step [OF sub])
  have d1: "distinct_lists s1" using l m1 by (simp add: mild_def same_lists_def lists_ok_def distinct_lists_def)
  note p2 = requeuePend_step [OF d1, of j t, folded s2_def]
  have pend: "IS_PEND ?st" "\<not> has ?st JOB_STAT_RESERVE" "homes ?st = {PJL, MJL}"
    using p2(2) by (auto simp: IS_PEND_def IS_START_def IS_FINISH_def homes_def has_def stat_consts stat_flags)
  have "calm s s1" using m1 by (simp add: mild_def)
  then have c2: "calm (set_stat j ?st s) s2" using calm_trans [OF calm_set_stat [OF _ refl refl] p2(1)] by blast
  have "calm (drop_hosts j s2) s3"
    unfolding s3_def freeExecParams_def drop_hosts_def by (rule calm_cleanCandHosts)
  with calm_drop_hosts [OF c2] have c3: "calm (drop_hosts j (set_stat j ?st s)) s3" by (rule calm_trans)
  have i4: "inv J s4" and f4: "frame s3 s4"
    using requeue_books [OF i j fin c3 pend(1,2) n_def] by (simp_all add: s4_def)
  have st3: "\<And>k. status s3 k = status s2 k" "jDataList s3 = jDataList s2"
    by (auto simp: s3_def freeExecParams_def cleanCandHosts_def)
  have st2: "status s2 j = ?st" by (simp add: requeue_stat_def s2_def)
  have l2: "lists_ok J s2"
  proof (rule lists_ok_moved [OF l])
    show "moved j PJL s s2" using p2(3) m1 moved_cong [of s1 s s2 s2] by (simp add: mild_def same_lists_def)
    show "PJL \<in> homes (status s2 j)" using pend(3) by (simp add: st2)
    show "jstate (status s2 k) = jstate (status s k)" if "k \<noteq> j" for k
      using calm_views(13) [OF c2, of k] that by (simp add: set_stat_def)
  qed
  then have l4: "lists_ok J s4"
    using lists_ok_frame [OF f4] st3 by (simp add: lists_ok_def distinct_lists_def on_list_def)
  have "job_ok s3 j" using i4 j frame_views(6) [OF f4] by (simp add: inv_def jobs_ok_def)
  then have u: "resolveUser j s3 = s3" by (simp add: resolveUser_def job_ok_def user_ready_def)
  have stage3: "mSchedStage s3 = mSchedStage s"
    using calm_views(12) [OF c3] by (simp add: drop_hosts_def set_stat_def)
  then have "mSchedStage s3 \<noteq> M_STAGE_REPLAY" using stage by simp
  then have eq: "handleRequeueJob j t s = (if has (jFlags (jD s4 j)) JFLAG_HAS_BEEN_REQUEUED
      then s4\<lparr>numRemoveJobs := numRemoveJobs s4 + 1\<rparr>
      else upd_j j (\<lambda>x. x\<lparr>jFlags := jFlags x OR JFLAG_HAS_BEEN_REQUEUED\<rparr>) s4)"
    by (simp only: handleRequeueJob_def Let_def s1_def [symmetric] s2_def [symmetric] s3_def [symmetric] u
        n_def [symmetric] s4_def [symmetric] simp_thms if_True)
  have "calm s4 (handleRequeueJob j t s)" unfolding eq by (auto intro!: calm_upd_j simp: core_def)
  moreover have "jDataList (handleRequeueJob j t s) = jDataList s4"
    "\<And>k. status (handleRequeueJob j t s) k = status s4 k" unfolding eq by simp_all
  moreover have "status s4 j = ?st" "mSchedStage s4 = mSchedStage s" using f4 st3 st2 stage3 by (simp_all add: frame_def)
  moreover have "mSchedStage (handleRequeueJob j t s) = mSchedStage s4" unfolding eq by simp
  moreover have "\<And>k. status s4 k = status (requeuePend j t (requeuePrep j s)) k"
    using f4 st3 by (simp add: frame_def s1_def s2_def)
  moreover have "jD (handleRequeueJob j t s) k = jD s k" if "k \<noteq> j" for k
  proof -
    have "jD (handleRequeueJob j t s) k = jD s4 k" using that by (simp add: eq)
    also have "\<dots> = jD s2 k" using f4 that by (simp add: frame_def s3_def freeExecParams_def cleanCandHosts_def)
    also have "\<dots> = jD s k" using requeue_others [OF sub that] by (simp add: s2_def s1_def)
    finally show ?thesis .
  qed
  moreover have "set (jDataList s4 ZJL) \<subseteq> set (jDataList s ZJL)"
    using f4 st3 m1 requeuePend_zombies [of j t s1] by (simp add: frame_def mild_def same_lists_def s2_def)
  moreover have "\<forall>k l. k \<noteq> j \<longrightarrow> (k \<in> set (jDataList s4 l) \<longleftrightarrow> k \<in> set (jDataList s l))"
    using f4 st3 m1 p2(3) by (simp add: frame_def mild_def same_lists_def moved_def)
  ultimately show ?thesis
    using i4 l4 p2(2) by (simp add: calm_inv lists_ok_def distinct_lists_def on_list_def)
qed

text \<open>The two moves of a requeued job in the tree.\<close>

lemma requeuePrep_jv: "newSub (jD s j) = None \<Longrightarrow> jv (requeuePrep j s) = jv_move j (status s j) JOB_STAT_PEND (jv s)"
  by (simp add: requeuePrep_def Let_def jv_countJgrp jv_upd_j requeueFields_def)

lemma requeuePend_jv:
  "jv (requeuePend j t s) =
    (if requeue_stat j t s = JOB_STAT_PSUSP then jv_move j JOB_STAT_PEND JOB_STAT_PSUSP (jv s) else jv s)"
proof -
  define s1 where "s1 = upd_j j (\<lambda>x. x\<lparr>jStatus := JOB_STAT_PEND, cpuTime := 0, jobPriority := initJobPriority s j\<rparr>) s"
  define s2 where "s2 = jobRequeueTimeUpdate j t (inPendJobList j PJL t (offJobList j FJL s1))"
  have "jv s1 = jv s" "jv s2 = jv s1" by (simp_all add: s1_def s2_def jv_upd_j)
  moreover have "status s2 j = JOB_STAT_PEND"
    by (simp add: s2_def s1_def jobRequeueTimeUpdate_def offJobList_def Let_def)
  ultimately show ?thesis
    by (simp add: requeue_stat_def requeuePend_def Let_def s1_def [symmetric] s2_def [symmetric])
      (auto simp: jv_upd_j jv_countJgrp setJobPendReason_def)
qed

lemma requeued_jstate: "jstate JOB_STAT_PEND \<noteq> 0" "jstate JOB_STAT_PSUSP \<noteq> 0"
  by (simp_all add: jstate_def MASK_STATUS_def stat_consts)

lemma requeue_groups:
  assumes g: "groups_ok J s" and j: "j \<in> J" and sub: "newSub (jD s j) = None" and d: "distinct_lists (requeuePrep j s)"
  shows "groups_ok J (requeuePend j t (requeuePrep j s))"
proof -
  define s1 where "s1 = requeuePrep j s"
  define s2 where "s2 = set_stat j JOB_STAT_PEND s1"
  note p = requeuePend_step [OF d, of j t, folded s1_def]
  have m: "mild s s1" unfolding s1_def by (rule requeuePrep_step [OF sub])
  have v2: "jv s2 = jv s1" by (simp add: s2_def set_stat_def jv_upd_j)
  have g2: "groups_ok J s2"
  proof (rule groups_move [OF g j _ refl])
    show "jv s2 = jv_move j (status s j) JOB_STAT_PEND (jv s)" unfolding v2 s1_def by (rule requeuePrep_jv [OF sub])
    show "jstate (status s2 j) = jstate JOB_STAT_PEND" by (simp add: s2_def set_stat_def)
    show "jstate (status s2 i) = jstate (status s i)" if "i \<noteq> j" for i
      using m that by (simp add: s2_def set_stat_def mild_def same_lists_def)
  qed (rule requeued_jstate)
  have st: "status (requeuePend j t s1) j = requeue_stat j t s1" by (simp add: requeue_stat_def)
  have others: "jstate (status (requeuePend j t s1) i) = jstate (status s2 i)" if "i \<noteq> j" for i
    using calm_views(13) [OF p(1), of i] that by (simp add: s2_def set_stat_def)
  show ?thesis
  proof (cases "requeue_stat j t s1 = JOB_STAT_PSUSP")
    case True
    show ?thesis unfolding s1_def [symmetric]
    proof (rule groups_move [OF g2 j])
      show "jv (requeuePend j t s1) = jv_move j JOB_STAT_PEND JOB_STAT_PSUSP (jv s2)"
        using requeuePend_jv [of j t s1] True v2 by simp
      show "jstate JOB_STAT_PEND = jstate (status s2 j)" by (simp add: s2_def set_stat_def)
    qed (use True st others requeued_jstate in simp_all)
  next
    case False
    then have st': "status (requeuePend j t s1) j = JOB_STAT_PEND" using p(2) st by auto
    show ?thesis unfolding s1_def [symmetric]
    proof (rule groups_same [OF g2])
      show "jv (requeuePend j t s1) = jv s2" using requeuePend_jv [of j t s1] False v2 by simp
      show "jstate (status (requeuePend j t s1) i) = jstate (status s2 i)" for i
        using others st' by (cases "i = j") (simp_all add: s2_def set_stat_def)
    qed
  qed
qed

lemma handleRequeueJob_groups:
  assumes i: "inv J s" and l: "lists_ok J s" and j: "j \<in> J" and fin: "finished (status s j)"
    and sub: "newSub (jD s j) = None" and stage: "mSchedStage s \<noteq> M_STAGE_REPLAY" and g: "groups_ok J s"
  shows "groups_ok J (handleRequeueJob j t s)"
proof -
  define s2 where "s2 = requeuePend j t (requeuePrep j s)"
  have m1: "mild s (requeuePrep j s)" by (rule requeuePrep_step [OF sub])
  have d: "distinct_lists (requeuePrep j s)" using l m1 by (simp add: mild_def same_lists_def lists_ok_def distinct_lists_def)
  have g2: "groups_ok J s2" unfolding s2_def by (rule requeue_groups [OF g j sub d])
  have "jv (handleRequeueJob j t s) = jv s2"
    by (simp add: handleRequeueJob_def Let_def s2_def jv_upd_j)
  moreover have "status (handleRequeueJob j t s) k = status s2 k" for k
    using handleRequeueJob_step [OF i l j fin sub stage] by (simp add: s2_def)
  ultimately show ?thesis using groups_same [OF g2] by simp
qed

section \<open>Histories\<close>

text \<open>
  What happens to the jobs \<open>J\<close> once the event log has been replayed: the status
  changes that the counters account for, and requeues of finished jobs that no
  modification waits for.
\<close>

inductive life :: "addr set \<Rightarrow> mbd \<Rightarrow> mbd \<Rightarrow> bool" for J s where
  life_start: "life J s s"
| life_change: "life J s t \<Longrightarrow> j \<in> J \<Longrightarrow> change_ok t j n et \<Longrightarrow> life J s (jStatusChange j n et t)"
| life_requeue: "life J s t \<Longrightarrow> j \<in> J \<Longrightarrow> finished (status t j) \<Longrightarrow> newSub (jD t j) = None \<Longrightarrow>
    life J s (handleRequeueJob j rt t)"

lemma life_inv:
  assumes "life J s t" and "inv J s" and "lists_ok J s" and "groups_ok J s" and "mSchedStage s \<noteq> M_STAGE_REPLAY"
  shows "inv J t \<and> lists_ok J t \<and> groups_ok J t \<and> mSchedStage t = mSchedStage s"
  using assms
proof induction
  case (life_change t j n et)
  then show ?case using jStatusChange_step [of J t j n et] jStatusChange_groups [of J t j n et] by simp
next
  case (life_requeue t j rt)
  then show ?case using handleRequeueJob_step [of J t j rt] handleRequeueJob_groups [of J t j rt] by simp
qed simp

section \<open>Properties\<close>

text \<open>
  C16. Changing a job's status keeps mbatchd's books and lists, outside the replay
  of the event log and under three conditions on the change.  It is accounted:
  between pending states; from pending to running or suspended, or from held
  pending to running; between running and suspended states or back to pending;
  from running to waiting; or to a finished state (the others are not charged by
  \<open>updCounters\<close>).  If the job holds reserved slots, the change is one for which
  \<open>resetReserve\<close> gives them up, and is not one from the log.  And the job is not
  finishing with a modification for one run waiting (which unbalances the books,
  theory \<open>Job_Modify\<close>).  Then after \<open>jStatusChange\<close> the counters of all queues,
  users, groups and hosts are still the sums over the jobs, every job is on
  exactly the list of its state, and the job has the state asked for.  This
  covers the reservation that is given up on the way and the hosts that are
  freed when a started job becomes pending.
\<close>

theorem jStatusChange_keeps:
  assumes "jobs_ok J s" and "books J s" and "lists_ok J s" and "j \<in> J" and "mSchedStage s \<noteq> M_STAGE_REPLAY"
    and "accounted (jStatus (jD s j) AND NOT JOB_STAT_RESERVE) (MASK_STATUS newStatus)"
    and "has (jStatus (jD s j)) JOB_STAT_RESERVE \<longrightarrow>
      eventTime = LOG_IT \<and> resets (jStatus (jD s j)) (MASK_STATUS newStatus)"
    and "\<not> (IS_FINISH newStatus \<and> has (jb_options (bill s j)) SUB_MODIFY_ONCE \<and> newSub (jD s j) \<noteq> None)"
  shows "let s' = jStatusChange j newStatus eventTime s in
    books J s' \<and> lists_ok J s' \<and> jstate (jStatus (jD s' j)) = jstate newStatus"
proof -
  have "change_ok s j newStatus eventTime" using assms(6-8) by (simp add: change_ok_def modifies_once_def)
  then show ?thesis
    using jStatusChange_step [of J s j newStatus eventTime] assms(1-5) by (simp add: inv_def Let_def)
qed

text \<open>
  The cluster of one job, with the job on the list of its state and its node
  (21) below the root (20) of the group tree.
\<close>

definition jgrp3 :: "uint32 \<Rightarrow> jgrp" where
  "jgrp3 st = \<lparr>jgD = (\<lambda>a. if a = 20 then jgNode1\<lparr>g_child := 21, g_counts := stat_unit st\<rparr>
      else jgNode1\<lparr>g_parent := 20, g_nodeType := JGRP_NODE_JOB, g_job := 6\<rparr>), groupRoot = 20, depEntry = 20\<rparr>"

definition mbd3 :: "uint32 \<Rightarrow> mbd" where
  "mbd3 st = (mbd1 st)\<lparr>jD := (\<lambda>_. (jData1 st)\<lparr>jgrpNode := 21\<rparr>), jg := jgrp3 st,
     jDataList := (\<lambda>l. if l = (if IS_START st then SJL else if IS_FINISH st then FJL else PJL) then [6] else [])\<rparr>"

lemma mbd3_ok: "jobs_ok {6} (mbd3 st)" "books {6} (mbd3 st)" "mSchedStage (mbd3 st) \<noteq> M_STAGE_REPLAY"
proof -
  have "calm (mbd1 st) (mbd3 st)"
    by (simp add: mbd3_def calm_def same_cnts_def proj_defs core_def) (simp add: mbd1_def jData1_def)
  then show "jobs_ok {6} (mbd3 st)" "books {6} (mbd3 st)" using mbd1_ok mbd1_books calm_jobs_ok calm_books by blast+
  show "mSchedStage (mbd3 st) \<noteq> M_STAGE_REPLAY" by (simp add: mbd3_def mbd1_def M_STAGE_REPLAY_def)
qed

lemma mbd3_groups:
  assumes "jstate st \<noteq> 0"
  shows "groups_ok {6} (mbd3 st)"
proof -
  let ?t = "jgD (jg (mbd3 st))" and ?node = "\<lambda>j. jgrpNode (jD (mbd3 st) j)"
  have c: "chain ?t (?node 6) [21, 20]" by (simp add: mbd3_def jgrp3_def jgNode1_def jData1_def chain_simps)
  have b: "below ?t ?node n 6 \<longleftrightarrow> n = 21 \<or> n = 20" for n
    using below_chain [of ?t ?node 6 "[21, 20]" n] c by simp
  have "counted (?t n) \<longleftrightarrow> n = 20" for n
    by (simp add: mbd3_def jgrp3_def jgNode1_def counted_def JGRP_NODE_JOB_def JGRP_NODE_GROUP_def JGRP_NODE_ARRAY_def)
  then have "counts_ok {6} ?node (status (mbd3 st)) ?t"
    unfolding counts_ok_def using b by (simp add: mbd3_def jgrp3_def jData1_def)
  moreover have "nodes_ok {6} ?node ?t" using c by (auto simp: nodes_ok_def)
  ultimately show ?thesis using assms by (simp add: groups_ok_def) (simp add: mbd3_def jData1_def)
qed

lemma mbd3_lists: "lists_ok {6} (mbd3 st)"
  by (auto simp: lists_ok_def distinct_lists_def on_list_def homes_def mbd3_def cluster1_defs)

lemma mbd3_change:
  assumes "accounted (st AND NOT JOB_STAT_RESERVE) (MASK_STATUS new)" and "\<not> has st JOB_STAT_RESERVE"
  shows "change_ok (mbd3 st) 6 new LOG_IT"
  using assms by (simp add: change_ok_def modifies_once_def mbd3_def cluster1_defs)

lemmas stat_eval = accounted_def stat_ok_def job_states_def jstate_def MASK_STATUS_def has_def stat_consts stat_flags
  IS_PEND_def IS_START_def IS_FINISH_def

theorem jStatusChange_keeps_witness:
  "let s' = jStatusChange 6 JOB_STAT_RUN LOG_IT (mbd3 JOB_STAT_PEND) in
    books {6} s' \<and> lists_ok {6} s' \<and> jstate (jStatus (jD s' 6)) = jstate JOB_STAT_RUN"
proof -
  have "change_ok (mbd3 JOB_STAT_PEND) 6 JOB_STAT_RUN LOG_IT" by (rule mbd3_change) (simp_all add: stat_eval)
  then show ?thesis
    using jStatusChange_keeps [of "{6}" "mbd3 JOB_STAT_PEND" 6 JOB_STAT_RUN LOG_IT] mbd3_ok mbd3_lists
    by (simp add: change_ok_def modifies_once_def)
qed

text \<open>
  C17. Requeueing a finished job for which no modification is waiting
  (\<open>newSub\<close> is null) keeps the books and the lists: the job becomes
  pending (or is held, when a stop was waiting for it), leaves the list of
  finished jobs for the pending list, has no hosts, and its slots are charged to
  its queue and users again.
\<close>

theorem handleRequeueJob_keeps:
  assumes "jobs_ok J s" and "books J s" and "lists_ok J s" and "j \<in> J" and "mSchedStage s \<noteq> M_STAGE_REPLAY"
    and "finished (jStatus (jD s j))" and "newSub (jD s j) = None"
  shows "let s' = handleRequeueJob j rqTime s in
    books J s' \<and> lists_ok J s' \<and> jStatus (jD s' j) \<in> {JOB_STAT_PEND, JOB_STAT_PSUSP}"
  using handleRequeueJob_step [of J s j rqTime] assms unfolding inv_def Let_def by blast

theorem handleRequeueJob_keeps_witness:
  "let s' = handleRequeueJob 6 10 (mbd3 JOB_STAT_EXIT) in
    books {6} s' \<and> lists_ok {6} s' \<and> jStatus (jD s' 6) \<in> {JOB_STAT_PEND, JOB_STAT_PSUSP}"
proof -
  have "finished (jStatus (jD (mbd3 JOB_STAT_EXIT) 6))" "newSub (jD (mbd3 JOB_STAT_EXIT) 6) = None"
    by (simp_all add: mbd3_def cluster1_defs finished_def stat_eval)
  then show ?thesis
    using handleRequeueJob_keeps [of "{6}" "mbd3 JOB_STAT_EXIT" 6 10] mbd3_ok mbd3_lists by simp
qed

text \<open>
  C15. In every history, outside the replay of the event log, of status changes
  that \<open>change_ok\<close> admits (accounted ones; of a job with reserved slots only those
  that give the slots up; no finish of a job with a modification for one run
  waiting) and of requeues of finished jobs without a waiting modification,
  however they follow each other, the counters of queues, users and hosts are the
  sums over the jobs, every job is on the list of its state, and every job group
  and job array counts exactly the jobs below it, by state.
\<close>

theorem life_keeps:
  assumes "life J s t" and "jobs_ok J s" and "books J s" and "lists_ok J s" and "groups_ok J s"
    and "mSchedStage s \<noteq> M_STAGE_REPLAY"
  shows "books J t \<and> lists_ok J t \<and> groups_ok J t"
  using life_inv [of J s t] assms by (simp add: inv_def)

theorem life_keeps_witness:
  "\<exists>t. life {6} (mbd3 JOB_STAT_PEND) t \<and> t \<noteq> mbd3 JOB_STAT_PEND \<and> books {6} t \<and> lists_ok {6} t \<and> groups_ok {6} t"
proof -
  let ?s = "mbd3 JOB_STAT_PEND"
  let ?t = "jStatusChange 6 JOB_STAT_RUN LOG_IT ?s"
  have c: "change_ok ?s 6 JOB_STAT_RUN LOG_IT" by (rule mbd3_change) (simp_all add: stat_eval)
  have l: "life {6} ?s ?t" by (rule life_change [OF life_start _ c]) simp
  have "jstate (jStatus (jD ?t 6)) = jstate JOB_STAT_RUN"
    using jStatusChange_step [of "{6}" ?s 6 JOB_STAT_RUN LOG_IT] c mbd3_ok [of JOB_STAT_PEND] mbd3_lists [of JOB_STAT_PEND]
    by (simp add: inv_def)
  moreover have "jstate (jStatus (jD ?s 6)) \<noteq> jstate JOB_STAT_RUN"
    by (simp add: mbd3_def cluster1_defs jstate_def MASK_STATUS_def stat_consts)
  ultimately have "?t \<noteq> ?s" by metis
  then show ?thesis using l life_keeps [OF l] mbd3_ok [of JOB_STAT_PEND] mbd3_lists [of JOB_STAT_PEND]
    mbd3_groups [OF requeued_jstate(1)] by blast
qed

end
