(* ===== verification/Job_Submit.thy ===== *)
theory Job_Submit
  imports Job_State
begin

unbundle bit_operations_syntax

text \<open>
  How jobs enter and leave mbatchd: job identifiers, submission of jobs and job
  arrays (\<open>handleNewJob\<close>, \<open>putOntoTree\<close>, \<open>handleNewJobArray\<close>), removal of finished
  jobs (\<open>removeJob\<close>, \<open>offArray\<close>, \<open>clean\<close>).  Where the code allocates a record, the
  address that the allocator returns is an argument.
\<close>

section \<open>Constants\<close>

definition SUB_JOB_NAME :: uint32 where "SUB_JOB_NAME = 0x01"
definition SUB2_HOST_NT :: uint32 where "SUB2_HOST_NT = 0x08"
definition SUB2_HOST_UX :: uint32 where "SUB2_HOST_UX = 0x10"
definition AUTH_HOST_NT :: uint32 where "AUTH_HOST_NT = 0x01"
definition AUTH_HOST_UX :: uint32 where "AUTH_HOST_UX = 0x02"
definition PEND_JOB_NEW :: uint32 where "PEND_JOB_NEW = 1"
definition JOB_NEW :: int where "JOB_NEW = 1"
definition JOB_REPLAY :: int where "JOB_REPLAY = 3"
definition MAX_JOB_PRIORITY :: int where "MAX_JOB_PRIORITY = INFINIT_INT"

section \<open>Operations on the tree of this state\<close>

definition insertJgrp :: "addr \<Rightarrow> addr \<Rightarrow> mbd \<Rightarrow> mbd" where
  "insertJgrp parent child s =
     (case treeInsertChild (\<lambda>j. jgrpNode (jD s j)) (status s) parent child (jg s) of
        None \<Rightarrow> s\<lparr>died := True\<rparr> | Some (_, g) \<Rightarrow> s\<lparr>jg := g\<rparr>)"

definition clipJgrp :: "addr \<Rightarrow> mbd \<Rightarrow> mbd" where
  "clipJgrp nd s =
     (case treeClip (\<lambda>j. jgrpNode (jD s j)) (status s) nd (jg s) of
        None \<Rightarrow> s\<lparr>died := True\<rparr> | Some g \<Rightarrow> s\<lparr>jg := g\<rparr>)"

definition countJgrpByOp :: "addr \<Rightarrow> int \<Rightarrow> mbd \<Rightarrow> mbd" where
  "countJgrpByOp nd factor s =
     (case updJgrpCountByOp nd factor (jgD (jg s)) of
        None \<Rightarrow> s\<lparr>died := True\<rparr> | Some t \<Rightarrow> s\<lparr>jg := (jg s)\<lparr>jgD := t\<rparr>\<rparr>)"

definition upd_node :: "addr \<Rightarrow> (jgTreeNode \<Rightarrow> jgTreeNode) \<Rightarrow> mbd \<Rightarrow> mbd" where
  "upd_node n f s = s\<lparr>jg := (jg s)\<lparr>jgD := upd_g n f (jgD (jg s))\<rparr>\<rparr>"

section \<open>Removal\<close>

definition getJobData :: "int \<Rightarrow> mbd \<Rightarrow> addr" where
  "getJobData jid s = (if jid \<le> 0 then NULL else case jobIdHT s jid of None \<Rightarrow> NULL | Some j \<Rightarrow> j)"

definition getZombieJob :: "int \<Rightarrow> mbd \<Rightarrow> addr option" where
  "getZombieJob jid s = List.find (\<lambda>j. jobId (jD s j) = jid) (rev (jDataList s ZJL))"

lemma find_Some_in: "List.find P xs = Some x \<Longrightarrow> x \<in> set xs \<and> P x"
  by (induction xs) (auto split: if_splits)

text \<open>All zombies of the job leave the list; each round shortens it, so the loop ends.\<close>

function removeZombies :: "int \<Rightarrow> mbd \<Rightarrow> mbd" where
  "removeZombies jid s =
     (case getZombieJob jid s of
        None \<Rightarrow> s
      | Some zp \<Rightarrow>
          removeZombies jid
            (call (Call_freeJData zp)
              ((call (Call_closeSbdConnect4ZombieJob zp) s)\<lparr>jDataList := (jDataList s)(ZJL := remove1 zp (jDataList s ZJL))\<rparr>)))"
  by pat_completeness auto
termination
proof (relation "measure (\<lambda>(_, s). length (jDataList s ZJL))")
  fix jid s zp assume "getZombieJob jid s = Some zp"
  then have "zp \<in> set (jDataList s ZJL)" by (auto simp: getZombieJob_def dest: find_Some_in)
  then have "length (remove1 zp (jDataList s ZJL)) < length (jDataList s ZJL)"
    using length_pos_if_in_set [of zp] by (auto simp: length_remove1)
  then show "((jid, call (Call_freeJData zp) ((call (Call_closeSbdConnect4ZombieJob zp) s)\<lparr>jDataList := (jDataList s)(ZJL := remove1 zp (jDataList s ZJL))\<rparr>)), jid, s)
    \<in> measure (\<lambda>(_, s). length (jDataList s ZJL))" by simp
qed simp

declare removeZombies.simps [simp del]

text \<open>The record after which the job is linked in its array; \<open>None\<close> where the walk does not end.\<close>

partial_function (option) offArrayLoop :: "(addr \<Rightarrow> addr) \<Rightarrow> addr \<Rightarrow> addr \<Rightarrow> addr option" where
  [code]: "offArrayLoop nxt jp ptr = (if nxt ptr \<noteq> NULL \<and> nxt ptr \<noteq> jp then offArrayLoop nxt jp (nxt ptr) else Some ptr)"

definition offArray :: "addr \<Rightarrow> mbd \<Rightarrow> mbd" where
  "offArray jp s =
     (let node = jgrpNode (jD s jp)
      in if node = NULL \<or> g_nodeType (jgD (jg s) node) \<noteq> JGRP_NODE_ARRAY then s
         else case offArrayLoop (\<lambda>j. nextJob (jD s j)) jp (g_jobArray (jgD (jg s) node)) of
                None \<Rightarrow> s\<lparr>died := True\<rparr>
              | Some ptr \<Rightarrow>
                  let s = (if nextJob (jD s ptr) \<noteq> NULL
                           then upd_j ptr (\<lambda>j. j\<lparr>nextJob := nextJob (jD s (nextJob j))\<rparr>) s else s)
                  in countJgrp jp (status s jp) JOB_STAT_NULL s)"

text \<open>What \<open>removeJob\<close> does about the node of the job in the tree.\<close>

definition removeNode :: "addr \<Rightarrow> mbd \<Rightarrow> mbd" where
  "removeNode jp s =
     (let node = jgrpNode (jD s jp)
      in if node = NULL then call (Call_rmLogJobInfo jp) s
         else if g_nodeType (jgD (jg s) node) = JGRP_NODE_ARRAY
         then let s = offArray jp s
              in if g_counts (jgD (jg s) node) JGRP_COUNT_NJOBS \<le> 0
                 then let arr = g_jobArray (jgD (jg s) node);
                          s = (if mSchedStage s \<noteq> M_STAGE_REPLAY then call (Call_log_jobclean arr) s else s);
                          s = s\<lparr>jobIdHT := (jobIdHT s)(jobId (jD s arr) := None)\<rparr>;
                          s = call (Call_freeJData arr) s;
                          s = call (Call_treeFree node) (clipJgrp node s)
                      in call (Call_rmLogJobInfo jp) s
                 else s
         else call (Call_treeFree node) (clipJgrp node (call (Call_rmLogJobInfo jp) s)))"

definition removeJob :: "int \<Rightarrow> mbd \<Rightarrow> mbd" where
  "removeJob jid s =
     (let jp = getJobData jid s
      in if jp = NULL \<or> nodeType (jD s jp) = JGRP_NODE_ARRAY then s
         else let s = removeZombies (jobId (jD s jp)) s;
                  s = s\<lparr>jobIdHT := (jobIdHT s)(jobId (jD s jp) := None)\<rparr>;
                  s = offJobList jp FJL s;
                  s = s\<lparr>numRemoveJobs := numRemoveJobs s + 1\<rparr>;
                  s = (if mSchedStage s \<noteq> M_STAGE_REPLAY then call (Call_log_jobclean jp) s else s);
                  s = removeNode jp s
              in call (Call_freeJData jp) s)"

definition cleanJob :: "int \<Rightarrow> addr \<Rightarrow> mbd \<Rightarrow> mbd" where
  "cleanJob curTime jp s =
     (let j = jD s jp; st = jStatus j
      in if has st JOB_STAT_DONE \<and> \<not> IS_POST_FINISH st then s
         else if has (jFlags j) JFLAG_REQUEUE then
           call (Call_log_jobrequeue jp)
             (upd_j jp (\<lambda>j. j\<lparr>startTime := 0, endTime := 0, pendEvent := (pendEvent j)\<lparr>pe_sig := SIG_NULL\<rparr>\<rparr>)
               (handleRequeueJob jp (wallClock s) s))
         else if getZombieJob (jobId j) s \<noteq> None then s
         else if 0 < nSbdConnections s \<and> List.member (sbdJobs s) jp then s
         else if pe_sigDel (pendEvent j) \<noteq> 0 \<and> runCount j = 0 then removeJob (jobId j) s
         else if clean_period s < curTime - endTime j then removeJob (jobId j) s
         else s)"

text \<open>The next entry is read before a job is handled, so the walk visits the list as it was.\<close>

definition clean :: "int \<Rightarrow> mbd \<Rightarrow> mbd" where
  "clean curTime s = foldl (\<lambda>s jp. cleanJob curTime jp s) s (rev (jDataList s FJL))"

section \<open>Job identifiers\<close>

text \<open>The loop that enters a job into the table; it does not end while an array holds the identifier.\<close>

partial_function (option) addJobIdHT :: "addr \<Rightarrow> mbd \<Rightarrow> mbd option" where
  [code]: "addJobIdHT job s =
     (if jobIdHT s (jobId (jD s job)) = None
      then Some (s\<lparr>jobIdHT := (jobIdHT s)(jobId (jD s job) \<mapsto> job)\<rparr>)
      else if job = getJobData (jobId (jD s job)) s then Some s
      else addJobIdHT job (removeJob (jobId (jD s job)) s))"

definition nextId :: "mbd \<Rightarrow> int \<Rightarrow> int" where
  "nextId s i = (if maxJobId s \<le> i + 1 then 1 else i + 1)"

text \<open>The search for a free identifier: the identifier where it stops and the number of steps.\<close>

function jobIdLoop :: "mbd \<Rightarrow> int \<Rightarrow> int \<Rightarrow> int \<times> int" where
  "jobIdLoop s jid i =
     (if getJobData jid s \<noteq> NULL \<and> i \<le> maxJobId s then jobIdLoop s (nextId s jid) (i + 1) else (jid, i))"
  by pat_completeness auto
termination
  by (relation "measure (\<lambda>(s, _, i). nat (maxJobId s + 1 - i))") auto

declare jobIdLoop.simps [simp del]

definition getNextJobId :: "mbd \<Rightarrow> int \<times> mbd" where
  "getNextJobId s =
     (let jid = (if nextJobId s < maxJobId s then nextJobId s else 1);
          (jid, i) = jobIdLoop s jid 0
      in if maxJobId s \<le> i then (-1, s\<lparr>nextJobId := jid\<rparr>)
         else (jid, s\<lparr>nextJobId := nextId s jid\<rparr>))"

text \<open>The inner loop of the batch allocation: \<open>None\<close> where every identifier is taken.\<close>

function freeIdLoop :: "mbd \<Rightarrow> int \<Rightarrow> int \<Rightarrow> int option" where
  "freeIdLoop s candidateId skipCount =
     (if getJobData candidateId s = NULL then Some candidateId
      else if maxJobId s \<le> skipCount + 1 then None
      else freeIdLoop s (nextId s candidateId) (skipCount + 1))"
  by pat_completeness auto
termination
  by (relation "measure (\<lambda>(s, _, i). nat (maxJobId s - i))") auto

declare freeIdLoop.simps [simp del]

fun batchLoop :: "mbd \<Rightarrow> nat \<Rightarrow> int \<Rightarrow> int list \<Rightarrow> (int list \<times> int) option" where
  "batchLoop s 0 candidateId ids = Some (ids, candidateId)"
| "batchLoop s (Suc n) candidateId ids =
     (case freeIdLoop s candidateId 0 of
        None \<Rightarrow> None
      | Some i \<Rightarrow> batchLoop s n (nextId s i) (ids @ [i]))"

text \<open>The result, on success the identifiers written to the array, and the state.\<close>

definition batchAllocateJobIds :: "int \<Rightarrow> mbd \<Rightarrow> int \<times> int list \<times> mbd" where
  "batchAllocateJobIds n s =
     (if n \<le> 0 \<or> 10000 < n then (-1, [], s)
      else let firstJobId = (if nextJobId s < maxJobId s then nextJobId s else 1)
           in case batchLoop s (nat n) firstJobId [] of
                None \<Rightarrow> (-1, [], s\<lparr>nextJobId := firstJobId\<rparr>)
              | Some (ids, candidateId) \<Rightarrow> (firstJobId, ids, s\<lparr>nextJobId := candidateId\<rparr>))"

section \<open>Submission\<close>

text \<open>
  The arithmetic is that of \<open>unsigned long\<close>, cut to \<open>unsigned int\<close>; a time of 0
  is a division by zero.
\<close>

definition modifyJobPriority :: "addr \<Rightarrow> int \<Rightarrow> mbd \<Rightarrow> mbd" where
  "modifyJobPriority jp subPriority s =
     (if jobPriorityValue s < 0 \<or> jobPriorityTime s < 0
      then upd_j jp (\<lambda>j. j\<lparr>jobPriority := subPriority\<rparr>) s
      else if jobPriorityTime s = 0 then s\<lparr>died := True\<rparr>
      else let timeIntvl = word_of_int (c_div (wallClock s - jb_submitTime (bill s jp)) 60) :: 64 word;
               newVal = ucast (word_of_int subPriority +
                          timeIntvl * word_of_int (jobPriorityValue s) div word_of_int (jobPriorityTime s)) :: 32 word
           in upd_j jp (\<lambda>j. j\<lparr>jobPriority := min (uint newVal) MAX_JOB_PRIORITY\<rparr>) s)"

definition treeNewNode :: "int \<Rightarrow> jgTreeNode" where
  "treeNewNode type =
     \<lparr>g_parent = NULL, g_child = NULL, g_left = NULL, g_right = NULL, g_nodeType = type, g_name = [],
      g_job = NULL, g_counts = (\<lambda>_. 0), g_userId = 0, g_userName = [], g_fromPlatform = 0,
      g_jobArray = NULL, g_maxJLimit = 0\<rparr>"

definition jobNode :: "addr \<Rightarrow> mbd \<Rightarrow> jgTreeNode" where
  "jobNode jp s =
     (let j = jD s jp; b = bill s jp;
          n = (treeNewNode (nodeType j))\<lparr>g_name := (if has (jb_options b) SUB_JOB_NAME then jb_jobName b else jb_command b)\<rparr>
      in if nodeType j = JGRP_NODE_JOB then n\<lparr>g_job := jp\<rparr>
         else n\<lparr>g_jobArray := jp, g_userId := userId j, g_userName := userName j,
                g_fromPlatform := (if has (jb_options2 b) SUB2_HOST_NT then AUTH_HOST_NT
                                   else if has (jb_options2 b) SUB2_HOST_UX then AUTH_HOST_UX else 0)\<rparr>)"

partial_function (option) putElements :: "addr \<Rightarrow> addr \<Rightarrow> mbd \<Rightarrow> mbd option" where
  [code]: "putElements newj jPtr s =
     (if jPtr = NULL then Some s
      else let s = upd_j jPtr (\<lambda>j. j\<lparr>jgrpNode := newj\<rparr>) s;
               s = countJgrp jPtr JOB_STAT_NULL (status s jPtr) s
           in putElements newj (nextJob (jD s jPtr)) s)"

definition putOntoTree :: "addr \<Rightarrow> addr \<Rightarrow> mbd \<Rightarrow> mbd" where
  "putOntoTree newj jp s =
     (let s = upd_node newj (\<lambda>_. jobNode jp s) s;
          s = upd_j jp (\<lambda>j. j\<lparr>jgrpNode := newj\<rparr>) s;
          s = (case putElements newj (nextJob (jD s jp)) s of None \<Rightarrow> s\<lparr>died := True\<rparr> | Some s \<Rightarrow> s);
          s = insertJgrp (groupRoot (jg s)) newj s
      in upd_j jp (\<lambda>j. j\<lparr>runCount := 1, newReason := (if newReason j = 0 then PEND_JOB_NEW else newReason j),
           jFlags := (if dptRoot (shD s (shared j)) = NULL then jFlags j OR JFLAG_READY2 else jFlags j)\<rparr>) s)"

definition enterJobId :: "addr \<Rightarrow> mbd \<Rightarrow> mbd" where
  "enterJobId jp s = (case addJobIdHT jp s of None \<Rightarrow> s\<lparr>died := True\<rparr> | Some s \<Rightarrow> s)"

text \<open>The priority a replayed job gets, and its new place in the list.\<close>

definition replayPriority :: "addr \<Rightarrow> mbd \<Rightarrow> mbd" where
  "replayPriority jp s =
     (if 0 < maxUserPriority s
      then let s = (if jb_userPriority (bill s jp) < 0 then modifyJobPriority jp (maxUserPriority s div 2) s
                    else modifyJobPriority jp (jb_userPriority (bill s jp)) s)
           in inPendJobList jp PJL 0 (offJobList jp PJL s)
      else s)"

text \<open>The parts of \<open>handleNewJob\<close> before and after the job is put onto the tree.\<close>

definition enterNewJob :: "addr \<Rightarrow> mbd \<Rightarrow> mbd" where
  "enterNewJob jp s =
     (let s = enterJobId jp s;
          s = inPendJobList jp PJL 0 s;
          s = upd_j jp (\<lambda>j. j\<lparr>nodeType := JGRP_NODE_JOB, nextJob := NULL\<rparr>) s;
          (u, s) = getUserData (userName (jD s jp)) s
      in upd_j jp (\<lambda>j. j\<lparr>uPtr := u\<rparr>) s)"

definition chargeNewJob :: "addr \<Rightarrow> mbd \<Rightarrow> mbd" where
  "chargeNewJob jp s =
     (let n = jb_maxNumProcessors (bill s jp)
      in if mSchedStage s \<noteq> M_STAGE_REPLAY then acct_QU jp (Cnts n n 0 0 0 0) s else s)"

definition announceNewJob :: "addr \<Rightarrow> int \<Rightarrow> int \<Rightarrow> mbd \<Rightarrow> mbd" where
  "announceNewJob jp job eventTime s =
     (let s = call (Call_mkJobMergedResReqEntry jp) s
      in if job = JOB_NEW \<and> eventTime = LOG_IT
         then call (Call_updAliveUserInFSTree (qPtr (jD s jp)) (userName (jD s jp))) (call (Call_log_newjob jp) s)
         else s)"

definition handleNewJob :: "addr \<Rightarrow> addr \<Rightarrow> int \<Rightarrow> int \<Rightarrow> mbd \<Rightarrow> mbd" where
  "handleNewJob newj jp job eventTime s =
     (let s = enterNewJob jp s;
          s = putOntoTree newj jp s;
          s = upd_j jp (\<lambda>j. j\<lparr>jFlags := jFlags j OR JFLAG_READY2\<rparr>) s;
          s = chargeNewJob jp s;
          s = announceNewJob jp job eventTime s;
          s = (if job = JOB_REPLAY then replayPriority jp s else s)
      in if has (jb_options2 (bill s jp)) SUB2_HOLD
         then jStatusChange jp JOB_STAT_PSUSP (-1) (upd_j jp (\<lambda>j. j\<lparr>newReason := PEND_USER_STOP\<rparr>) s)
         else s)"

definition copyJData :: "addr \<Rightarrow> addr \<Rightarrow> mbd \<Rightarrow> mbd" where
  "copyJData new jp s =
     (let s = upd_j new (\<lambda>_. (jD s jp)\<lparr>nextJob := NULL\<rparr>) s;
          (u, s) = getUserData (userName (jD s new)) s
      in upd_j new (\<lambda>j. j\<lparr>uPtr := u\<rparr>) s)"

text \<open>
  The loop that creates the elements with the given indexes; \<open>alloc\<close> gives the
  addresses of the new records.  The result is the number of elements, the last
  one and the state.
\<close>

fun arrayElements :: "(nat \<Rightarrow> addr) \<Rightarrow> addr \<Rightarrow> bool \<Rightarrow> int list \<Rightarrow> nat \<Rightarrow> addr \<Rightarrow> mbd \<Rightarrow> nat \<times> addr \<times> mbd" where
  "arrayElements alloc jarray userPending [] nJobs jPtr s = (nJobs, jPtr, s)"
| "arrayElements alloc jarray userPending (i # is) nJobs jPtr s =
     (let jid = LSB_JOBID (jobId (jD s jarray)) i
      in if getJobData jid s \<noteq> NULL then arrayElements alloc jarray userPending is nJobs jPtr s
         else let new = alloc nJobs;
                  s = copyJData new jarray s;
                  s = upd_j jPtr (\<lambda>j. j\<lparr>nextJob := new\<rparr>) s;
                  s = upd_j new (\<lambda>j. j\<lparr>nodeType := JGRP_NODE_JOB, nextJob := NULL, jobId := jid\<rparr>) s;
                  s = enterJobId new s;
                  s = inPendJobList new PJL 0 s;
                  s = (if userPending then upd_j new (\<lambda>j. j\<lparr>newReason := PEND_USER_STOP, jStatus := JOB_STAT_PSUSP\<rparr>) s
                       else s)
              in arrayElements alloc jarray userPending is (nJobs + 1) new s)"

text \<open>\<open>modifyJobPriority\<close> for the array and its elements while the log is replayed.\<close>

partial_function (option) elementPriority :: "(mbd \<Rightarrow> addr \<Rightarrow> int) \<Rightarrow> addr \<Rightarrow> mbd \<Rightarrow> mbd option" where
  [code]: "elementPriority p jPtr s =
     (if jPtr = NULL then Some s
      else let s = modifyJobPriority jPtr (p s jPtr) s in elementPriority p (nextJob (jD s jPtr)) s)"

definition arrayPriority :: "addr \<Rightarrow> mbd \<Rightarrow> mbd" where
  "arrayPriority jarray s =
     (if 0 < maxUserPriority s
      then let p = (if jb_userPriority (bill s jarray) < 0 then (\<lambda>_ _. maxUserPriority s div 2)
                    else (\<lambda>s j. jb_userPriority (bill s j)));
               s = modifyJobPriority jarray (p s jarray) s
           in case elementPriority p (nextJob (jD s jarray)) s of None \<Rightarrow> s\<lparr>died := True\<rparr> | Some s \<Rightarrow> s
      else s)"

definition handleNewJobArray :: "addr \<Rightarrow> (nat \<Rightarrow> addr) \<Rightarrow> addr \<Rightarrow> idxList list \<Rightarrow> int \<Rightarrow> mbd \<Rightarrow> mbd" where
  "handleNewJobArray newj alloc jarray idxs maxJLimit s =
     (let s = enterJobId jarray s;
          s = upd_j jarray (\<lambda>j. j\<lparr>nodeType := JGRP_NODE_ARRAY, nextJob := NULL\<rparr>) s;
          s = putOntoTree newj jarray s;
          (u, s) = getUserData (userName (jD s jarray)) s;
          s = upd_j jarray (\<lambda>j. j\<lparr>uPtr := u\<rparr>) s;
          s = call (Call_mkJobMergedResReqEntry jarray) s;
          (nJobs, _, s) = (case listValues idxs of
              None \<Rightarrow> (0, jarray, s\<lparr>died := True\<rparr>)
            | Some is \<Rightarrow> arrayElements alloc jarray (has (jb_options2 (bill s jarray)) SUB2_HOLD) is 0 jarray s);
          s = upd_node (jgrpNode (jD s jarray)) (\<lambda>n. n\<lparr>g_maxJLimit := maxJLimit\<rparr>) s;
          s = (if mSchedStage s \<noteq> M_STAGE_REPLAY
               then call (Call_updAliveUserInFSTree (qPtr (jD s jarray)) (userName (jD s jarray))) (call (Call_log_newjob jarray) s)
               else s);
          n = jb_maxNumProcessors (bill s jarray) * int nJobs;
          s = (if mSchedStage s \<noteq> M_STAGE_REPLAY then acct_QU jarray (Cnts n n 0 0 0 0) s else s);
          s = (if mSchedStage s = M_STAGE_REPLAY then arrayPriority jarray s else s);
          nd = jgrpNode (jD s jarray)
      in if nextJob (jD s jarray) = NULL then s\<lparr>died := True\<rparr>
         else countJgrpByOp nd 1 (upd_node nd (\<lambda>x. x\<lparr>g_counts := (g_counts x)
                (getIndexOfJStatus (status s (nextJob (jD s jarray))) := int nJobs,
                 JGRP_COUNT_NJOBS := int nJobs)\<rparr>) s))"

end
