(* ===== verification/Job_Shelf.thy ===== *)
theory Job_Shelf
  imports Job_Life Job_Submit
begin

unbundle bit_operations_syntax

text \<open>
  How the jobs of mbatchd hang in the job group tree and in the table of job
  identifiers: every job is known under its identifier; every job that is not an
  array element has a node of its own below the root; the elements of an array
  share the node of the array, which exists as long as it has elements.
\<close>

section \<open>What the tree operations keep of the nodes\<close>

definition kind :: "jgTreeNode \<Rightarrow> jgTreeNode" where
  "kind n = n\<lparr>g_parent := NULL, g_child := NULL, g_left := NULL, g_right := NULL, g_counts := (\<lambda>_. 0)\<rparr>"

definition bare :: "jgTreeNode \<Rightarrow> jgTreeNode" where
  "bare n = n\<lparr>g_counts := (\<lambda>_. 0)\<rparr>"

lemma bare_eq: "bare n = bare m \<longleftrightarrow> lk n = lk m \<and> kind n = kind m"
  by (cases n; cases m) (auto simp: bare_def lk_def kind_def)

lemma kind_upd [simp]:
  "kind (n\<lparr>g_parent := a\<rparr>) = kind n" "kind (n\<lparr>g_child := a\<rparr>) = kind n" "kind (n\<lparr>g_left := a\<rparr>) = kind n"
  "kind (n\<lparr>g_right := a\<rparr>) = kind n" "kind (n\<lparr>g_counts := c\<rparr>) = kind n"
  by (simp_all add: kind_def)

lemma kind_upd_g: "(\<And>n. kind (f n) = kind n) \<Longrightarrow> kind (upd_g a f t x) = kind (t x)"
  by (simp add: upd_g_def)

lemma kind_views:
  "kind n = kind m \<Longrightarrow> g_nodeType n = g_nodeType m \<and> g_job n = g_job m \<and> g_jobArray n = g_jobArray m"
  by (cases n; cases m) (auto simp: kind_def)

lemma updJgrpCountByJStatus_bare:
  assumes "updJgrpCountByJStatus g a b t = Some t'"
  shows "bare (t' x) = bare (t x)"
proof (rule updJgrpCountByJStatus.raw_induct [where P = "\<lambda>g a b t t'. bare (t' x) = bare (t x)", OF _ assms])
  fix f g a b t t'
  assume ih: "\<And>g a b t t'. f g a b t = Some t' \<Longrightarrow> bare (t' x) = bare (t x)"
    and step: "(if g = NULL then Some t else f (g_parent (t g)) a b
      (if g_nodeType (t g) = JGRP_NODE_GROUP \<or> g_nodeType (t g) = JGRP_NODE_ARRAY
       then upd_g g (\<lambda>n. n\<lparr>g_counts := moveCount a b (g_counts n)\<rparr>) t else t)) = Some t'"
  show "bare (t' x) = bare (t x)"
    using ih [of "g_parent (t g)" a b _ t'] step by (fastforce simp: upd_g_def bare_def split: if_splits)
qed

lemma countByOpLoop_bare:
  assumes "countByOpLoop n k p t = Some t'"
  shows "bare (t' x) = bare (t x)"
proof (rule countByOpLoop.raw_induct [where P = "\<lambda>n k p t t'. bare (t' x) = bare (t x)", OF _ assms])
  fix f n k p t t'
  assume ih: "\<And>n k p t t'. f n k p t = Some t' \<Longrightarrow> bare (t' x) = bare (t x)"
    and step: "(if p = NULL then Some t else f n k (g_parent (t p))
      (if g_nodeType (t n) = JGRP_NODE_GROUP \<or> g_nodeType (t n) = JGRP_NODE_ARRAY
       then upd_g p (\<lambda>m. m\<lparr>g_counts := (\<lambda>i. if i < NUM_JGRP_COUNTERS
                then g_counts m i + k * g_counts (t n) i else g_counts m i)\<rparr>) t
       else t)) = Some t'"
  show "bare (t' x) = bare (t x)"
    using ih [of n k "g_parent (t p)" _ t'] step by (fastforce simp: upd_g_def bare_def split: if_splits)
qed

lemma setParents_kind:
  assumes "setParents p n t = Some t'"
  shows "kind (t' x) = kind (t x)"
proof (rule setParents.raw_induct [where P = "\<lambda>p n t t'. kind (t' x) = kind (t x)", OF _ assms])
  fix f p n t t'
  assume ih: "\<And>p n t t'. f p n t = Some t' \<Longrightarrow> kind (t' x) = kind (t x)"
    and step: "(let t = upd_g n (\<lambda>m. m\<lparr>g_parent := p\<rparr>) t
      in if g_right (t n) = NULL then Some t else f p (g_right (t n)) t) = Some t'"
  show "kind (t' x) = kind (t x)"
    using ih [of p _ _ t'] step by (fastforce simp: kind_upd_g Let_def split: if_splits)
qed

lemma countNew_bare: "countNew node stat c t = Some t' \<Longrightarrow> bare (t' x) = bare (t x)"
  using updJgrpCountByJStatus_bare countByOpLoop_bare by (fastforce simp: countNew_def updJgrpCountByOp_def split: if_splits)

lemma insertLinks_kind: "insertLinks p c t = Some t' \<Longrightarrow> kind (t' x) = kind (t x)"
  by (auto simp: insertLinks_def treeLinkSibling_def bind_eq_Some_conv kind_upd_g dest!: setParents_kind [of _ _ _ _ x] split: if_splits)

lemma treeInsertChild_kind:
  assumes "treeInsertChild node stat p c g = Some (q, g')"
  shows "kind (jgD g' x) = kind (jgD g x)" and "groupRoot g' = groupRoot g" and "depEntry g' = depEntry g"
proof -
  have "kind (jgD g' x) = kind (jgD g x) \<and> groupRoot g' = groupRoot g \<and> depEntry g' = depEntry g"
  proof (cases "p = NULL \<or> c = NULL")
    case True
    then show ?thesis using assms by (auto simp: treeInsertChild_def split: if_splits)
  next
    case False
    then obtain t t' where "insertLinks p c (jgD g) = Some t" "countNew node stat c t = Some t'" "g' = g\<lparr>jgD := t'\<rparr>"
      using assms by (auto simp: treeInsertChild_unfold bind_eq_Some_conv treeObserverEvalDep_def)
    then show ?thesis using insertLinks_kind countNew_bare [of node stat c t t' x] by (simp add: bare_eq)
  qed
  then show "kind (jgD g' x) = kind (jgD g x)" "groupRoot g' = groupRoot g" "depEntry g' = depEntry g" by simp_all
qed

lemma clipLinks_kind: "kind (clipLinks n t x) = kind (t x)"
  by (simp add: clipLinks_def Let_def kind_upd_g)

lemma treeObserverEvalDep_keeps: "treeObserverEvalDep n ev g = Some g' \<Longrightarrow> jgD g' = jgD g \<and> groupRoot g' = groupRoot g"
  by (auto simp: treeObserverEvalDep_def bind_eq_Some_conv split: treeEventType.splits if_splits)

lemma treeClip_kind:
  assumes "treeClip node stat n g = Some g'"
  shows "kind (jgD g' x) = kind (jgD g x)" and "groupRoot g' = groupRoot g"
proof -
  have "kind (jgD g' x) = kind (jgD g x) \<and> groupRoot g' = groupRoot g"
  proof (cases "n = NULL")
    case True
    then show ?thesis using assms by (simp add: treeClip_def)
  next
    case False
    then obtain t g1 where t: "countOff node stat n (clipLinks n (jgD g)) = Some t"
      and g1: "treeObserverEvalDep n TREE_EVENT_CLIP (g\<lparr>jgD := t\<rparr>) = Some g1"
      and g': "g' = g1\<lparr>jgD := upd_g n (\<lambda>x. x\<lparr>g_parent := NULL, g_left := NULL, g_right := NULL\<rparr>) (jgD g1)\<rparr>"
      using assms by (auto simp: treeClip_def countOff_def bind_eq_Some_conv Let_def)
    have "bare (t x) = bare (clipLinks n (jgD g) x)"
      using t updJgrpCountByJStatus_bare countByOpLoop_bare by (fastforce simp: countOff_def updJgrpCountByOp_def split: if_splits)
    then have "kind (t x) = kind (jgD g x)" by (simp add: bare_eq clipLinks_kind)
    then show ?thesis using treeObserverEvalDep_keeps [OF g1] g' by (simp add: kind_upd_g)
  qed
  then show "kind (jgD g' x) = kind (jgD g x)" "groupRoot g' = groupRoot g" by simp_all
qed

section \<open>Jobs in the tree\<close>

text \<open>The view without the counters; a count never changes it.\<close>

definition er :: "jview \<Rightarrow> addr \<times> addr \<times> (addr \<Rightarrow> jgTreeNode) \<times> (addr \<Rightarrow> addr) \<times> (addr \<Rightarrow> int) \<times> (addr \<Rightarrow> int) \<times> (addr \<Rightarrow> addr) \<times> (int \<rightharpoonup> addr) \<times> (int \<times> int \<times> addr list)" where
  "er v = (groupRoot (fst v), depEntry (fst v), \<lambda>x. bare (jgD (fst v) x), snd v)"

lemma er_move [simp]: "er (jv_move j a b v) = er v"
  using updJgrpCountByJStatus_bare by (fastforce simp: jv_move_def er_def fun_eq_iff split: option.splits)

lemma er_countJgrp [simp]: "er (jv (countJgrp j a b s)) = er (jv s)"
  by (simp add: jv_countJgrp)

definition flat :: "addr \<Rightarrow> addr list \<Rightarrow> rose" where
  "flat g ns = Node g (map (\<lambda>n. Node n []) ns)"

lemma pres_map: "pres (map (\<lambda>n. Node n []) ns) = ns"
  by (induction ns) simp_all

lemma pres_flat [simp]: "pres [flat g ns] = g # ns"
  by (simp add: flat_def pres_map)

text \<open>The list of elements that starts behind \<open>a\<close>.\<close>

fun elems :: "(addr \<Rightarrow> addr) \<Rightarrow> addr \<Rightarrow> addr list \<Rightarrow> bool" where
  "elems nxt a [] \<longleftrightarrow> nxt a = NULL"
| "elems nxt a (x # xs) \<longleftrightarrow> nxt a = x \<and> x \<noteq> NULL \<and> elems nxt x xs"

abbreviation nodeOf :: "mbd \<Rightarrow> addr \<Rightarrow> addr" where
  "nodeOf s j \<equiv> jgrpNode (jD s j)"

abbreviation tnode :: "mbd \<Rightarrow> addr \<Rightarrow> jgTreeNode" where
  "tnode s n \<equiv> jgD (jg s) n"

definition job_node :: "addr set \<Rightarrow> mbd \<Rightarrow> addr \<Rightarrow> bool" where
  "job_node J s n \<longleftrightarrow> g_nodeType (tnode s n) = JGRP_NODE_JOB \<and> g_job (tnode s n) \<in> J \<and>
     (\<forall>j \<in> J. nodeOf s j = n \<longleftrightarrow> j = g_job (tnode s n))"

definition array_node :: "addr set \<Rightarrow> mbd \<Rightarrow> addr \<Rightarrow> bool" where
  "array_node J s n \<longleftrightarrow> g_nodeType (tnode s n) = JGRP_NODE_ARRAY \<and>
     (let a = g_jobArray (tnode s n)
      in a \<notin> J \<and> a \<noteq> NULL \<and> nodeType (jD s a) = JGRP_NODE_ARRAY \<and> nodeOf s a = n \<and>
         jobIdHT s (jobId (jD s a)) = Some a \<and>
         (\<exists>xs. elems (\<lambda>j. nextJob (jD s j)) a xs \<and> distinct xs \<and> xs \<noteq> [] \<and> set xs = {j \<in> J. nodeOf s j = n}))"

definition known :: "mbd \<Rightarrow> addr \<Rightarrow> bool" where
  "known s j \<longleftrightarrow> j \<noteq> NULL \<and> nodeType (jD s j) = JGRP_NODE_JOB \<and> 0 < jobId (jD s j) \<and> jobIdHT s (jobId (jD s j)) = Some j"

definition shelf :: "addr set \<Rightarrow> mbd \<Rightarrow> addr list \<Rightarrow> bool" where
  "shelf J s ns \<longleftrightarrow>
     tree_ok (jgD (jg s)) (groupRoot (jg s)) (flat (groupRoot (jg s)) ns) \<and>
     g_nodeType (tnode s (groupRoot (jg s))) = JGRP_NODE_GROUP \<and>
     depEntry (jg s) \<in> insert NULL (set (groupRoot (jg s) # ns)) \<and>
     (\<forall>j \<in> J. known s j \<and> nodeOf s j \<in> set ns) \<and>
     (\<forall>n \<in> set ns. job_node J s n \<or> array_node J s n)"

lemma er_views:
  assumes "er (jv t) = er (jv s)"
  shows "groupRoot (jg t) = groupRoot (jg s)" "depEntry (jg t) = depEntry (jg s)" "lk (tnode t x) = lk (tnode s x)"
    "kind (tnode t x) = kind (tnode s x)" "nodeOf t j = nodeOf s j" "jobId (jD t j) = jobId (jD s j)"
    "nodeType (jD t j) = nodeType (jD s j)" "(\<lambda>j. nextJob (jD t j)) = (\<lambda>j. nextJob (jD s j))" "jobIdHT t = jobIdHT s" "cfg t = cfg s"
  using assms by (auto simp: er_def jv_def fun_eq_iff bare_eq)

lemma shelf_cong:
  assumes "er (jv t) = er (jv s)"
  shows "shelf J t ns = shelf J s ns"
proof -
  note v = er_views [OF assms]
  have k: "g_nodeType (tnode t x) = g_nodeType (tnode s x)" "g_job (tnode t x) = g_job (tnode s x)"
    "g_jobArray (tnode t x) = g_jobArray (tnode s x)" for x
    using kind_views [OF v(4) [of x]] by simp_all
  have "tree_ok (jgD (jg t)) g r = tree_ok (jgD (jg s)) g r" for g r
    using sibs_cong [of "[r]" "jgD (jg t)" "jgD (jg s)"] v(3) by (simp add: tree_ok_def)
  moreover have "job_node J t n = job_node J s n" for n by (simp add: job_node_def k v(5))
  moreover have "array_node J t n = array_node J s n" for n by (simp add: array_node_def k v(5-9))
  moreover have "known t j = known s j" for j by (simp add: known_def v(6,7,9))
  ultimately show ?thesis by (simp add: shelf_def k v(1,2,5))
qed

section \<open>Status changes and requeues\<close>

lemma er_cong: "jv t = jv s \<Longrightarrow> er (jv t) = er (jv s)"
  by simp

lemma er_changeBegin: "er (jv (changeBegin j new et s)) = er (jv s)"
proof -
  define s1 where "s1 = begun j new et s"
  define s2 where "s2 = (if et = LOG_IT \<and> has (status s1 j) JOB_STAT_RSRC_PREEMPT_WAIT \<and>
    (\<not> IS_PEND new \<and> \<not> has new JOB_STAT_SSUSP \<or> has new JOB_STAT_PSUSP \<or> IS_FINISH new)
    then freeReservePreemptResources j s1 else s1)"
  define s3 where "s3 = (if et = LOG_IT \<and> has (status s2 j) JOB_STAT_RUN \<and>
    (\<not> has new JOB_STAT_RUN \<or> IS_FINISH new \<or> IS_SUSP new) then updateStopJobPreemptResources j s2 else s2)"
  define s4 where "s4 = (if 0 \<le> jobId (jD s3 j) then countJgrp j (status s3 j) new s3 else s3)"
  define s5 where "s5 = accumRunTime j new et s4"
  define s6 where "s6 = (if mSchedStage s5 \<noteq> M_STAGE_REPLAY \<and>
    (IS_PEND (status s5 j) \<and> IS_START new \<or> IS_START (status s5 j) \<and> IS_FINISH new) then s5\<lparr>statusChanged := True\<rparr> else s5)"
  define s7 where "s7 = upd_j j (\<lambda>j. j\<lparr>jStatus := SET_STATE (jStatus j) new\<rparr>) s6"
  define s8 where "s8 = (if has (status s7 j) JOB_STAT_PSUSP \<and> has (jb_options2 (bill s7 j)) SUB2_HOLD
    then upd_j j (\<lambda>x. x\<lparr>startTime := 0, endTime := 0\<rparr>) s7 else s7)"
  have eq: "changeBegin j new et s = s8"
    by (simp only: changeBegin_def Let_def begun_def s1_def s2_def s3_def s4_def s5_def s6_def s7_def s8_def)
  have "jv s1 = jv s" "jv s2 = jv s1" "jv s3 = jv s2" "jv s5 = jv s4" "jv s6 = jv s5" "jv s7 = jv s6" "jv s8 = jv s7"
    by (simp_all add: s1_def begun_def s2_def s3_def s5_def s6_def s7_def s8_def jv_upd_j)
  moreover have "er (jv s4) = er (jv s3)" by (simp add: s4_def)
  ultimately show ?thesis unfolding eq by simp
qed

lemma jv_changeCount': "jv (changeCount j old new et s) = jv s"
  by (simp add: changeCount_def Let_def jv_upd_j)

lemma er_jStatusChange [simp]: "er (jv (jStatusChange j n et s)) = er (jv s)"
proof (cases "jstate n = jstate (status s j)")
  case True
  then show ?thesis by (simp add: jStatusChange_def)
next
  case False
  then show ?thesis unfolding jStatusChange_unfold [OF False] Let_def by (simp add: jv_changeCount' er_changeBegin)
qed

lemma er_handleRequeueJob [simp]: "newSub (jD s j) = None \<Longrightarrow> er (jv (handleRequeueJob j t s)) = er (jv s)"
  by (simp add: handleRequeueJob_def Let_def jv_upd_j requeuePend_jv requeuePrep_jv)

section \<open>All invariants together\<close>

text \<open>
  The counters are the sums over the jobs \<open>J\<close>, every job is on the list of its
  state, the groups count their jobs, and tree and table of identifiers hold
  exactly these jobs.
\<close>

definition world :: "addr set \<Rightarrow> mbd \<Rightarrow> bool" where
  "world J s \<longleftrightarrow> inv J s \<and> lists_ok J s \<and> groups_ok J s \<and> mSchedStage s \<noteq> M_STAGE_REPLAY \<and> (\<exists>ns. shelf J s ns)"

lemma world_change:
  assumes "world J s" and "j \<in> J" and "change_ok s j n et"
  shows "world J (jStatusChange j n et s)"
  using assms jStatusChange_step [of J s j n et] jStatusChange_groups [of J s j n et] shelf_cong [of "jStatusChange j n et s" s]
  by (simp add: world_def)

lemma world_requeue:
  assumes "world J s" and "j \<in> J" and "finished (status s j)" and "newSub (jD s j) = None"
  shows "world J (handleRequeueJob j rt s)"
  using assms handleRequeueJob_step [of J s j rt] handleRequeueJob_groups [of J s j rt] shelf_cong [of "handleRequeueJob j rt s" s]
  by (simp add: world_def)

lemma lists_same: "same_lists s t \<Longrightarrow> lists_ok J t = lists_ok J s"
proof -
  assume s: "same_lists s t"
  then have l: "jDataList t = jDataList s" and h: "homes (status t i) = homes (status s i)" for i
    using homes_cong [of "status t i" "status s i"] by (simp_all add: same_lists_def)
  show ?thesis by (simp add: lists_ok_def distinct_lists_def on_list_def l h)
qed

lemma world_mild:
  assumes "world J s" and "mild s t" and "jv t = jv s"
  shows "world J t"
proof -
  have "inv J t = inv J s" using assms(2) calm_inv by (auto simp: mild_def)
  moreover have "lists_ok J t = lists_ok J s" using assms(2) lists_same by (auto simp: mild_def)
  moreover have "groups_ok J t" using assms groups_same [of J s t] by (auto simp: world_def mild_def same_lists_def)
  moreover have "mSchedStage t = mSchedStage s" using assms(2) by (simp add: mild_def same_lists_def)
  moreover have "shelf J t ns = shelf J s ns" for ns using shelf_cong [of t s] assms(3) by simp
  ultimately show ?thesis using assms(1) by (simp add: world_def)
qed

end
