(* ===== verification/Job_Entry.thy ===== *)
theory Job_Entry
  imports Job_Shelf
begin

unbundle bit_operations_syntax

text \<open>
  Submission: a new job is booked with its queue and user, gets its place in the
  pending list, its identifier and its node in the job group tree.
\<close>

section \<open>Chains in the flat tree\<close>

lemma sibs_kids:
  "sibs t p l (map (\<lambda>n. Node n []) ns) a \<Longrightarrow> n \<in> set ns \<Longrightarrow> g_parent (t n) = p \<and> n \<noteq> NULL \<and> g_child (t n) = NULL"
  by (induction ns arbitrary: l a) auto

lemma flat_chain:
  assumes "tree_ok t g (flat g ns)"
  shows "chain t g [g]" and "n \<in> set ns \<Longrightarrow> chain t n [n, g]" and "g \<noteq> NULL" and "g \<notin> set ns" and "distinct ns"
proof -
  have *: "g \<noteq> NULL" "g_parent (t g) = NULL" "sibs t g NULL (map (\<lambda>n. Node n []) ns) (g_child (t g))" "distinct (g # ns)"
    using assms by (simp_all add: tree_ok_def flat_def pres_map)
  then show c: "chain t g [g]" by (simp add: chain_simps chain_nil)
  show "chain t n [n, g]" if "n \<in> set ns"
    using sibs_kids [OF *(3) that] c by (simp add: chain_simps)
  show "g \<noteq> NULL" "g \<notin> set ns" "distinct ns" using * by simp_all
qed

lemma flat_group_tree:
  assumes "groups_ok J s" and "shelf J s ns"
  shows "group_tree J (\<lambda>j. nodeOf s j) (status s) (jgD (jg s)) (groupRoot (jg s)) (flat (groupRoot (jg s)) ns)"
  using assms by (simp add: group_tree_def groups_ok_def shelf_def)

section \<open>A new node\<close>

lemma new_leaf:
  assumes gt: "group_tree J node stat t g (flat g ns)" and J: "\<forall>j \<in> J. node j \<in> set ns" and n: "m \<notin> set (g # ns)"
    and nd: "counted nd \<Longrightarrow> g_counts nd = (\<lambda>_. 0)"
  shows "group_tree J node stat (t(m := nd)) g (flat g ns)"
proof -
  let ?t = "t(m := nd)"
  have ok: "tree_ok t g (flat g ns)" and c: "counts_ok J node stat t" and fin: "finite J"
    using gt by (simp_all add: group_tree_def nodes_ok_def)
  have ch: "chain t (node j) [node j, g]" "chain ?t (node j) [node j, g]" if "j \<in> J" for j
  proof -
    show ch: "chain t (node j) [node j, g]" using flat_chain(2) [OF ok] J that by blast
    show "chain ?t (node j) [node j, g]" by (rule chain_cong [OF ch]) (use n J that in auto)
  qed
  have b: "below ?t node x j \<longleftrightarrow> below t node x j" "\<not> below t node m j" if "j \<in> J" for x j
    using below_chain [of t node j, OF ch(1) [OF that]] below_chain [of ?t node j, OF ch(2) [OF that]] n J that by auto
  have sums: "(\<Sum>j\<in>J. if below ?t node x j then stat_unit (stat j) i else 0) =
      (\<Sum>j\<in>J. if below t node x j then stat_unit (stat j) i else 0)" for x i
    by (rule sum.cong) (simp_all add: b)
  have "counts_ok J node stat ?t"
    unfolding counts_ok_def sums
  proof (intro allI impI)
    fix x i assume x: "counted (?t x)" and i: "i < NUM_JGRP_COUNTERS"
    show "g_counts (?t x) i = (\<Sum>j\<in>J. if below t node x j then stat_unit (stat j) i else 0)"
    proof (cases "x = m")
      case True
      then show ?thesis using nd x b(2) by simp
    next
      case False
      then show ?thesis using c x i by (simp add: counts_ok_def)
    qed
  qed
  moreover have "sibs ?t NULL NULL [flat g ns] g = sibs t NULL NULL [flat g ns] g"
    by (rule sibs_cong) (use n in auto)
  moreover have "nodes_ok J node ?t" using ch(2) fin by (auto simp: nodes_ok_def)
  ultimately show ?thesis using ok by (simp add: group_tree_def tree_ok_def)
qed

lemma new_job_node:
  assumes gt: "group_tree J node stat t g r" and j: "j \<notin> J" and m: "chain t m [m]" and nd: "\<not> counted (t m)"
  shows "group_tree (insert j J) (node(j := m)) stat t g r"
proof -
  have fin: "finite J" and ok: "counts_ok J node stat t" using gt by (simp_all add: group_tree_def nodes_ok_def)
  have b: "below t (node(j := m)) x i \<longleftrightarrow> below t node x i" if "i \<in> J" for x i using that j by (auto simp: below_def)
  have bj: "below t (node(j := m)) x j \<longleftrightarrow> x = m" for x using below_chain [of t "node(j := m)" j "[m]"] m by simp
  have "counts_ok (insert j J) (node(j := m)) stat t"
    unfolding counts_ok_def
  proof (intro allI impI)
    fix x i assume x: "counted (t x)" and i: "i < NUM_JGRP_COUNTERS"
    have "(\<Sum>k\<in>insert j J. if below t (node(j := m)) x k then stat_unit (stat k) i else 0) =
        (\<Sum>k\<in>J. if below t (node(j := m)) x k then stat_unit (stat k) i else 0)"
      using x nd bj by (subst sum.insert [OF fin j]) auto
    also have "\<dots> = (\<Sum>k\<in>J. if below t node x k then stat_unit (stat k) i else 0)" by (rule sum.cong) (simp_all add: b)
    finally show "g_counts (t x) i = (\<Sum>k\<in>insert j J. if below t (node(j := m)) x k then stat_unit (stat k) i else 0)"
      using ok x i by (simp add: counts_ok_def)
  qed
  moreover have "nodes_ok (insert j J) (node(j := m)) t"
    using gt m by (auto simp: group_tree_def nodes_ok_def)
  ultimately show ?thesis using gt by (simp add: group_tree_def)
qed

lemma inss_flat: "g \<notin> set ns \<Longrightarrow> hd (inss g c [flat g ns]) = Node g (map (\<lambda>n. Node n []) ns @ [c])"
  by (simp add: flat_def pres_map)

text \<open>A leaf put below the root.\<close>

lemma insert_leaf:
  assumes gt: "group_tree J node stat (jgD h) g (flat g ns)" and root: "counted (jgD h g)" and m: "m \<notin> set (g # ns)" "m \<noteq> NULL"
    and leaf: "g_parent (jgD h m) = NULL" "g_left (jgD h m) = NULL" "g_right (jgD h m) = NULL" "g_child (jgD h m) = NULL"
    and k: "node_kind J node (jgD h) m"
  shows "\<exists>t. treeInsertChild node stat g m h = Some (g, h\<lparr>jgD := t\<rparr>) \<and> group_tree J node stat t g (flat g (ns @ [m]))"
proof -
  have ok: "tree_ok (jgD h) g (flat g ns)" using gt by (simp add: group_tree_def)
  note fc = flat_chain [OF ok]
  have "loose (jgD h) m [] (pres [flat g ns])" using leaf m by (auto simp: loose_def)
  from treeInsertChild_step [OF gt _ this k fc(1)]
  show ?thesis using root inss_flat [OF fc(4), of "Node m []"] by (simp add: flat_def)
qed

section \<open>The books with one more job\<close>

text \<open>States that differ, as far as the books go, in the record of one job only.\<close>

definition but :: "addr \<Rightarrow> mbd \<Rightarrow> mbd \<Rightarrow> bool" where
  "but j s t \<longleftrightarrow> same_cnts s t \<and> (\<forall>i. i \<noteq> j \<longrightarrow> jD t i = jD s i) \<and> shD t = shD s \<and> usergroups t = usergroups s \<and>
     remote t = remote s \<and> ugrps t = ugrps s \<and> uinit t = uinit s \<and> mSchedStage t = mSchedStage s"

lemma but_trans: "but j s t \<Longrightarrow> but j t u \<Longrightarrow> but j s u"
  by (simp add: but_def same_cnts_def)

lemma but_upd_j [simp]: "but j s (upd_j j f s)"
  by (simp add: but_def same_cnts_def proj_defs)

lemma but_call [simp]: "but j s (call c s)"
  by (simp add: but_def same_cnts_def proj_defs)

lemma but_fields [simp]:
  "but j s (s\<lparr>jobIdHT := a\<rparr>)" "but j s (s\<lparr>jg := b\<rparr>)" "but j s (s\<lparr>jDataList := c\<rparr>)" "but j s (s\<lparr>died := d\<rparr>)"
  "but j s (s\<lparr>numRemoveJobs := e\<rparr>)" "but j s (s\<lparr>jDataList := c, pendJobSlots := f\<rparr>)"
  by (simp_all add: but_def same_cnts_def proj_defs)

lemma but_inPendJobList [simp]: "but j s (inPendJobList j l t s)"
proof -
  define s1 where "s1 = clearRequeueDel j s"
  have "but j s s1" by (simp add: s1_def clearRequeueDel_def) (simp add: but_def)
  moreover have "but j s1 (inPendJobList j l t s)"
    unfolding inPendJobList_def Let_def s1_def [symmetric] using but_trans [OF but_fields(6) but_call] .
  ultimately show ?thesis by (rule but_trans)
qed

lemma but_upd_node [simp]: "but j s (upd_node n f s)"
  by (simp add: upd_node_def)

lemma but_insertJgrp [simp]: "but j s (insertJgrp p c s)"
  by (simp add: insertJgrp_def split: option.splits prod.splits)

lemma but_inv:
  assumes "but j s t" and "j \<notin> J"
  shows "inv J t = inv J s"
proof -
  define s' where "s' = upd_j j (\<lambda>_. jD t j) s"
  have "calm s' t" using assms(1) by (auto simp: s'_def calm_def but_def same_cnts_def proj_defs)
  moreover have "inv J s' = inv J s"
  proof -
    have v: "qcn s' = qcn s" "ucn s' = ucn s" "hcn s' = hcn s" "\<And>i. i \<noteq> j \<Longrightarrow> jcn s' i = jcn s i" "\<And>i. i \<noteq> j \<Longrightarrow> scn s' i = scn s i"
      "\<And>i. i \<noteq> j \<Longrightarrow> jD s' i = jD s i" "\<And>i. i \<noteq> j \<Longrightarrow> job_users s' i = job_users s i" "\<And>i. i \<noteq> j \<Longrightarrow> local_hosts s' i = local_hosts s i"
      "\<And>i. i \<noteq> j \<Longrightarrow> job_ok s' i = job_ok s i"
      by (auto simp: s'_def proj_defs jcn_def scn_def job_users_def charged_users_def local_hosts_def job_ok_def user_ready_def)
    have ne: "i \<in> J \<Longrightarrow> i \<noteq> j" for i using assms(2) by blast
    have "total J (\<lambda>i. [qPtr (jD s' i)]) (jcn s') = total J (\<lambda>i. [qPtr (jD s i)]) (jcn s)"
      "total J (job_users s') (jcn s') = total J (job_users s) (jcn s)"
      "total J (local_hosts s') (scn s') = total J (local_hosts s) (scn s)"
      by (auto simp: total_def fun_eq_iff v ne intro!: sum.cong)
    then show ?thesis using v ne by (auto simp: inv_def jobs_ok_def books_def books_with_def)
  qed
  ultimately show ?thesis using calm_inv by blast
qed

lemma cscale_zero: "cscale n 0 = 0"
  by (induction n) (simp_all add: cscale_def)

lemma total_insert_0: "finite J \<Longrightarrow> j \<notin> J \<Longrightarrow> total (insert j J) w (c(j := 0)) = total J w c"
  by (auto simp: total_def fun_eq_iff cscale_zero intro!: sum.cong)

text \<open>Charging a new pending job to its queue and user.\<close>

lemma enter_books:
  assumes i: "inv J t" and j: "j \<notin> J" and p: "IS_PEND (status t j)" "\<not> has (status t j) JOB_STAT_RESERVE"
    and ok: "job_ok t j" and n: "n = req_of t j"
  shows "inv (insert j J) (acct_QU j (Cnts n n 0 0 0 0) t)" and "frame t (acct_QU j (Cnts n n 0 0 0 0) t)"
proof -
  have fin: "finite J" and b: "books J t" and okJ: "jobs_ok J t" using i by (simp_all add: inv_def jobs_ok_def)
  have ok': "jobs_ok (insert j J) t" using okJ ok by (simp add: jobs_ok_def)
  have c: "jcn t j = Cnts n n 0 0 0 0" "scn t j = 0" using p n by (simp_all add: jcn_def scn_def job_cnts_def slot_cnts_def)
  have b0: "books_with (insert j J) ((jcn t)(j := 0)) ((scn t)(j := 0)) t"
    using b total_insert_0 [OF fin j] by (simp add: books_def books_with_def)
  have nn: "\<forall>i \<in> insert j J. 0 \<le> jcn t i \<and> 0 \<le> scn t i" by (rule jobs_nonneg [OF ok'])
  have h: "0 \<le> hcn t x" for x using books_nonneg(3) [OF b0] nn by simp
  have ch: "charges j (jcn t j - 0) (scn t j - 0) t (acct_QU j (Cnts n n 0 0 0 0) t)"
    using charges_QU [of t j "Cnts n n 0 0 0 0" "Cnts n n 0 0 0 0" 0] ok h by (simp add: c job_ok_def)
  have "books_with (insert j J) ((jcn t)(j := jcn t j)) ((scn t)(j := scn t j)) (acct_QU j (Cnts n n 0 0 0 0) t)"
    by (rule charges_step [OF ch b0]) (use fin nn in simp_all)
  moreover show f: "frame t (acct_QU j (Cnts n n 0 0 0 0) t)" using charges_frame [OF ch] .
  ultimately show "inv (insert j J) (acct_QU j (Cnts n n 0 0 0 0) t)"
    using ok' frame_views(1,2) [OF f] jobs_ok_frame [OF f] by (simp add: inv_def books_def)
qed

section \<open>Entering the tree\<close>

lemma elems_cong: "(\<And>x. x \<in> insert a (set xs) \<Longrightarrow> nxt' x = nxt x) \<Longrightarrow> elems nxt' a xs = elems nxt a xs"
  by (induction nxt a xs rule: elems.induct) auto

lemma shelf_enter:
  assumes sh: "shelf J s ns" and j: "j \<notin> J" "j \<noteq> NULL" "0 < jobId (jD s j)" "jobIdHT s (jobId (jD s j)) = None"
    and m: "m \<notin> set (groupRoot (jg s) # ns)"
    and root: "groupRoot (jg t) = groupRoot (jg s)" "depEntry (jg t) = depEntry (jg s)"
    and tree: "tree_ok (jgD (jg t)) (groupRoot (jg s)) (flat (groupRoot (jg s)) (ns @ [m]))"
    and kinds: "\<And>x. x \<noteq> m \<Longrightarrow> kind (tnode t x) = kind (tnode s x)"
    and nm: "g_nodeType (tnode t m) = JGRP_NODE_JOB" "g_job (tnode t m) = j"
    and rec: "\<And>i. nodeOf t i = (if i = j then m else nodeOf s i)" "\<And>i. jobId (jD t i) = jobId (jD s i)"
      "\<And>i. nodeType (jD t i) = (if i = j then JGRP_NODE_JOB else nodeType (jD s i))"
      "\<And>i. i \<noteq> j \<Longrightarrow> nextJob (jD t i) = nextJob (jD s i)"
    and ht: "jobIdHT t = (jobIdHT s)(jobId (jD s j) \<mapsto> j)"
  shows "shelf (insert j J) t (ns @ [m])"
proof -
  have kj: "known s i" "nodeOf s i \<in> set ns" if "i \<in> J" for i using sh that by (auto simp: shelf_def)
  have kv: "g_nodeType (tnode t x) = g_nodeType (tnode s x)" "g_job (tnode t x) = g_job (tnode s x)"
    "g_jobArray (tnode t x) = g_jobArray (tnode s x)" if "x \<noteq> m" for x
    using kind_views [OF kinds [OF that]] by simp_all
  have known: "known t i" if "i \<in> insert j J" for i
    using that kj(1) [of i] j rec ht by (cases "i = j") (auto simp: known_def)
  have nodes: "job_node (insert j J) t n \<or> array_node (insert j J) t n" if n: "n \<in> set ns" for n
  proof -
    have nm: "n \<noteq> m" using n m by auto
    have "job_node J s n \<or> array_node J s n" using sh n by (simp add: shelf_def)
    then show ?thesis
    proof
      assume "job_node J s n"
      then have "job_node (insert j J) t n" using j nm kv [OF nm] rec(1) by (auto simp: job_node_def)
      then show ?thesis ..
    next
      assume a: "array_node J s n"
      define a' where "a' = g_jobArray (tnode s n)"
      obtain xs where xs: "elems (\<lambda>j. nextJob (jD s j)) a' xs" "distinct xs" "xs \<noteq> []" "set xs = {j \<in> J. nodeOf s j = n}"
        and a': "a' \<notin> J" "a' \<noteq> NULL" "nodeType (jD s a') = JGRP_NODE_ARRAY" "nodeOf s a' = n" "jobIdHT s (jobId (jD s a')) = Some a'"
        using a by (auto simp: array_node_def Let_def a'_def)
      have aj: "a' \<noteq> j" using a'(5) j(4) by auto
      have "x \<noteq> j" if "x \<in> insert a' (set xs)" for x using that xs(4) aj j(1) by auto
      then have "elems (\<lambda>j. nextJob (jD t j)) a' xs = elems (\<lambda>j. nextJob (jD s j)) a' xs"
        by (intro elems_cong rec(4)) blast
      moreover have "{i \<in> insert j J. nodeOf t i = n} = {i \<in> J. nodeOf s i = n}" using nm j(1) rec(1) by auto
      moreover have "jobIdHT t (jobId (jD t a')) = Some a'" using a'(5) j(4) ht rec(2) by auto
      ultimately have "array_node (insert j J) t n"
        using a xs a' aj nm kv [OF nm] rec by (auto simp: array_node_def Let_def a'_def)
      then show ?thesis ..
    qed
  qed
  have "job_node (insert j J) t m"
  proof -
    have "nodeOf s i \<noteq> m" if "i \<in> J" for i using kj(2) [OF that] m by auto
    then show ?thesis using j nm rec(1) by (auto simp: job_node_def)
  qed
  moreover have "nodeOf t i \<in> set (ns @ [m])" if "i \<in> insert j J" for i using kj(2) that rec(1) by auto
  moreover have "g_nodeType (tnode t (groupRoot (jg s))) = JGRP_NODE_GROUP" using sh kv(1) m by (auto simp: shelf_def)
  moreover have "depEntry (jg s) \<in> insert NULL (set (groupRoot (jg s) # ns))" using sh by (simp add: shelf_def)
  ultimately show ?thesis using known nodes tree root by (auto simp: shelf_def)
qed

section \<open>Submitting a job\<close>

text \<open>What the caller of \<open>handleNewJob\<close> has prepared: a new record, a known user, a new node.\<close>

definition new_job :: "addr set \<Rightarrow> mbd \<Rightarrow> addr \<Rightarrow> bool" where
  "new_job J s j \<longleftrightarrow> j \<notin> J \<and> j \<noteq> NULL \<and> (\<forall>l. j \<notin> set (jDataList s l)) \<and> status s j = JOB_STAT_PEND \<and>
     numHostPtr (jD s j) = 0 \<and> 0 < jobId (jD s j) \<and> jobIdHT s (jobId (jD s j)) = None \<and>
     0 \<le> jb_maxNumProcessors (bill s j) \<and>
     (\<exists>u. ht_get (uDataList s) (userName (jD s j)) = Some u \<and> user_ready s u)"

definition new_node :: "mbd \<Rightarrow> addr \<Rightarrow> bool" where
  "new_node s m \<longleftrightarrow> m \<noteq> NULL \<and> (\<forall>ns. treeWalk (jgD (jg s)) (groupRoot (jg s)) = Some ns \<longrightarrow> m \<notin> set ns)"

lemma new_node_shelf: "new_node s m \<Longrightarrow> shelf J s ns \<Longrightarrow> m \<notin> set (groupRoot (jg s) # ns)"
  using treeWalk_preorder [of "jgD (jg s)" "groupRoot (jg s)" "flat (groupRoot (jg s)) ns"] by (auto simp: shelf_def new_node_def)

lemma enterJobId_new: "jobIdHT s (jobId (jD s j)) = None \<Longrightarrow> enterJobId j s = s\<lparr>jobIdHT := (jobIdHT s)(jobId (jD s j) \<mapsto> j)\<rparr>"
  by (simp add: enterJobId_def addJobIdHT.simps [of j s])


lemma chargeNewJob_def': "mSchedStage s \<noteq> M_STAGE_REPLAY \<Longrightarrow>
    chargeNewJob j s = acct_QU j (Cnts (req_of s j) (req_of s j) 0 0 0 0) s"
  by (simp add: chargeNewJob_def Let_def)

lemma enterNewJob_facts:
  assumes new: "new_job J s j" and t: "t = enterNewJob j s"
  shows "but j s t" and "\<exists>p. jDataList t = (jDataList s)(PJL := insBefore j p (jDataList s PJL))"
    and "jg t = jg s" and "jobIdHT t = (jobIdHT s)(jobId (jD s j) \<mapsto> j)"
    and "\<exists>u. uPtr (jD t j) = u \<and> user_ready s u" and "status t j = JOB_STAT_PEND" and "numHostPtr (jD t j) = 0"
    and "jobId (jD t j) = jobId (jD s j)" and "nodeType (jD t j) = JGRP_NODE_JOB" and "nextJob (jD t j) = NULL"
    and "shared (jD t j) = shared (jD s j)" and "nodeOf t i = nodeOf s i"
proof -
  define s1 where "s1 = s\<lparr>jobIdHT := (jobIdHT s)(jobId (jD s j) \<mapsto> j)\<rparr>"
  define s2 where "s2 = inPendJobList j PJL 0 s1"
  define s3 where "s3 = upd_j j (\<lambda>x. x\<lparr>nodeType := JGRP_NODE_JOB, nextJob := NULL\<rparr>) s2"
  have keep: "userName (jD s2 j) = userName (jD s j)" "status s2 j = status s j" "numHostPtr (jD s2 j) = numHostPtr (jD s j)"
    "jobId (jD s2 j) = jobId (jD s j)" "shared (jD s2 j) = shared (jD s j)" "jg s2 = jg s" "jobIdHT s2 = jobIdHT s1" "uDataList s2 = uDataList s"
    by (simp_all add: s2_def inPendJobList_def clearRequeueDel_def Let_def s1_def)
  obtain u where u: "ht_get (uDataList s) (userName (jD s j)) = Some u" "user_ready s u" using new by (auto simp: new_job_def)
  have e: "enterJobId j s = s1" using enterJobId_new [of s j] new by (simp add: new_job_def s1_def)
  have eq: "t = upd_j j (\<lambda>x. x\<lparr>uPtr := u\<rparr>) s3"
    unfolding t enterNewJob_def Let_def e s2_def [symmetric] s3_def [symmetric] using keep u by (simp add: s3_def getUserData_def)
  have "but j s s1" "but j s1 s2" "but j s2 s3" "but j s3 t" unfolding s1_def s2_def s3_def eq by simp_all
  then show "but j s t" using but_trans by blast
  obtain p where "jDataList s2 = (jDataList s1)(PJL := insBefore j p (jDataList s1 PJL))" unfolding s2_def by (rule inPendJobList_lists)
  then show "\<exists>p. jDataList t = (jDataList s)(PJL := insBefore j p (jDataList s PJL))" by (auto simp: eq s3_def s1_def)
  show "jg t = jg s" "jobIdHT t = (jobIdHT s)(jobId (jD s j) \<mapsto> j)" "\<exists>u. uPtr (jD t j) = u \<and> user_ready s u"
    "status t j = JOB_STAT_PEND" "numHostPtr (jD t j) = 0" "jobId (jD t j) = jobId (jD s j)" "nodeType (jD t j) = JGRP_NODE_JOB"
    "nextJob (jD t j) = NULL" "shared (jD t j) = shared (jD s j)"
    using keep u new by (simp_all add: eq s3_def s1_def new_job_def)
  show "nodeOf t i = nodeOf s i"
    by (simp add: eq s3_def s2_def inPendJobList_def clearRequeueDel_def Let_def s1_def)
qed

lemma putOntoTree_facts:
  assumes nxt: "nextJob (jD s j) = NULL"
    and ins: "treeInsertChild (\<lambda>i. if i = j then m else nodeOf s i) (status s) (groupRoot (jg s)) m
      ((jg s)\<lparr>jgD := (jgD (jg s))(m := jobNode j s)\<rparr>) = Some (q, g)" and t: "t = putOntoTree m j s"
  shows "but j s t" and "jDataList t = jDataList s" and "jg t = g" and "jobIdHT t = jobIdHT s"
    and "nodeOf t i = (if i = j then m else nodeOf s i)" and "status t j = status s j" and "numHostPtr (jD t j) = numHostPtr (jD s j)"
    and "jobId (jD t i) = jobId (jD s i)" and "nodeType (jD t i) = nodeType (jD s i)" and "nextJob (jD t i) = nextJob (jD s i)"
    and "shared (jD t j) = shared (jD s j)" and "uPtr (jD t j) = uPtr (jD s j)"
proof -
  define s1 where "s1 = upd_j j (\<lambda>x. x\<lparr>jgrpNode := m\<rparr>) (upd_node m (\<lambda>_. jobNode j s) s)"
  define s2 where "s2 = insertJgrp (groupRoot (jg s1)) m s1"
  have n1: "nextJob (jD s1 j) = NULL" using nxt by (simp add: s1_def upd_node_def)
  have jg1: "jg s1 = (jg s)\<lparr>jgD := (jgD (jg s))(m := jobNode j s)\<rparr>" by (simp add: s1_def upd_node_def upd_g_def)
  have "(\<lambda>i. nodeOf s1 i) = (\<lambda>i. if i = j then m else nodeOf s i)" "status s1 = status s"
    by (auto simp: s1_def upd_node_def fun_eq_iff)
  then have s2: "s2 = s1\<lparr>jg := g\<rparr>" unfolding s2_def insertJgrp_def using ins jg1 by simp
  have eq: "t = upd_j j (\<lambda>x. x\<lparr>runCount := 1, newReason := (if newReason x = 0 then PEND_JOB_NEW else newReason x),
      jFlags := (if dptRoot (shD s2 (shared x)) = NULL then jFlags x OR JFLAG_READY2 else jFlags x)\<rparr>) s2"
    unfolding t putOntoTree_def Let_def s1_def [symmetric] using n1 by (simp add: putElements.simps [of m NULL] s2_def)
  have "but j s s1" unfolding s1_def using but_trans [OF but_upd_node but_upd_j] .
  moreover have "but j s1 s2" unfolding s2 by simp
  moreover have "but j s2 t" unfolding eq by simp
  ultimately show "but j s t" using but_trans by blast
  show "jDataList t = jDataList s" "jg t = g" "jobIdHT t = jobIdHT s" "nodeOf t i = (if i = j then m else nodeOf s i)"
    "status t j = status s j" "numHostPtr (jD t j) = numHostPtr (jD s j)" "jobId (jD t i) = jobId (jD s i)"
    "nodeType (jD t i) = nodeType (jD s i)" "nextJob (jD t i) = nextJob (jD s i)" "shared (jD t j) = shared (jD s j)"
    "uPtr (jD t j) = uPtr (jD s j)"
    by (auto simp: eq s2 s1_def upd_node_def)
qed

lemma jobNode_leaf:
  "g_parent (jobNode j s) = NULL" "g_left (jobNode j s) = NULL" "g_right (jobNode j s) = NULL" "g_child (jobNode j s) = NULL"
  "g_nodeType (jobNode j s) = nodeType (jD s j)" "g_counts (jobNode j s) = (\<lambda>_. 0)"
  "nodeType (jD s j) = JGRP_NODE_JOB \<Longrightarrow> g_job (jobNode j s) = j"
  "nodeType (jD s j) = JGRP_NODE_ARRAY \<Longrightarrow> g_jobArray (jobNode j s) = j"
  by (simp_all add: jobNode_def treeNewNode_def Let_def JGRP_NODE_JOB_def JGRP_NODE_ARRAY_def)

text \<open>The node of a new job in the tree, with the counters.\<close>

lemma job_insert:
  assumes gt0: "group_tree J node stat (jgD h) g (flat g ns)" and nJ: "\<forall>i\<in>J. node i \<in> set ns" and r: "counted (jgD h g)"
    and j: "j \<notin> J" and m: "m \<notin> set (g # ns)" "m \<noteq> NULL" and nd: "nd = jobNode j s" "nodeType (jD s j) = JGRP_NODE_JOB"
  shows "\<exists>t. treeInsertChild (\<lambda>i. if i = j then m else node i) stat g m (h\<lparr>jgD := (jgD h)(m := nd)\<rparr>) = Some (g, h\<lparr>jgD := t\<rparr>) \<and>
    group_tree (insert j J) (\<lambda>i. if i = j then m else node i) stat t g (flat g (ns @ [m]))"
proof -
  let ?t = "(jgD h)(m := nd)" and ?node = "node(j := m)"
  have nc: "\<not> counted (?t m)" using jobNode_leaf(5) [of j s] nd
    by (simp add: counted_def JGRP_NODE_JOB_def JGRP_NODE_GROUP_def JGRP_NODE_ARRAY_def)
  have gt: "group_tree J node stat ?t g (flat g ns)"
    by (rule new_leaf [OF gt0 nJ m(1)]) (simp add: jobNode_leaf nd)
  have cm: "chain ?t m [m]" using m(2) nd by (simp add: chain_simps jobNode_leaf chain_nil)
  have gt': "group_tree (insert j J) ?node stat ?t g (flat g ns)" by (rule new_job_node [OF gt j cm nc])
  have only: "i = j" if i: "i \<in> insert j J" and b: "below ?t ?node m i" for i
  proof (rule ccontr)
    assume "i \<noteq> j"
    then have ij: "i \<in> J" "?node i = node i" using i by auto
    have tr: "tree_ok ?t g (flat g ns)" using gt by (simp add: group_tree_def)
    have "chain ?t (?node i) [node i, g]" using flat_chain(2) [OF tr] nJ ij by simp
    then have "m \<in> set [node i, g]" using below_chain [of ?t ?node i "[node i, g]" m] b by simp
    then show False using m(1) nJ ij(1) by auto
  qed
  have kind: "node_kind (insert j J) ?node ?t m"
    using only jobNode_leaf(5) [of j s] jobNode_leaf(7) [of s j] nd by (auto simp: node_kind_def)
  have root: "counted (?t g)" using r m(1) by auto
  have eq: "?node = (\<lambda>i. if i = j then m else node i)" by auto
  show ?thesis
    using insert_leaf [of "insert j J" ?node stat "h\<lparr>jgD := ?t\<rparr>" g ns m] gt' root m kind nd
    unfolding eq by (simp add: jobNode_leaf)
qed

text \<open>All of \<open>handleNewJob\<close> but the hold at the end.\<close>

lemma entered_world:
  assumes w: "world J s" and new: "new_job J s j" and nd: "new_node s m"
    and s3: "s3 = upd_j j (\<lambda>x. x\<lparr>jFlags := jFlags x OR JFLAG_READY2\<rparr>) (putOntoTree m j (enterNewJob j s))"
  shows "world (insert j J) (chargeNewJob j s3)" and "status (chargeNewJob j s3) j = JOB_STAT_PEND" and "mSchedStage s3 = mSchedStage s"
proof -
  define s1 where "s1 = enterNewJob j s"
  define s2 where "s2 = putOntoTree m j s1"
  note b = enterNewJob_facts [OF new s1_def]
  obtain ns where sh: "shelf J s ns" using w by (auto simp: world_def)
  have m: "m \<notin> set (groupRoot (jg s) # ns)" "m \<noteq> NULL" using new_node_shelf [OF nd sh] nd by (simp_all add: new_node_def)
  have jJ: "j \<notin> J" "j \<noteq> NULL" "0 < jobId (jD s j)" "jobIdHT s (jobId (jD s j)) = None" using new by (simp_all add: new_job_def)
  have oth: "jD s1 i = jD s i" if "i \<noteq> j" for i using b(1) that by (simp add: but_def)
  have ne: "i \<in> J \<Longrightarrow> i \<noteq> j" for i using jJ by blast
  have st1: "status s1 i = status s i" for i using b(6) oth new by (cases "i = j") (simp_all add: new_job_def)
  have nd1: "(\<lambda>i. nodeOf s1 i) = (\<lambda>i. nodeOf s i)" "status s1 = status s" using b(12) st1 by (auto simp: fun_eq_iff)
  have nd1': "(\<lambda>i. if i = j then m else nodeOf s1 i) = (\<lambda>i. if i = j then m else nodeOf s i)" using b(12) by auto
  have g: "groups_ok J s" and i: "inv J s" and l: "lists_ok J s" and stage: "mSchedStage s \<noteq> M_STAGE_REPLAY" using w by (simp_all add: world_def)
  have nJ: "\<forall>i\<in>J. nodeOf s i \<in> set ns" and root: "counted (jgD (jg s) (groupRoot (jg s)))"
    using sh by (simp_all add: shelf_def counted_def)
  obtain t where ins: "treeInsertChild (\<lambda>i. if i = j then m else nodeOf s1 i) (status s1) (groupRoot (jg s1)) m
      ((jg s1)\<lparr>jgD := (jgD (jg s1))(m := jobNode j s1)\<rparr>) = Some (groupRoot (jg s1), (jg s1)\<lparr>jgD := t\<rparr>)"
    and gt: "group_tree (insert j J) (\<lambda>i. if i = j then m else nodeOf s i) (status s) t (groupRoot (jg s)) (flat (groupRoot (jg s)) (ns @ [m]))"
    using job_insert [OF flat_group_tree [OF g sh] nJ root jJ(1) m refl b(9)] unfolding nd1 nd1' b(3) by blast
  note p = putOntoTree_facts [OF b(10) ins s2_def]
  have b3: "but j s s3" using but_trans [OF b(1) p(1)] but_trans [OF _ but_upd_j] by (simp add: s3 s2_def s1_def)
  then show stage3: "mSchedStage s3 = mSchedStage s" by (simp add: but_def)
  have st3: "status s3 i = status s i" for i
    using p(6) b(6) b3 new by (cases "i = j") (simp_all add: but_def s3 s2_def s1_def new_job_def)
  have v3: "jv s3 = jv s2" "jDataList s3 = jDataList s2" unfolding s3 s2_def s1_def by (simp_all add: jv_upd_j)
  have ok3: "job_ok s3 j"
    using p(7,11,12) b(5,7,11) b3 new by (auto simp: job_ok_def user_ready_def s3 s2_def [symmetric] s1_def [symmetric] but_def new_job_def)
  have pend: "IS_PEND (status s3 j)" "\<not> has (status s3 j) JOB_STAT_RESERVE" "PJL \<in> homes (status s3 j)" "jstate (status s3 j) \<noteq> 0"
    using st3 new by (auto simp: new_job_def homes_def stat_simps IS_PEND_def IS_START_def IS_FINISH_def has_def stat_consts stat_flags jstate_def MASK_STATUS_def)
  have i3: "inv J s3" using but_inv [OF b3 jJ(1)] i by simp
  note e = enter_books [OF i3 jJ(1) pend(1,2) ok3 refl]
  have ch: "chargeNewJob j s3 = acct_QU j (Cnts (req_of s3 j) (req_of s3 j) 0 0 0 0) s3"
    by (rule chargeNewJob_def') (simp add: stage3 stage)
  obtain q where "jDataList s1 = (jDataList s)(PJL := insBefore j q (jDataList s PJL))" using b(2) by blast
  moreover have "remove1 j (jDataList s k) = jDataList s k" for k using new by (simp add: new_job_def remove1_idem)
  ultimately have "jDataList s3 = (\<lambda>k. remove1 j (jDataList s k))(PJL := insBefore j q (remove1 j (jDataList s PJL)))"
    using p(2) v3(2) by simp
  then have mv: "moved j PJL s s3" using l by (intro moved_off_in [of s PJL s3 j q]) (simp_all add: lists_ok_def)
  have "lists_ok J s3" by (rule lists_ok_moved [OF l mv pend(3)]) (simp add: st3)
  then have l3: "lists_ok (insert j J) s3" using mv pend(3) by (auto simp: lists_ok_def moved_def)
  have views: "jgD (jg s3) = t" "groupRoot (jg s3) = groupRoot (jg s)" "depEntry (jg s3) = depEntry (jg s)"
    "jobIdHT s3 = (jobIdHT s)(jobId (jD s j) \<mapsto> j)"
    using p(3,4) b(3,4) by (simp_all add: s3 s2_def [symmetric] s1_def [symmetric])
  have recs: "nodeOf s3 k = (if k = j then m else nodeOf s k)" "jobId (jD s3 k) = jobId (jD s k)"
    "nodeType (jD s3 k) = (if k = j then JGRP_NODE_JOB else nodeType (jD s k))" "k \<noteq> j \<Longrightarrow> nextJob (jD s3 k) = nextJob (jD s k)" for k
    using p(5,8-10) [of k] b(8,9,12) oth [of k] by (auto simp: s3 s2_def [symmetric] s1_def [symmetric])
  have node3: "(\<lambda>k. nodeOf s3 k) = (\<lambda>k. if k = j then m else nodeOf s k)" "status s3 = status s"
    using recs(1) st3 by (auto simp: fun_eq_iff)
  have g3: "groups_ok (insert j J) s3"
    using gt g jJ(3) pend(4) unfolding groups_ok_def node3 views(1) by (auto simp: group_tree_def recs(2) st3)
  have sh3: "shelf (insert j J) s3 (ns @ [m])"
  proof (rule shelf_enter [OF sh jJ m(1) views(2,3) _ _ _ _ recs views(4)])
    show "tree_ok (jgD (jg s3)) (groupRoot (jg s)) (flat (groupRoot (jg s)) (ns @ [m]))" using gt by (simp add: group_tree_def views(1))
    have k: "kind (tnode s3 x) = kind (((jgD (jg s1))(m := jobNode j s1)) x)" for x
      using treeInsertChild_kind(1) [OF ins, of x] by (simp add: views(1))
    show "kind (tnode s3 x) = kind (tnode s x)" if "x \<noteq> m" for x using k [of x] that b(3) by simp
    show "g_nodeType (tnode s3 m) = JGRP_NODE_JOB" "g_job (tnode s3 m) = j"
      using kind_views [OF k [of m]] jobNode_leaf(5) [of j s1] jobNode_leaf(7) [of s1 j] b(9) by simp_all
  qed
  have f: "frame s3 (chargeNewJob j s3)" unfolding ch by (rule e(2))
  have "jv (chargeNewJob j s3) = jv s3" by (simp add: ch)
  moreover have "groups_ok (insert j J) (chargeNewJob j s3)"
    using groups_same [OF g3] f calculation by (simp add: frame_def)
  moreover have "shelf (insert j J) (chargeNewJob j s3) (ns @ [m])" using shelf_cong [of "chargeNewJob j s3" s3] calculation sh3 by simp
  moreover have "inv (insert j J) (chargeNewJob j s3)" unfolding ch by (rule e(1))
  moreover have "lists_ok (insert j J) (chargeNewJob j s3)" using lists_ok_frame [OF f] l3 by simp
  ultimately show "world (insert j J) (chargeNewJob j s3)" using f stage stage3 by (auto simp: world_def frame_def)
  show "status (chargeNewJob j s3) j = JOB_STAT_PEND" using e(2) st3 new by (simp add: ch frame_def new_job_def)
qed

lemma mild_announced: "mild s (announceNewJob j job et s) \<and> jv (announceNewJob j job et s) = jv s"
  using mild_trans [OF mild_trans] by (simp add: announceNewJob_def Let_def) (meson mild_call mild_trans)

lemma job_kinds: "JOB_NEW \<noteq> JOB_REPLAY"
  by (simp add: JOB_NEW_def JOB_REPLAY_def)

lemma handleNewJob_world:
  assumes "world J s" and "new_job J s j" and "new_node s m"
  shows "world (insert j J) (handleNewJob m j JOB_NEW et s)"
proof -
  define s3 where "s3 = upd_j j (\<lambda>x. x\<lparr>jFlags := jFlags x OR JFLAG_READY2\<rparr>) (putOntoTree m j (enterNewJob j s))"
  define s4 where "s4 = announceNewJob j JOB_NEW et (chargeNewJob j s3)"
  define s5 where "s5 = upd_j j (\<lambda>x. x\<lparr>newReason := PEND_USER_STOP\<rparr>) s4"
  note e = entered_world [OF assms s3_def]
  have w4: "world (insert j J) s4" unfolding s4_def using world_mild [OF e(1)] mild_announced by blast
  have m5: "mild s4 s5" unfolding s5_def by (rule mild_upd_j) (simp add: core_def)
  then have w5: "world (insert j J) s5" using world_mild [OF w4] by (simp add: s5_def jv_upd_j)
  have "status s4 j = JOB_STAT_PEND" using e(2) by (simp add: s4_def announceNewJob_def Let_def)
  then have "change_ok s5 j JOB_STAT_PSUSP (-1)"
    by (simp add: change_ok_def s5_def accounted_def stat_ok_def job_states_def stat_consts stat_flags has_def IS_PEND_def IS_START_def IS_FINISH_def jstate_def MASK_STATUS_def)
  moreover have "handleNewJob m j JOB_NEW et s =
    (if has (jb_options2 (bill s4 j)) SUB2_HOLD then jStatusChange j JOB_STAT_PSUSP (-1) s5 else s4)"
    using job_kinds by (simp add: handleNewJob_def Let_def s3_def [symmetric] s4_def [symmetric] s5_def [symmetric])
  ultimately show ?thesis using w4 world_change [OF w5, of j] by simp
qed

end
