(* ===== verification/Job_Exit.thy ===== *)
theory Job_Exit
  imports Job_Entry
begin

unbundle bit_operations_syntax

text \<open>
  Removal: a finished job leaves the lists, the table of identifiers and the
  tree; the record of an array goes with its last element.
\<close>

section \<open>One job less in the tree\<close>

lemma counts_without:
  assumes ok: "counts_ok J node stat t" and J: "nodes_ok J node t" and j: "j \<in> J"
    and z: "\<And>x i. counted (t x) \<Longrightarrow> i < NUM_JGRP_COUNTERS \<Longrightarrow> below t node x j \<Longrightarrow> stat_unit (stat j) i = 0"
  shows "counts_ok (J - {j}) node stat t" and "nodes_ok (J - {j}) node t"
proof -
  have fin: "finite J" using J by (simp add: nodes_ok_def)
  show "counts_ok (J - {j}) node stat t"
    unfolding counts_ok_def
  proof (intro allI impI)
    fix x i assume x: "counted (t x)" and i: "i < NUM_JGRP_COUNTERS"
    have "g_counts (t x) i = (\<Sum>k\<in>J. if below t node x k then stat_unit (stat k) i else 0)" using ok x i by (simp add: counts_ok_def)
    also have "\<dots> = (\<Sum>k\<in>J - {j}. if below t node x k then stat_unit (stat k) i else 0)"
      using z [OF x i] by (subst sum.remove [OF fin j]) auto
    finally show "g_counts (t x) i = (\<Sum>k\<in>J - {j}. if below t node x k then stat_unit (stat k) i else 0)" .
  qed
  show "nodes_ok (J - {j}) node t" using J by (auto simp: nodes_ok_def)
qed

lemma dels_flat: "n \<noteq> g \<Longrightarrow> dels n [flat g ns] = [flat g (filter (\<lambda>x. x \<noteq> n) ns)]"
proof -
  have "dels n (map (\<lambda>x. Node x []) ns) = map (\<lambda>x. Node x []) (filter (\<lambda>x. x \<noteq> n) ns)" by (induction ns) auto
  then show "n \<noteq> g \<Longrightarrow> ?thesis" by (simp add: flat_def)
qed

text \<open>Clipping a leaf below the root.\<close>

lemma clip_leaf:
  assumes gt: "group_tree J node stat (jgD h) g (flat g ns)" and root: "counted (jgD h g)" and n: "n \<in> set ns"
    and k: "node_kind J node (jgD h) n" and e: "depEntry h \<in> insert NULL (set (g # ns))"
  shows "\<exists>h'. treeClip node stat n h = Some h' \<and> group_tree J node stat (jgD h') g (flat g (filter (\<lambda>x. x \<noteq> n) ns)) \<and>
    depEntry h' \<in> insert NULL (set (g # filter (\<lambda>x. x \<noteq> n) ns)) \<and> groupRoot h' = groupRoot h \<and> g_parent (jgD h' n) = NULL"
proof -
  have ok: "tree_ok (jgD h) g (flat g ns)" using gt by (simp add: group_tree_def)
  note fc = flat_chain [OF ok]
  have ng: "n \<noteq> g" using n fc(4) by auto
  from treeClip_step [OF gt _ ng k fc(2) [OF n]] show ?thesis
    using n e root dels_flat [OF ng] by auto
qed

section \<open>Leaving an array\<close>

lemma offArrayLoop_elems:
  assumes "elems nxt a xs" and "j \<in> set xs"
  shows "\<exists>ys p zs. a # xs = ys @ p # j # zs \<and> offArrayLoop nxt j a = Some p"
  using assms
proof (induction xs arbitrary: a)
  case (Cons x xs)
  then have x: "nxt a = x" "x \<noteq> NULL" "elems nxt x xs" by simp_all
  show ?case
  proof (cases "x = j")
    case True
    then have "offArrayLoop nxt j a = Some a" using x by (simp add: offArrayLoop.simps [of nxt j a])
    then show ?thesis using True by (metis append_Nil)
  next
    case False
    then obtain ys p zs where "x # xs = ys @ p # j # zs" "offArrayLoop nxt j x = Some p" using Cons.IH [OF x(3)] Cons.prems(2) by auto
    moreover have "offArrayLoop nxt j a = offArrayLoop nxt j x" using x False by (simp add: offArrayLoop.simps [of nxt j a])
    ultimately show ?thesis by (metis append_Cons)
  qed
qed simp

lemma elems_skip:
  assumes "elems nxt a xs" and "a # xs = ys @ p # j # zs" and "distinct (a # xs)"
  shows "elems (nxt(p := nxt j)) a (remove1 j xs)" and "nxt p = j"
proof -
  have "elems (nxt(p := nxt j)) a (remove1 j xs) \<and> nxt p = j"
    using assms
  proof (induction ys arbitrary: a xs)
    case Nil
    then have xs: "a = p" "xs = j # zs" "nxt p = j" "elems nxt j zs" "p \<notin> set (j # zs)" by auto
    have "elems (nxt(p := nxt j)) p zs"
    proof (cases zs)
      case Nil
      then show ?thesis using xs(4) by simp
    next
      case (Cons z us)
      have "elems (nxt(p := nxt j)) z us = elems nxt z us" by (rule elems_cong) (use xs(5) Cons in auto)
      then show ?thesis using xs(4) Cons by simp
    qed
    then have "elems (nxt(p := nxt j)) a (remove1 j xs)" using xs(1,2) by simp
    then show ?case using xs(3) by blast
  next
    case (Cons y ys)
    then have y: "a = y" "xs = ys @ p # j # zs" by simp_all
    then obtain x us where xs: "xs = x # us" by (cases ys) auto
    have e: "nxt a = x" "x \<noteq> NULL" "elems nxt x us" and d: "distinct (x # us)" "a \<notin> set (x # us)" using Cons.prems(1,3) xs by auto
    note ih = Cons.IH [of x us, OF e(3) _ d(1)]
    have us: "x # us = ys @ p # j # zs" using y(2) xs by simp
    have xj: "x \<noteq> j"
    proof
      assume "x = j"
      then show False using y(2) xs d(1) by (cases ys) auto
    qed
    have "a \<noteq> p" using y(2) d(2) xs by auto
    moreover have r: "remove1 j xs = x # remove1 j us" using xs xj by simp
    moreover have "elems (nxt(p := nxt j)) x (remove1 j us)" "nxt p = j" using ih [OF us] by blast+
    ultimately show ?case using e(1,2) by (simp del: fun_upd_apply add: fun_upd_other)
  qed
  then show "elems (nxt(p := nxt j)) a (remove1 j xs)" "nxt p = j" by simp_all
qed

section \<open>Leaving the shelf\<close>

lemma shelf_leave:
  assumes sh: "shelf J s ns" and j: "j \<in> J" and n: "n = nodeOf s j"
    and sub: "set ns - {n} \<subseteq> set ns'" "set ns' \<subseteq> set ns"
    and root: "groupRoot (jg t) = groupRoot (jg s)" "depEntry (jg t) \<in> insert NULL (set (groupRoot (jg s) # ns'))"
    and tree: "tree_ok (jgD (jg t)) (groupRoot (jg s)) (flat (groupRoot (jg s)) ns')"
    and kinds: "\<And>x. kind (tnode t x) = kind (tnode s x)"
    and rec: "\<And>i. nodeOf t i = nodeOf s i" "\<And>i. jobId (jD t i) = jobId (jD s i)" "\<And>i. nodeType (jD t i) = nodeType (jD s i)"
      "\<And>i. nodeOf s i \<noteq> n \<Longrightarrow> nextJob (jD t i) = nextJob (jD s i)"
    and ht: "\<And>k. k \<noteq> j \<Longrightarrow> jobIdHT s (jobId (jD s k)) = Some k \<Longrightarrow> nodeOf s k \<noteq> n \<or> n \<in> set ns' \<Longrightarrow> jobIdHT t (jobId (jD s k)) = Some k"
    and kept: "n \<in> set ns' \<Longrightarrow> array_node (J - {j}) t n" and gone: "\<And>k. n \<notin> set ns' \<Longrightarrow> k \<in> J - {j} \<Longrightarrow> nodeOf s k \<noteq> n"
  shows "shelf (J - {j}) t ns'"
proof -
  have kj: "known s i" "nodeOf s i \<in> set ns" if "i \<in> J" for i using sh that by (auto simp: shelf_def)
  have kv: "g_nodeType (tnode t x) = g_nodeType (tnode s x)" "g_job (tnode t x) = g_job (tnode s x)"
    "g_jobArray (tnode t x) = g_jobArray (tnode s x)" for x
    using kind_views [OF kinds [of x]] by simp_all
  have known: "known t i \<and> nodeOf t i \<in> set ns'" if i: "i \<in> J - {j}" for i
  proof -
    have "nodeOf s i \<noteq> n \<or> n \<in> set ns'" using gone i by blast
    moreover have "jobIdHT s (jobId (jD s i)) = Some i" using kj(1) [of i] i by (simp add: known_def)
    ultimately have "jobIdHT t (jobId (jD s i)) = Some i" "nodeOf s i \<in> set ns'" using ht [of i] kj(2) [of i] i sub(1) by auto
    then show ?thesis using kj(1) [of i] i by (simp add: known_def rec)
  qed
  have nodes: "job_node (J - {j}) t m \<or> array_node (J - {j}) t m" if m: "m \<in> set ns'" for m
  proof (cases "m = n")
    case True
    then show ?thesis using kept m by simp
  next
    case False
    have "job_node J s m \<or> array_node J s m" using sh m sub(2) by (auto simp: shelf_def)
    then show ?thesis
    proof
      assume "job_node J s m"
      then have "job_node (J - {j}) t m" using False n by (auto simp: job_node_def kv rec(1))
      then show ?thesis ..
    next
      assume a: "array_node J s m"
      define a' where "a' = g_jobArray (tnode s m)"
      obtain xs where xs: "elems (\<lambda>j. nextJob (jD s j)) a' xs" "distinct xs" "xs \<noteq> []" "set xs = {j \<in> J. nodeOf s j = m}"
        and a': "a' \<notin> J" "a' \<noteq> NULL" "nodeType (jD s a') = JGRP_NODE_ARRAY" "nodeOf s a' = m" "jobIdHT s (jobId (jD s a')) = Some a'"
        using a by (auto simp: array_node_def Let_def a'_def)
      have "nodeOf s x \<noteq> n" if "x \<in> insert a' (set xs)" for x using that xs(4) a'(4) False by auto
      then have "elems (\<lambda>j. nextJob (jD t j)) a' xs = elems (\<lambda>j. nextJob (jD s j)) a' xs"
        by (intro elems_cong rec(4)) blast
      moreover have "{i \<in> J - {j}. nodeOf t i = m} = {i \<in> J. nodeOf s i = m}" using False n rec(1) by auto
      moreover have "jobIdHT t (jobId (jD t a')) = Some a'" using a' j ht [of a'] False rec(2) by auto
      ultimately have "array_node (J - {j}) t m"
        using a xs a' by (auto simp: array_node_def Let_def a'_def kv rec(1,3))
      then show ?thesis ..
    qed
  qed
  have "g_nodeType (tnode t (groupRoot (jg s))) = JGRP_NODE_GROUP" using sh by (simp add: shelf_def kv)
  then show ?thesis using known nodes tree root by (auto simp: shelf_def)
qed

section \<open>The books and the lists with one job less\<close>

lemma total_without: "finite J \<Longrightarrow> j \<in> J \<Longrightarrow> c j = 0 \<Longrightarrow> total (J - {j}) w c = total J w c"
  by (auto simp: total_def fun_eq_iff sum.remove [of J j] cscale_zero)

lemma inv_without:
  assumes i: "inv J s" and j: "j \<in> J" and fin: "finished (status s j)"
  shows "inv (J - {j}) s"
proof -
  have z: "jcn s j = 0" "scn s j = 0" using fin by (simp_all add: finished_def jcn_def scn_def job_cnts_def slot_cnts_def stat_preds)
  have "finite J" using i by (simp add: inv_def jobs_ok_def)
  then show ?thesis using i total_without [OF _ j, of "jcn s"] total_without [OF _ j, of "scn s"] z
    by (simp add: inv_def jobs_ok_def books_def books_with_def)
qed

lemma removeZombies_keeps:
  "calm s (removeZombies jid s) \<and> jv (removeZombies jid s) = jv s \<and> jD (removeZombies jid s) = jD s \<and>
   (\<forall>l. l \<noteq> ZJL \<longrightarrow> jDataList (removeZombies jid s) l = jDataList s l) \<and>
   (distinct (jDataList s ZJL) \<longrightarrow> distinct (jDataList (removeZombies jid s) ZJL))"
proof (induction jid s rule: removeZombies.induct)
  case (1 jid s)
  show ?case
  proof (cases "getZombieJob jid s")
    case None
    then show ?thesis by (simp add: removeZombies.simps [of jid s])
  next
    case (Some zp)
    define s1 where "s1 = call (Call_freeJData zp) ((call (Call_closeSbdConnect4ZombieJob zp) s)
      \<lparr>jDataList := (jDataList s)(ZJL := remove1 zp (jDataList s ZJL))\<rparr>)"
    have "calm s s1" by (simp add: s1_def calm_def same_cnts_def proj_defs)
    moreover have "jv s1 = jv s" "jD s1 = jD s" by (simp_all add: s1_def)
    moreover have "removeZombies jid s = removeZombies jid s1" using Some by (simp add: removeZombies.simps [of jid s] s1_def)
    moreover have "\<forall>l. l \<noteq> ZJL \<longrightarrow> jDataList s1 l = jDataList s l" "distinct (jDataList s ZJL) \<longrightarrow> distinct (jDataList s1 ZJL)"
      by (simp_all add: s1_def)
    ultimately show ?thesis using "1.IH" [OF Some, folded s1_def] calm_trans by metis
  qed
qed

section \<open>The node of the job\<close>

lemma calm_tree_fields: "calm s (s\<lparr>jg := g\<rparr>)" "calm s (s\<lparr>jobIdHT := h\<rparr>)" "calm s (s\<lparr>died := d\<rparr>)"
  "calm s (s\<lparr>numRemoveJobs := k\<rparr>)"
  by (simp_all add: calm_def same_cnts_def proj_defs)

text \<open>Records that agree up to the links between array elements.\<close>

definition same_recs :: "mbd \<Rightarrow> mbd \<Rightarrow> bool" where
  "same_recs s t \<longleftrightarrow> calm s t \<and> jDataList t = jDataList s \<and>
     (\<forall>i. (jD t i)\<lparr>nextJob := NULL\<rparr> = (jD s i)\<lparr>nextJob := NULL\<rparr>)"

lemma same_recs_refl [simp]: "same_recs s s"
  by (simp add: same_recs_def)

lemma same_recs_trans: "same_recs s t \<Longrightarrow> same_recs t u \<Longrightarrow> same_recs s u"
  unfolding same_recs_def using calm_trans by metis

lemma same_recs_views:
  assumes "same_recs s t"
  shows "nodeOf t i = nodeOf s i" "jobId (jD t i) = jobId (jD s i)" "nodeType (jD t i) = nodeType (jD s i)" "status t i = status s i"
proof -
  have "(jD t i)\<lparr>nextJob := NULL\<rparr> = (jD s i)\<lparr>nextJob := NULL\<rparr>" using assms by (simp add: same_recs_def)
  then show "nodeOf t i = nodeOf s i" "jobId (jD t i) = jobId (jD s i)" "nodeType (jD t i) = nodeType (jD s i)" "status t i = status s i"
    by (cases "jD t i"; cases "jD s i"; auto)+
qed

lemma same_recs_intros [simp]:
  "same_recs s (call c s)" "same_recs s (s\<lparr>jg := g\<rparr>)" "same_recs s (s\<lparr>jobIdHT := h\<rparr>)" "same_recs s (s\<lparr>died := d\<rparr>)"
  "same_recs s (upd_j p (\<lambda>x. x\<lparr>nextJob := y\<rparr>) s)"
  by (simp_all add: same_recs_def calm_def same_cnts_def proj_defs core_def)

lemma same_recs_clipJgrp [simp]: "same_recs s (clipJgrp n s)"
  by (simp add: clipJgrp_def split: option.splits)

text \<open>An element leaves its array.\<close>

lemma offArray_step:
  assumes cnt: "counts_ok J (\<lambda>i. nodeOf s i) (status s) (jgD (jg s))" "nodes_ok J (\<lambda>i. nodeOf s i) (jgD (jg s))"
    and n: "n = nodeOf s j" "n \<noteq> NULL" "g_nodeType (tnode s n) = JGRP_NODE_ARRAY" and j: "j \<in> J"
    and xs: "elems (\<lambda>i. nextJob (jD s i)) (g_jobArray (tnode s n)) xs" "distinct (g_jobArray (tnode s n) # xs)" "j \<in> set xs"
  shows "\<exists>t p. offArray j s = (upd_j p (\<lambda>x. x\<lparr>nextJob := nextJob (jD s j)\<rparr>) s)\<lparr>jg := (jg s)\<lparr>jgD := t\<rparr>\<rparr> \<and>
    p \<in> set (g_jobArray (tnode s n) # xs) \<and>
    elems (\<lambda>i. nextJob (jD (upd_j p (\<lambda>x. x\<lparr>nextJob := nextJob (jD s j)\<rparr>) s) i)) (g_jobArray (tnode s n)) (remove1 j xs) \<and>
    counts_ok (J - {j}) (\<lambda>i. nodeOf s i) (status s) t \<and> nodes_ok (J - {j}) (\<lambda>i. nodeOf s i) t \<and> (\<forall>x. bare (t x) = bare (tnode s x))"
proof -
  let ?a = "g_jobArray (tnode s n)" and ?nxt = "\<lambda>i. nextJob (jD s i)" and ?node = "\<lambda>i. nodeOf s i"
  obtain ys p zs where p: "?a # xs = ys @ p # j # zs" "offArrayLoop ?nxt j ?a = Some p"
    using offArrayLoop_elems [OF xs(1,3)] by blast
  have pj: "?nxt p = j" and el: "elems (?nxt(p := ?nxt j)) ?a (remove1 j xs)"
    using elems_skip [OF xs(1) p(1) xs(2)] by simp_all
  have jn: "j \<noteq> NULL"
  proof -
    have "x \<noteq> NULL" if "elems f b us" "x \<in> set us" for f b us x using that by (induction f b us rule: elems.induct) auto
    then show ?thesis using xs(1,3) by blast
  qed
  define s1 where "s1 = upd_j p (\<lambda>x. x\<lparr>nextJob := nextJob (jD s j)\<rparr>) s"
  have v1: "?node = (\<lambda>i. nodeOf s1 i)" "status s1 = status s" "jg s1 = jg s" by (auto simp: s1_def fun_eq_iff)
  obtain t where t: "updJgrpCountByJStatus (?node j) (status s j) JOB_STAT_NULL (jgD (jg s)) = Some t"
    "counts_ok J ?node ((status s)(j := JOB_STAT_NULL)) t" "nodes_ok J ?node t"
    by (rule updJgrpCountByJStatus_counts [OF cnt j])
  have "upd_j p (\<lambda>x. x\<lparr>nextJob := nextJob (jD s (nextJob x))\<rparr>) s = s1" using pj by (simp add: s1_def upd_j_def)
  then have "offArray j s = countJgrp j (status s1 j) JOB_STAT_NULL s1"
    unfolding offArray_def Let_def n(1) [symmetric] p(2) using n(2,3) pj jn by (simp del: upd_j_fields)
  also have "\<dots> = s1\<lparr>jg := (jg s)\<lparr>jgD := t\<rparr>\<rparr>"
    using t(1) fun_cong [OF v1(1), of j] fun_cong [OF v1(2), of j] v1(3) by (simp add: countJgrp_def)
  finally have off: "offArray j s = s1\<lparr>jg := (jg s)\<lparr>jgD := t\<rparr>\<rparr>" .
  have "counts_ok (J - {j}) ?node ((status s)(j := JOB_STAT_NULL)) t" "nodes_ok (J - {j}) ?node t"
    using counts_without [OF t(2,3) j] by (simp_all add: stat_unit_def)
  moreover have "counts_ok (J - {j}) ?node ((status s)(j := JOB_STAT_NULL)) t = counts_ok (J - {j}) ?node (status s) t"
    by (rule counts_ok_cong) simp
  moreover have "(\<lambda>i. nextJob (jD s1 i)) = ?nxt(p := ?nxt j)" by (auto simp: s1_def fun_eq_iff)
  moreover from this el have "elems (\<lambda>i. nextJob (jD s1 i)) ?a (remove1 j xs)" by (simp only:)
  moreover have "p \<in> set (?a # xs)" unfolding p(1) by simp
  ultimately show ?thesis using off updJgrpCountByJStatus_bare [OF t(1)] unfolding s1_def by blast
qed

text \<open>The counter \<open>NJOBS\<close> of an array is the number of its elements.\<close>

lemma array_count:
  assumes c: "counts_ok J node stat t" and ok: "tree_ok t g (flat g ns)" and nd: "\<And>i. i \<in> J \<Longrightarrow> node i \<in> set ns"
    and st: "\<And>i. i \<in> J \<Longrightarrow> stat i \<noteq> JOB_STAT_NULL" and n: "counted (t n)" "n \<noteq> g" and fin: "finite J"
  shows "g_counts (t n) JGRP_COUNT_NJOBS = int (card {i \<in> J. node i = n})"
proof -
  have b: "below t node n i \<longleftrightarrow> node i = n" if "i \<in> J" for i
    using below_chain [of t node i, OF flat_chain(2) [OF ok nd [OF that]]] n(2) by auto
  have "JGRP_COUNT_NJOBS < NUM_JGRP_COUNTERS" by (simp add: jgrp_consts)
  then have "g_counts (t n) JGRP_COUNT_NJOBS = (\<Sum>i\<in>J. if below t node n i then stat_unit (stat i) JGRP_COUNT_NJOBS else 0)"
    using c n(1) unfolding counts_ok_def by blast
  also have "\<dots> = (\<Sum>i\<in>J. if node i = n then 1 else 0)" by (rule sum.cong) (simp_all add: b st stat_unit_def)
  also have "\<dots> = int (card {i \<in> J. node i = n})" using fin by (simp add: sum.If_cases Int_def)
  finally show ?thesis .
qed

section \<open>Removing a job\<close>

text \<open>The part of \<open>removeJob\<close> before the node is dealt with.\<close>

definition offLists :: "addr \<Rightarrow> mbd \<Rightarrow> mbd" where
  "offLists jp s =
     (let s = removeZombies (jobId (jD s jp)) s;
          s = s\<lparr>jobIdHT := (jobIdHT s)(jobId (jD s jp) := None)\<rparr>;
          s = offJobList jp FJL s;
          s = s\<lparr>numRemoveJobs := numRemoveJobs s + 1\<rparr>
      in if mSchedStage s \<noteq> M_STAGE_REPLAY then call (Call_log_jobclean jp) s else s)"

lemma removeJob_unfold:
  assumes "getJobData jid s = j" and "j \<noteq> NULL" and "nodeType (jD s j) \<noteq> JGRP_NODE_ARRAY"
  shows "removeJob jid s = call (Call_freeJData j) (removeNode j (offLists j s))"
  using assms by (simp add: removeJob_def offLists_def Let_def)

lemma offLists_facts:
  assumes t: "t = offLists j s"
  shows "calm s t" and "jg t = jg s" and "jobIdHT t = (jobIdHT s)(jobId (jD s j) := None)" and "jD t = jD s"
    and "l \<noteq> ZJL \<Longrightarrow> jDataList t l = remove1 j (jDataList s l)" and "distinct_lists s \<Longrightarrow> distinct_lists t"
proof -
  define s1 where "s1 = removeZombies (jobId (jD s j)) s"
  define s2 where "s2 = s1\<lparr>jobIdHT := (jobIdHT s1)(jobId (jD s1 j) := None)\<rparr>"
  define s3 where "s3 = (offJobList j FJL s2)\<lparr>numRemoveJobs := numRemoveJobs (offJobList j FJL s2) + 1\<rparr>"
  note z = removeZombies_keeps [of s "jobId (jD s j)", folded s1_def]
  have z': "jg s1 = jg s" "jobIdHT s1 = jobIdHT s" "jobId (jD s1 j) = jobId (jD s j)" "jD s1 = jD s"
    using z by (simp_all add: jv_def)
  have t3: "t = (if mSchedStage s3 \<noteq> M_STAGE_REPLAY then call (Call_log_jobclean j) s3 else s3)"
    by (simp only: t offLists_def Let_def s1_def s2_def s3_def)
  have "calm s1 s2" "calm s2 (offJobList j FJL s2)" "calm (offJobList j FJL s2) s3" "calm s3 t"
    unfolding t3 using calm_offJobList by (simp_all add: s2_def s3_def calm_tree_fields)
  then show "calm s t" using z calm_trans by meson
  show "jg t = jg s" "jobIdHT t = (jobIdHT s)(jobId (jD s j) := None)" "jD t = jD s"
    using z' by (simp_all add: t3 s3_def s2_def offJobList_def Let_def)
  show "jDataList t l = remove1 j (jDataList s l)" if "l \<noteq> ZJL"
    using z that by (simp add: t3 s3_def s2_def offJobList_def Let_def)
  show "distinct_lists t" if "distinct_lists s"
  proof -
    have "distinct (jDataList s1 l)" for l using z that by (cases "l = ZJL") (simp_all add: distinct_lists_def)
    then show ?thesis by (simp add: distinct_lists_def t3 s3_def s2_def offJobList_def Let_def)
  qed
qed

text \<open>The state that \<open>removeNode\<close> finds.\<close>

definition unlisted :: "addr \<Rightarrow> mbd \<Rightarrow> mbd \<Rightarrow> bool" where
  "unlisted j s s1 \<longleftrightarrow> jg s1 = jg s \<and> jobIdHT s1 = (jobIdHT s)(jobId (jD s j) := None) \<and> jD s1 = jD s"

lemma unlisted_ht:
  assumes "unlisted j s s1" and "known s j" and "k \<noteq> j" and "jobIdHT s (jobId (jD s k)) = Some k"
  shows "jobIdHT s1 (jobId (jD s k)) = Some k" and "jobId (jD s k) \<noteq> jobId (jD s j)"
  using assms by (auto simp: unlisted_def known_def)

lemma removeNode_job:
  assumes g: "groups_ok J s" and sh: "shelf J s ns" and j: "j \<in> J" and n: "n = nodeOf s j" "job_node J s n"
    and u: "unlisted j s s1"
  shows "\<exists>ns'. same_recs s1 (removeNode j s1) \<and> shelf (J - {j}) (removeNode j s1) ns' \<and>
    counts_ok (J - {j}) (\<lambda>i. nodeOf s i) (status s) (jgD (jg (removeNode j s1))) \<and>
    nodes_ok (J - {j}) (\<lambda>i. nodeOf s i) (jgD (jg (removeNode j s1)))"
proof -
  let ?g = "groupRoot (jg s)" and ?node = "\<lambda>i. nodeOf s i"
  have gj: "g_job (tnode s n) = j" "g_nodeType (tnode s n) = JGRP_NODE_JOB" and only: "\<And>k. k \<in> J - {j} \<Longrightarrow> nodeOf s k \<noteq> n"
    using n j by (auto simp: job_node_def)
  have ok: "tree_ok (jgD (jg s)) ?g (flat ?g ns)" and root: "counted (tnode s ?g)" and nn: "n \<in> set ns" and kn: "known s j"
    and e: "depEntry (jg s) \<in> insert NULL (set (?g # ns))" and inns: "\<And>k. k \<in> J \<Longrightarrow> nodeOf s k \<in> set ns"
    using sh j n(1) by (auto simp: shelf_def counted_def)
  note fc = flat_chain [OF ok]
  have ng: "n \<noteq> ?g" "n \<noteq> NULL" using nn fc(4) fc(2) [OF nn] by (auto simp: chain_simps)
  have "below (jgD (jg s)) ?node n k \<longleftrightarrow> nodeOf s k = n" if "k \<in> J" for k
    using below_chain [of "jgD (jg s)" ?node k, OF fc(2) [OF inns [OF that]]] ng by auto
  then have k: "node_kind J ?node (jgD (jg s)) n" unfolding node_kind_def gj using only j n(1) by auto
  obtain h where h: "treeClip ?node (status s) n (jg s) = Some h" "group_tree J ?node (status s) (jgD h) ?g (flat ?g (filter (\<lambda>x. x \<noteq> n) ns))"
    "depEntry h \<in> insert NULL (set (?g # filter (\<lambda>x. x \<noteq> n) ns))" "groupRoot h = ?g" "g_parent (jgD h n) = NULL"
    using clip_leaf [OF flat_group_tree [OF g sh] root nn k e] by blast
  define t where "t = removeNode j s1"
  have t: "t = call (Call_treeFree n) ((call (Call_rmLogJobInfo j) s1)\<lparr>jg := h\<rparr>)"
    using n(1) ng gj(2) h(1) u
    by (simp add: t_def removeNode_def Let_def unlisted_def clipJgrp_def JGRP_NODE_JOB_def JGRP_NODE_ARRAY_def)
  have kd: "kind (jgD h x) = kind (tnode s x)" for x using treeClip_kind(1) [OF h(1)] .
  have "chain (jgD h) n [n]" using h(5) ng(2) by (simp add: chain_simps chain_nil)
  then have bj: "below (jgD h) ?node x j \<longleftrightarrow> x = n" for x using below_chain [of "jgD h" ?node j "[n]" x] n(1) by simp
  have "\<not> counted (jgD h n)" using kind_views [OF kd [of n]] gj(2)
    by (simp add: counted_def JGRP_NODE_JOB_def JGRP_NODE_GROUP_def JGRP_NODE_ARRAY_def)
  then have c: "counts_ok (J - {j}) ?node (status s) (jgD h)" "nodes_ok (J - {j}) ?node (jgD h)"
    using counts_without [of J ?node "status s" "jgD h" j] h(2) j bj by (auto simp: group_tree_def)
  have "shelf (J - {j}) t (filter (\<lambda>x. x \<noteq> n) ns)"
  proof (rule shelf_leave [OF sh j n(1)])
    show "kind (tnode t x) = kind (tnode s x)" for x using kd by (simp add: t)
    show "tree_ok (jgD (jg t)) ?g (flat ?g (filter (\<lambda>x. x \<noteq> n) ns))" using h(2) by (simp add: t group_tree_def)
    show "jobIdHT t (jobId (jD s k)) = Some k" if "k \<noteq> j" "jobIdHT s (jobId (jD s k)) = Some k" for k
      using unlisted_ht(1) [OF u kn that] by (simp add: t)
  qed (use only h(3,4) u in \<open>auto simp: t unlisted_def\<close>)
  moreover have "same_recs s1 t" unfolding t
    using same_recs_trans [OF same_recs_trans [OF same_recs_intros(1) same_recs_intros(2)] same_recs_intros(1)] .
  ultimately show ?thesis using c unfolding t_def [symmetric] by (intro exI [of _ "filter (\<lambda>x. x \<noteq> n) ns"]) (simp add: t)
qed

text \<open>What holds once an element has left its array and before an empty array goes.\<close>

definition left_array :: "addr set \<Rightarrow> mbd \<Rightarrow> addr \<Rightarrow> mbd \<Rightarrow> bool" where
  "left_array J s j t \<longleftrightarrow>
     (let n = nodeOf s j; els = {i \<in> J - {j}. nodeOf s i = n}
      in groupRoot (jg t) = groupRoot (jg s) \<and> depEntry (jg t) = depEntry (jg s) \<and>
         jobIdHT t = (jobIdHT s)(jobId (jD s j) := None) \<and> (\<forall>x. bare (tnode t x) = bare (tnode s x)) \<and>
         (\<forall>i. nodeOf t i = nodeOf s i \<and> jobId (jD t i) = jobId (jD s i) \<and> nodeType (jD t i) = nodeType (jD s i) \<and> status t i = status s i) \<and>
         (\<forall>i. nodeOf s i \<noteq> n \<longrightarrow> nextJob (jD t i) = nextJob (jD s i)) \<and>
         (\<exists>xs. elems (\<lambda>i. nextJob (jD t i)) (g_jobArray (tnode s n)) xs \<and> distinct xs \<and> set xs = els) \<and>
         counts_ok (J - {j}) (\<lambda>i. nodeOf s i) (status s) (jgD (jg t)) \<and> nodes_ok (J - {j}) (\<lambda>i. nodeOf s i) (jgD (jg t)) \<and>
         g_counts (tnode t n) JGRP_COUNT_NJOBS = int (card els))"

lemma shelf_views:
  assumes "shelf J s ns" and "j \<in> J" and "n = nodeOf s j" and "g = groupRoot (jg s)"
  shows "tree_ok (jgD (jg s)) g (flat g ns)" "counted (tnode s g)" "n \<in> set ns" "known s j"
    "depEntry (jg s) \<in> insert NULL (set (g # ns))" "\<And>k. k \<in> J \<Longrightarrow> nodeOf s k \<in> set ns" "n \<noteq> g" "n \<noteq> NULL"
proof -
  show v: "tree_ok (jgD (jg s)) g (flat g ns)" "counted (tnode s g)" "n \<in> set ns" "known s j"
    "depEntry (jg s) \<in> insert NULL (set (g # ns))" "\<And>k. k \<in> J \<Longrightarrow> nodeOf s k \<in> set ns"
    using assms by (auto simp: shelf_def counted_def)
  show "n \<noteq> g" "n \<noteq> NULL" using v(3) flat_chain(4) [OF v(1)] flat_chain(2) [OF v(1) v(3)] by (auto simp: chain_simps)
qed

lemma bare_tree: "(\<And>x. bare (t x) = bare (u x)) \<Longrightarrow> tree_ok t g r = tree_ok u g r"
  using sibs_cong [of "[r]" t u] by (simp add: bare_eq tree_ok_def)

lemma bare_counted: "bare m = bare n \<Longrightarrow> counted m = counted n"
  using kind_views [of m n] by (simp add: bare_eq counted_def)

lemma offArray_left:
  assumes g: "groups_ok J s" and sh: "shelf J s ns" and j: "j \<in> J" and n: "n = nodeOf s j" "array_node J s n"
    and u: "unlisted j s s1"
  shows "left_array J s j (offArray j s1)" and "same_recs s1 (offArray j s1)"
proof -
  let ?node = "\<lambda>i. nodeOf s i" and ?J = "J - {j}"
  define a where "a = g_jobArray (tnode s n)"
  obtain xs where xs: "elems (\<lambda>j. nextJob (jD s j)) a xs" "distinct xs" "set xs = {j \<in> J. nodeOf s j = n}"
    and a: "a \<notin> J" "nodeOf s a = n" and ty: "g_nodeType (tnode s n) = JGRP_NODE_ARRAY"
    using n(2) by (auto simp: array_node_def Let_def a_def)
  note v = shelf_views [OF sh j n(1) refl]
  have s1: "jg s1 = jg s" "jD s1 = jD s" using u by (simp_all add: unlisted_def)
  have gok: "counts_ok J ?node (status s) (jgD (jg s))" "nodes_ok J ?node (jgD (jg s))"
    and st: "\<And>i. i \<in> J \<Longrightarrow> status s i \<noteq> JOB_STAT_NULL" and fin: "finite J"
    using g jstate_nonzero by (auto simp: groups_ok_def nodes_ok_def)
  obtain t p where off: "offArray j s1 = (upd_j p (\<lambda>x. x\<lparr>nextJob := nextJob (jD s1 j)\<rparr>) s1)\<lparr>jg := (jg s1)\<lparr>jgD := t\<rparr>\<rparr>"
    and p: "p \<in> set (a # xs)" and el: "elems (\<lambda>i. nextJob (jD (upd_j p (\<lambda>x. x\<lparr>nextJob := nextJob (jD s1 j)\<rparr>) s1) i)) a (remove1 j xs)"
    and c: "counts_ok ?J ?node (status s) t" "nodes_ok ?J ?node t" and bare: "\<And>x. bare (t x) = bare (tnode s x)"
    using offArray_step [of J s1 n j xs] gok n(1) v(8) ty j xs a(1) s1 by (auto simp: a_def)
  define s2 where "s2 = offArray j s1"
  show r2: "same_recs s1 (offArray j s1)" unfolding off using same_recs_trans [OF same_recs_intros(5) same_recs_intros(2)] .
  have nx: "nextJob (jD s2 i) = nextJob (jD s i)" if "nodeOf s i \<noteq> n" for i
  proof -
    have "i \<noteq> p" using p that a(2) xs(3) by auto
    then show ?thesis by (simp add: s2_def off s1)
  qed
  have cn: "counted (t n)" using bare_counted [OF bare] ty by (simp add: counted_def)
  have cnt: "g_counts (t n) JGRP_COUNT_NJOBS = int (card {i \<in> ?J. nodeOf s i = n})"
    by (rule array_count [OF c(1) _ v(6) st _ v(7)]) (use v(1) cn bare_tree [OF bare] fin in simp_all)
  have "\<exists>xs. elems (\<lambda>i. nextJob (jD s2 i)) a xs \<and> distinct xs \<and> set xs = {i \<in> ?J. nodeOf s i = n}"
    using el xs(2,3) by (intro exI [of _ "remove1 j xs"]) (auto simp: s2_def off)
  then show "left_array J s j (offArray j s1)"
    using c bare cnt nx same_recs_views [OF r2] s1 u unfolding s2_def [symmetric] left_array_def Let_def n(1) [symmetric] a_def
    by (auto simp: s2_def off unlisted_def)
qed

lemma left_views:
  assumes "left_array J s j t"
  shows "groupRoot (jg t) = groupRoot (jg s)" "depEntry (jg t) = depEntry (jg s)"
    "jobIdHT t = (jobIdHT s)(jobId (jD s j) := None)" "bare (tnode t x) = bare (tnode s x)"
    "nodeOf t i = nodeOf s i" "jobId (jD t i) = jobId (jD s i)" "nodeType (jD t i) = nodeType (jD s i)" "status t i = status s i"
    "nodeOf s i \<noteq> nodeOf s j \<Longrightarrow> nextJob (jD t i) = nextJob (jD s i)"
    "\<exists>xs. elems (\<lambda>i. nextJob (jD t i)) (g_jobArray (tnode s (nodeOf s j))) xs \<and> distinct xs \<and> set xs = {i \<in> J - {j}. nodeOf s i = nodeOf s j}"
    "counts_ok (J - {j}) (\<lambda>i. nodeOf s i) (status s) (jgD (jg t))" "nodes_ok (J - {j}) (\<lambda>i. nodeOf s i) (jgD (jg t))"
    "g_counts (tnode t (nodeOf s j)) JGRP_COUNT_NJOBS = int (card {i \<in> J - {j}. nodeOf s i = nodeOf s j})"
  using assms by (simp_all add: left_array_def Let_def)

lemma left_keeps:
  assumes sh: "shelf J s ns" and j: "j \<in> J" and n: "n = nodeOf s j" "array_node J s n" and l: "left_array J s j t"
    and els: "{i \<in> J - {j}. nodeOf s i = n} \<noteq> {}"
  shows "shelf (J - {j}) t ns"
proof (rule shelf_leave [OF sh j n(1)])
  note v = shelf_views [OF sh j n(1) refl] and lv = left_views [OF l, folded n(1)]
  show k: "kind (tnode t x) = kind (tnode s x)" for x using lv(4) by (simp add: bare_eq)
  show "tree_ok (jgD (jg t)) (groupRoot (jg s)) (flat (groupRoot (jg s)) ns)" unfolding bare_tree [OF lv(4)] by (rule v(1))
  show ht: "jobIdHT t (jobId (jD s k)) = Some k" if "k \<noteq> j" "jobIdHT s (jobId (jD s k)) = Some k" for k
  proof -
    have "jobId (jD s k) \<noteq> jobId (jD s j)" using that v(4) by (auto simp: known_def)
    then show ?thesis using that(2) lv(3) by simp
  qed
  let ?a = "g_jobArray (tnode s n)"
  obtain xs where xs: "elems (\<lambda>i. nextJob (jD t i)) ?a xs" "distinct xs" "set xs = {i \<in> J - {j}. nodeOf s i = n}"
    using lv(10) by blast
  have a: "?a \<notin> J" "?a \<noteq> NULL" "nodeType (jD s ?a) = JGRP_NODE_ARRAY" "nodeOf s ?a = n" "jobIdHT s (jobId (jD s ?a)) = Some ?a"
    and ty: "g_nodeType (tnode s n) = JGRP_NODE_ARRAY" using n(2) unfolding array_node_def Let_def by blast+
  have "set xs \<noteq> {}" unfolding xs(3) by (rule els)
  then have xn: "xs \<noteq> []" by auto
  have "?a \<noteq> j" using a(1) j by blast
  then have hta: "jobIdHT t (jobId (jD s ?a)) = Some ?a" using a(5) by (rule ht)
  have kv: "g_nodeType (tnode t n) = JGRP_NODE_ARRAY" "g_jobArray (tnode t n) = ?a" using kind_views [OF k [of n]] ty by simp_all
  have aJ: "?a \<notin> J - {j}" using a(1) by blast
  show "array_node (J - {j}) t n"
    unfolding array_node_def Let_def lv(5-7) kv(2) by (intro conjI exI [of _ xs]) (fact kv aJ a hta xs xn)+
  show "nodeOf t i = nodeOf s i" "jobId (jD t i) = jobId (jD s i)" "nodeType (jD t i) = nodeType (jD s i)"
    "nodeOf s i \<noteq> n \<Longrightarrow> nextJob (jD t i) = nextJob (jD s i)" for i by (rule lv)+
  show "groupRoot (jg t) = groupRoot (jg s)" "depEntry (jg t) \<in> insert NULL (set (groupRoot (jg s) # ns))" using lv(1,2) v(5) by simp_all
  show "set ns - {n} \<subseteq> set ns" "set ns \<subseteq> set ns" by auto
  show "\<And>k. n \<notin> set ns \<Longrightarrow> k \<in> J - {j} \<Longrightarrow> nodeOf s k \<noteq> n" using v(3) by blast
qed

lemma left_clips:
  assumes sh: "shelf J s ns" and j: "j \<in> J" and n: "n = nodeOf s j" "array_node J s n" and l: "left_array J s j t"
    and els: "{i \<in> J - {j}. nodeOf s i = n} = {}"
    and u: "jg u = jg t" "jD u = jD t" "jobIdHT u = (jobIdHT t)(jobId (jD s (g_jobArray (tnode s n))) := None)"
  shows "\<exists>ns'. shelf (J - {j}) (clipJgrp n u) ns' \<and>
    counts_ok (J - {j}) (\<lambda>i. nodeOf s i) (status s) (jgD (jg (clipJgrp n u))) \<and>
    nodes_ok (J - {j}) (\<lambda>i. nodeOf s i) (jgD (jg (clipJgrp n u)))"
proof -
  let ?g = "groupRoot (jg s)" and ?node = "\<lambda>i. nodeOf s i" and ?ns = "filter (\<lambda>x. x \<noteq> n) ns"
  note v = shelf_views [OF sh j n(1) refl] and lv = left_views [OF l, folded n(1)]
  note b = lv(4)
  have eqs: "(\<lambda>i. nodeOf u i) = ?node" "status u = status s" using lv(5,8) u(2) by (auto simp: fun_eq_iff)
  have gt: "group_tree (J - {j}) ?node (status s) (jgD (jg t)) ?g (flat ?g ns)"
    using lv(11,12) v(1) bare_tree [OF b] by (simp add: group_tree_def)
  have cn: "counted (tnode t n)" using n(2) bare_counted [OF b, of n] by (simp add: array_node_def counted_def)
  have cg: "counted (tnode t ?g)" using v(2) bare_counted [OF b, of ?g] by simp
  have k: "node_kind (J - {j}) ?node (jgD (jg t)) n" using cn by (simp add: node_kind_def)
  have e: "depEntry (jg t) \<in> insert NULL (set (?g # ns))" and cg': "groupRoot (jg t) = ?g" using v(5) lv(1,2) by simp_all
  obtain h where h: "treeClip ?node (status s) n (jg t) = Some h" "group_tree (J - {j}) ?node (status s) (jgD h) ?g (flat ?g ?ns)"
    "depEntry h \<in> insert NULL (set (?g # ?ns))" "groupRoot h = ?g"
    using clip_leaf [OF gt cg v(3) k e] cg by (auto simp: cg')
  have eq: "clipJgrp n u = u\<lparr>jg := h\<rparr>" using h(1) u(1) eqs by (simp add: clipJgrp_def)
  have a: "jobIdHT s (jobId (jD s (g_jobArray (tnode s n)))) = Some (g_jobArray (tnode s n))" "nodeOf s (g_jobArray (tnode s n)) = n"
    using n(2) unfolding array_node_def Let_def by blast+
  have "shelf (J - {j}) (u\<lparr>jg := h\<rparr>) ?ns"
  proof (rule shelf_leave [OF sh j n(1)])
    show "kind (tnode (u\<lparr>jg := h\<rparr>) x) = kind (tnode s x)" for x using treeClip_kind(1) [OF h(1), of x] b [of x] by (simp add: bare_eq)
    show "tree_ok (jgD (jg (u\<lparr>jg := h\<rparr>))) ?g (flat ?g ?ns)" using h(2) by (simp add: group_tree_def)
    show "jobIdHT (u\<lparr>jg := h\<rparr>) (jobId (jD s k)) = Some k"
      if k: "k \<noteq> j" "jobIdHT s (jobId (jD s k)) = Some k" "nodeOf s k \<noteq> n \<or> n \<in> set ?ns" for k
    proof -
      have "jobId (jD s k) \<noteq> jobId (jD s j)" using k v(4) by (auto simp: known_def)
      moreover have "jobId (jD s k) \<noteq> jobId (jD s (g_jobArray (tnode s n)))" using a k(2,3) by auto
      ultimately show ?thesis using k(2) lv(3) u(3) by simp
    qed
    show "nodeOf s k \<noteq> n" if "k \<in> J - {j}" for k using els that by blast
    show "nodeOf (u\<lparr>jg := h\<rparr>) i = nodeOf s i" "jobId (jD (u\<lparr>jg := h\<rparr>) i) = jobId (jD s i)"
      "nodeType (jD (u\<lparr>jg := h\<rparr>) i) = nodeType (jD s i)"
      "nodeOf s i \<noteq> n \<Longrightarrow> nextJob (jD (u\<lparr>jg := h\<rparr>) i) = nextJob (jD s i)" for i using lv(5-7,9) u(2) by simp_all
  qed (use h(3,4) in auto)
  then show ?thesis unfolding eq using h(2) by (auto simp: group_tree_def)
qed

lemma removeNode_array:
  assumes g: "groups_ok J s" and sh: "shelf J s ns" and j: "j \<in> J" and n: "n = nodeOf s j" "array_node J s n"
    and u: "unlisted j s s1"
  shows "\<exists>ns'. same_recs s1 (removeNode j s1) \<and> shelf (J - {j}) (removeNode j s1) ns' \<and>
    counts_ok (J - {j}) (\<lambda>i. nodeOf s i) (status s) (jgD (jg (removeNode j s1))) \<and>
    nodes_ok (J - {j}) (\<lambda>i. nodeOf s i) (jgD (jg (removeNode j s1)))"
proof -
  define s2 where "s2 = offArray j s1"
  define a where "a = g_jobArray (tnode s n)"
  define s3 where "s3 = (if mSchedStage s2 \<noteq> M_STAGE_REPLAY then call (Call_log_jobclean a) s2 else s2)"
  define s4 where "s4 = call (Call_freeJData a) (s3\<lparr>jobIdHT := (jobIdHT s3)(jobId (jD s3 a) := None)\<rparr>)"
  define s5 where "s5 = call (Call_rmLogJobInfo j) (call (Call_treeFree n) (clipJgrp n s4))"
  have l: "left_array J s j s2" and r2: "same_recs s1 s2" using offArray_left [OF g sh j n u] by (simp_all add: s2_def)
  note v = shelf_views [OF sh j n(1) refl] and lv = left_views [OF l, folded n(1)]
  have nt: "nodeOf s1 j = n" "g_nodeType (jgD (jg s1) n) = JGRP_NODE_ARRAY"
    using n u by (simp_all add: unlisted_def array_node_def)
  have "g_jobArray (tnode s2 n) = a" using lv(4) [of n] kind_views [of "tnode s2 n" "tnode s n"] by (simp add: bare_eq a_def)
  then have rm: "removeNode j s1 = (if g_counts (tnode s2 n) JGRP_COUNT_NJOBS \<le> 0 then s5 else s2)"
    using nt v(8) by (simp add: removeNode_def Let_def s2_def [symmetric] s3_def [symmetric] s4_def s5_def)
  have fin: "finite J" using g by (simp add: groups_ok_def nodes_ok_def)
  show ?thesis
  proof (cases "{i \<in> J - {j}. nodeOf s i = n} = {}")
    case True
    then have "card {i \<in> J - {j}. nodeOf s i = n} = 0" by (simp only: card.empty)
    then have rm5: "removeNode j s1 = s5" unfolding rm lv(13) by (simp only:) simp
    have s4: "jg s4 = jg s2" "jD s4 = jD s2" "jobIdHT s4 = (jobIdHT s2)(jobId (jD s a) := None)"
      using lv(6) [of a] by (simp_all add: s4_def s3_def)
    obtain ns' where ns': "shelf (J - {j}) (clipJgrp n s4) ns'" "counts_ok (J - {j}) (\<lambda>i. nodeOf s i) (status s) (jgD (jg (clipJgrp n s4)))"
      "nodes_ok (J - {j}) (\<lambda>i. nodeOf s i) (jgD (jg (clipJgrp n s4)))"
      using left_clips [OF sh j n l True s4 [unfolded a_def]] by blast
    have "same_recs s2 s3" "same_recs s3 s4" "same_recs s4 (clipJgrp n s4)" "same_recs (clipJgrp n s4) s5"
      unfolding s3_def s4_def s5_def using same_recs_trans [OF same_recs_intros(3) same_recs_intros(1)]
        same_recs_trans [OF same_recs_intros(1) same_recs_intros(1)] by simp_all
    then have "same_recs s1 s5" using r2 same_recs_trans by meson
    moreover have "shelf (J - {j}) s5 ns'" using ns'(1) shelf_cong [of s5 "clipJgrp n s4"] by (simp add: s5_def)
    ultimately show ?thesis using ns' by (auto simp: rm5 s5_def)
  next
    case False
    then have "0 < card {i \<in> J - {j}. nodeOf s i = n}" using fin by (simp add: card_gt_0_iff)
    then have rm2: "removeNode j s1 = s2" unfolding rm lv(13) by (simp only: of_nat_le_0_iff if_False) simp
    show ?thesis unfolding rm2 using left_keeps [OF sh j n l False] r2 lv(11,12) by blast
  qed
qed

text \<open>Removing a finished job keeps everything for the other jobs.\<close>

lemma removeJob_world:
  assumes w: "world J s" and j: "j \<in> J" and fin: "finished (status s j)"
  shows "world (J - {j}) (removeJob (jobId (jD s j)) s)"
proof -
  obtain ns where sh: "shelf J s ns" using w by (auto simp: world_def)
  have g: "groups_ok J s" and i: "inv J s" and l: "lists_ok J s" and stage: "mSchedStage s \<noteq> M_STAGE_REPLAY" using w by (simp_all add: world_def)
  have kn: "known s j" using sh j by (simp add: shelf_def)
  define s1 where "s1 = offLists j s"
  note o = offLists_facts [OF s1_def]
  define t where "t = removeNode j s1"
  have u: "unlisted j s s1" using o(2-4) by (simp add: unlisted_def)
  have eq: "removeJob (jobId (jD s j)) s = call (Call_freeJData j) t"
    using kn removeJob_unfold [of "jobId (jD s j)" s j]
    by (simp add: known_def getJobData_def s1_def t_def JGRP_NODE_JOB_def JGRP_NODE_ARRAY_def)
  have "job_node J s (nodeOf s j) \<or> array_node J s (nodeOf s j)" using sh j by (simp add: shelf_def)
  then obtain ns' where t: "same_recs s1 t" "shelf (J - {j}) t ns'" "counts_ok (J - {j}) (\<lambda>i. nodeOf s i) (status s) (jgD (jg t))"
      "nodes_ok (J - {j}) (\<lambda>i. nodeOf s i) (jgD (jg t))"
    using removeNode_job [OF g sh j refl _ u] removeNode_array [OF g sh j refl _ u] by (auto simp: t_def)
  have v: "nodeOf t k = nodeOf s k" "status t k = status s k" "jobId (jD t k) = jobId (jD s k)" for k
    using same_recs_views [OF t(1), of k] o(4) by simp_all
  have c: "calm s t" using o(1) t(1) calm_trans by (auto simp: same_recs_def)
  have "inv (J - {j}) t" using inv_without [OF i j fin] calm_inv [OF c] by simp
  moreover have "groups_ok (J - {j}) t"
    using t(3,4) g unfolding groups_ok_def v by auto
  moreover have "lists_ok (J - {j}) t"
  proof -
    have d: "jDataList t = jDataList s1" using t(1) by (simp add: same_recs_def)
    have "on_list t k m = on_list s k m" if "k \<noteq> j" for k m using that o(5) by (simp add: on_list_def d)
    then show ?thesis using l o(6) by (auto simp: lists_ok_def distinct_lists_def d v(2))
  qed
  moreover have "mSchedStage t \<noteq> M_STAGE_REPLAY" using c stage by (simp add: calm_def)
  ultimately have "world (J - {j}) t" using t(2) by (auto simp: world_def)
  then show ?thesis unfolding eq by (rule world_mild) simp_all
qed

end
