(* ===== verification/Job_Clean.thy ===== *)
theory Job_Clean
  imports Job_Exit
begin

unbundle bit_operations_syntax

text \<open>
  The periodic cleaning of finished jobs (\<open>clean\<close> of \<open>lsbatch/daemons/mbd.job.c\<close>),
  and the histories in which jobs are submitted, change their status, are
  requeued and are removed.
\<close>

section \<open>What a step on one job leaves alone\<close>

definition aside :: "addr \<Rightarrow> mbd \<Rightarrow> mbd \<Rightarrow> bool" where
  "aside j s t \<longleftrightarrow> cfg t = cfg s \<and> set (jDataList t ZJL) \<subseteq> set (jDataList s ZJL) \<and>
     (\<forall>i. jobId (jD t i) = jobId (jD s i)) \<and> (\<forall>k. jobIdHT s k = None \<longrightarrow> jobIdHT t k = None) \<and>
     (\<forall>i. i \<noteq> j \<longrightarrow> (jD t i)\<lparr>nextJob := NULL\<rparr> = (jD s i)\<lparr>nextJob := NULL\<rparr>) \<and>
     (\<forall>i l. i \<noteq> j \<and> l \<noteq> ZJL \<longrightarrow> (i \<in> set (jDataList t l) \<longleftrightarrow> i \<in> set (jDataList s l)))"

lemma aside_refl [simp]: "aside j s s"
  by (simp add: aside_def)

text \<open>The time of the job has come; it is due when no zombie record holds it back either.\<close>

definition expired :: "int \<Rightarrow> mbd \<Rightarrow> addr \<Rightarrow> bool" where
  "expired curTime s j \<longleftrightarrow> (has (status s j) JOB_STAT_DONE \<longrightarrow> IS_POST_FINISH (status s j)) \<and>
     \<not> has (jFlags (jD s j)) JFLAG_REQUEUE \<and> \<not> (0 < nSbdConnections s \<and> List.member (sbdJobs s) j) \<and>
     (pe_sigDel (pendEvent (jD s j)) \<noteq> 0 \<and> runCount (jD s j) = 0 \<or> clean_period s < curTime - endTime (jD s j))"

definition due :: "int \<Rightarrow> mbd \<Rightarrow> addr \<Rightarrow> bool" where
  "due curTime s j \<longleftrightarrow> expired curTime s j \<and> (\<forall>z \<in> set (jDataList s ZJL). jobId (jD s z) \<noteq> jobId (jD s j))"

lemma aside_views:
  assumes "aside j s t" and "k \<noteq> j"
  shows "status t k = status s k" "jFlags (jD t k) = jFlags (jD s k)" "newSub (jD t k) = newSub (jD s k)"
    "pendEvent (jD t k) = pendEvent (jD s k)" "runCount (jD t k) = runCount (jD s k)" "endTime (jD t k) = endTime (jD s k)"
proof -
  have "(jD t k)\<lparr>nextJob := NULL\<rparr> = (jD s k)\<lparr>nextJob := NULL\<rparr>" using assms by (simp add: aside_def)
  then show "status t k = status s k" "jFlags (jD t k) = jFlags (jD s k)" "newSub (jD t k) = newSub (jD s k)"
    "pendEvent (jD t k) = pendEvent (jD s k)" "runCount (jD t k) = runCount (jD s k)" "endTime (jD t k) = endTime (jD s k)"
    by (cases "jD t k"; cases "jD s k"; auto)+
qed

lemma getZombieJob_none: "getZombieJob k s = None \<longleftrightarrow> (\<forall>z \<in> set (jDataList s ZJL). jobId (jD s z) \<noteq> k)"
  by (auto simp: getZombieJob_def find_None_iff)

section \<open>What a removal leaves alone\<close>

lemma cfg_fields [simp]: "cfg (s\<lparr>jobIdHT := h\<rparr>) = cfg s" "cfg (s\<lparr>jg := g\<rparr>) = cfg s" "cfg (s\<lparr>died := d\<rparr>) = cfg s"
  "cfg (s\<lparr>numRemoveJobs := k\<rparr>) = cfg s" "cfg (s\<lparr>jDataList := l\<rparr>) = cfg s"
  by (simp_all add: cfg_def)

lemma cfg_clipJgrp [simp]: "cfg (clipJgrp n s) = cfg s" "jobIdHT (clipJgrp n s) = jobIdHT s"
  by (simp_all add: clipJgrp_def split: option.splits)

lemma cfg_offArray [simp]: "cfg (offArray j s) = cfg s" "jobIdHT (offArray j s) = jobIdHT s"
  by (simp_all add: offArray_def Let_def split: option.splits)

lemma cfg_removeNode [simp]: "cfg (removeNode j s) = cfg s"
  by (simp add: removeNode_def Let_def)

lemma removeNode_HT: "jobIdHT s i = None \<Longrightarrow> jobIdHT (removeNode j s) i = None"
  by (simp add: removeNode_def Let_def)

lemma removeZombies_sub: "set (jDataList (removeZombies k s) ZJL) \<subseteq> set (jDataList s ZJL)"
proof (induction k s rule: removeZombies.induct)
  case (1 k s)
  show ?case
  proof (cases "getZombieJob k s")
    case (Some zp)
    have "set (remove1 zp (jDataList s ZJL)) \<subseteq> set (jDataList s ZJL)" by (rule set_remove1_subset)
    then show ?thesis using "1.IH" [OF Some] Some by (simp add: removeZombies.simps [of k s])
  qed (simp add: removeZombies.simps [of k s])
qed

lemma offLists_zombies: "cfg (offLists j s) = cfg s" "set (jDataList (offLists j s) ZJL) \<subseteq> set (jDataList s ZJL)"
proof -
  have "cfg (removeZombies k s) = cfg s" for k using removeZombies_keeps [of s k] by (simp add: jv_def)
  then show "cfg (offLists j s) = cfg s" by (simp add: offLists_def Let_def offJobList_def)
  show "set (jDataList (offLists j s) ZJL) \<subseteq> set (jDataList s ZJL)"
    using removeZombies_sub [of "jobId (jD s j)" s] set_remove1_subset [of j "jDataList (removeZombies (jobId (jD s j)) s) ZJL"]
    by (auto simp: offLists_def Let_def offJobList_def)
qed

lemma removeJob_aside:
  assumes w: "world J s" and j: "j \<in> J" and fin: "finished (status s j)"
  shows "aside j s (removeJob (jobId (jD s j)) s)" "jobIdHT (removeJob (jobId (jD s j)) s) (jobId (jD s j)) = None"
    "l \<noteq> ZJL \<Longrightarrow> j \<notin> set (jDataList (removeJob (jobId (jD s j)) s) l)"
proof -
  obtain ns where sh: "shelf J s ns" using w by (auto simp: world_def)
  have g: "groups_ok J s" and d: "distinct_lists s" using w by (simp_all add: world_def lists_ok_def)
  have kn: "known s j" using sh j by (simp add: shelf_def)
  define s1 where "s1 = offLists j s"
  note o = offLists_facts [OF s1_def]
  define t where "t = removeNode j s1"
  have u: "unlisted j s s1" using o(2-4) by (simp add: unlisted_def)
  have eq: "removeJob (jobId (jD s j)) s = call (Call_freeJData j) t"
    using kn removeJob_unfold [of "jobId (jD s j)" s j]
    by (simp add: known_def getJobData_def s1_def t_def JGRP_NODE_JOB_def JGRP_NODE_ARRAY_def)
  have "job_node J s (nodeOf s j) \<or> array_node J s (nodeOf s j)" using sh j by (simp add: shelf_def)
  then have t: "same_recs s1 t"
    using removeNode_job [OF g sh j refl _ u] removeNode_array [OF g sh j refl _ u] by (auto simp: t_def)
  have v: "jobId (jD t k) = jobId (jD s k)" for k using same_recs_views [OF t, of k] o(4) by simp
  have r: "(jD t k)\<lparr>nextJob := NULL\<rparr> = (jD s k)\<lparr>nextJob := NULL\<rparr>" for k using t o(4) by (simp add: same_recs_def)
  have l: "jDataList t = jDataList s1" using t by (simp add: same_recs_def)
  have h: "jobIdHT s1 i = None \<Longrightarrow> jobIdHT t i = None" for i by (simp add: t_def removeNode_HT)
  have z: "cfg t = cfg s" "set (jDataList t ZJL) \<subseteq> set (jDataList s ZJL)"
    using offLists_zombies [of j s] by (simp_all add: t_def [symmetric] l s1_def [symmetric]) (simp add: t_def s1_def)
  show "aside j s (removeJob (jobId (jD s j)) s)"
    unfolding aside_def eq using z v r l h o(3,5) by (auto simp: in_set_remove1)
  show "jobIdHT (removeJob (jobId (jD s j)) s) (jobId (jD s j)) = None" unfolding eq using h o(3) by simp
  show "l \<noteq> ZJL \<Longrightarrow> j \<notin> set (jDataList (removeJob (jobId (jD s j)) s) l)"
    unfolding eq using l o(5) d by (simp add: distinct_lists_def)
qed

section \<open>The cleaning\<close>

lemma cleanRequeue_world:
  assumes w: "world J s" and j: "j \<in> J" and fin: "finished (status s j)" and sub: "newSub (jD s j) = None"
  and t_def: "t = call (Call_log_jobrequeue j)
    (upd_j j (\<lambda>j. j\<lparr>startTime := 0, endTime := 0, pendEvent := (pendEvent j)\<lparr>pe_sig := SIG_NULL\<rparr>\<rparr>) (handleRequeueJob j rt s))"
  shows "world J t" and "aside j s t"
proof -
  let ?r = "handleRequeueJob j rt s"
  have r: "world J ?r" by (rule world_requeue [OF w j fin sub])
  note st = handleRequeueJob_step [of J s j rt]
  have e: "er (jv ?r) = er (jv s)" using sub by simp
  have m: "mild ?r (upd_j j (\<lambda>j. j\<lparr>startTime := 0, endTime := 0, pendEvent := (pendEvent j)\<lparr>pe_sig := SIG_NULL\<rparr>\<rparr>) ?r)"
    by (rule mild_upd_j) (simp add: core_def)
  have w1: "world J (upd_j j (\<lambda>j. j\<lparr>startTime := 0, endTime := 0, pendEvent := (pendEvent j)\<lparr>pe_sig := SIG_NULL\<rparr>\<rparr>) ?r)"
    by (rule world_mild [OF r m]) (simp add: jv_upd_j)
  then show "world J t" unfolding t_def by (rule world_mild) simp_all
  have v: "jobIdHT ?r = jobIdHT s" "cfg ?r = cfg s" "\<And>i. jobId (jD ?r i) = jobId (jD s i)" using er_views [OF e] by simp_all
  show "aside j s t"
    unfolding aside_def t_def using st w j fin sub v by (auto simp: world_def)
qed

lemma if_chain:
  "(if a \<and> \<not> b then s else if f then q else if z then s else if c then s else if d then r else if e then r else s) =
   (if ((a \<longrightarrow> b) \<and> \<not> f \<and> \<not> c \<and> (d \<or> e)) \<and> \<not> z then r else if (a \<longrightarrow> b) \<and> f then q else s)"
  by simp

lemma cleanJob_cases:
  obtains (remove) "due ct s j" "cleanJob ct j s = removeJob (jobId (jD s j)) s"
  | (requeue) "\<not> due ct s j" "cleanJob ct j s = call (Call_log_jobrequeue j)
      (upd_j j (\<lambda>j. j\<lparr>startTime := 0, endTime := 0, pendEvent := (pendEvent j)\<lparr>pe_sig := SIG_NULL\<rparr>\<rparr>) (handleRequeueJob j (wallClock s) s))"
  | (keep) "\<not> due ct s j" "cleanJob ct j s = s"
proof -
  let ?q = "call (Call_log_jobrequeue j)
      (upd_j j (\<lambda>j. j\<lparr>startTime := 0, endTime := 0, pendEvent := (pendEvent j)\<lparr>pe_sig := SIG_NULL\<rparr>\<rparr>) (handleRequeueJob j (wallClock s) s))"
  have "due ct s j \<longleftrightarrow> expired ct s j \<and> \<not> getZombieJob (jobId (jD s j)) s \<noteq> None" by (simp add: due_def getZombieJob_none)
  then have "cleanJob ct j s = (if due ct s j then removeJob (jobId (jD s j)) s
      else if (has (status s j) JOB_STAT_DONE \<longrightarrow> IS_POST_FINISH (status s j)) \<and> has (jFlags (jD s j)) JFLAG_REQUEUE then ?q else s)"
    unfolding cleanJob_def Let_def if_chain expired_def by (simp only:)
  then show thesis using that by (cases "due ct s j") (simp_all split: if_splits)
qed

lemma cleanJob_world:
  assumes w: "world J s" and j: "j \<in> J" and fin: "finished (status s j)" and sub: "newSub (jD s j) = None"
  shows "aside j s (cleanJob ct j s)" and "world (if due ct s j then J - {j} else J) (cleanJob ct j s)"
    and "due ct s j \<Longrightarrow> cleanJob ct j s = removeJob (jobId (jD s j)) s"
proof -
  note q = cleanRequeue_world [OF w j fin sub refl, of "wallClock s"]
  show "aside j s (cleanJob ct j s)" "world (if due ct s j then J - {j} else J) (cleanJob ct j s)"
    "due ct s j \<Longrightarrow> cleanJob ct j s = removeJob (jobId (jD s j)) s"
    using q w removeJob_world [OF w j fin] removeJob_aside(1) [OF w j fin]
    by (cases rule: cleanJob_cases [of ct s j]; simp)+
qed

lemma expired_aside: "aside j s t \<Longrightarrow> k \<noteq> j \<Longrightarrow> expired ct t k = expired ct s k"
  using aside_views [of j s t k] by (simp add: expired_def aside_def cfg_def)

lemma due_aside: "aside j s t \<Longrightarrow> k \<noteq> j \<Longrightarrow> due ct s k \<Longrightarrow> due ct t k"
  using expired_aside [of j s t k ct] by (auto simp: due_def aside_def)

text \<open>The jobs that are due have left the table and the lists at the end of the walk, and only expired jobs leave.\<close>

abbreviation cleanAll :: "int \<Rightarrow> mbd \<Rightarrow> addr list \<Rightarrow> mbd" where
  "cleanAll ct s xs \<equiv> foldl (\<lambda>s jp. cleanJob ct jp s) s xs"

definition cleaned :: "int \<Rightarrow> addr list \<Rightarrow> addr set \<Rightarrow> mbd \<Rightarrow> addr set \<Rightarrow> mbd \<Rightarrow> bool" where
  "cleaned ct xs J s K t \<longleftrightarrow> world K t \<and> K \<subseteq> J \<and> J - K \<subseteq> {j \<in> set xs. expired ct s j} \<and> (\<forall>j \<in> set xs. due ct s j \<longrightarrow> j \<notin> K) \<and>
     (\<forall>j \<in> J - K. jobIdHT t (jobId (jD s j)) = None \<and> (\<forall>l. l \<noteq> ZJL \<longrightarrow> j \<notin> set (jDataList t l))) \<and>
     (\<forall>i. jobId (jD t i) = jobId (jD s i)) \<and> (\<forall>k. jobIdHT s k = None \<longrightarrow> jobIdHT t k = None) \<and>
     (\<forall>i l. i \<notin> set xs \<and> l \<noteq> ZJL \<longrightarrow> (i \<in> set (jDataList t l) \<longleftrightarrow> i \<in> set (jDataList s l)))"

lemma clean_walk:
  assumes "world J s" and "distinct xs" and "\<forall>j \<in> set xs. j \<in> J \<and> finished (status s j) \<and> newSub (jD s j) = None"
  shows "\<exists>K. cleaned ct xs J s K (cleanAll ct s xs)"
  using assms
proof (induction xs arbitrary: J s)
  case Nil
  then show ?case by (auto simp: cleaned_def)
next
  case (Cons j xs)
  define s1 where "s1 = cleanJob ct j s"
  define J1 where "J1 = (if due ct s j then J - {j} else J)"
  have j: "j \<in> J" "finished (status s j)" "newSub (jD s j) = None" "j \<notin> set xs" using Cons.prems by simp_all
  note c = cleanJob_world [OF Cons.prems(1) j(1-3), of ct, folded s1_def J1_def]
  have o: "k \<in> J1 \<and> finished (status s1 k) \<and> newSub (jD s1 k) = None" if "k \<in> set xs" for k
  proof -
    have "k \<noteq> j" using that j(4) by blast
    then show ?thesis using Cons.prems(3) that aside_views(1,3) [OF c(1), of k] by (simp add: J1_def)
  qed
  then obtain K where "cleaned ct xs J1 s1 K (cleanAll ct s1 xs)" using Cons.IH [OF c(2)] Cons.prems(2) by auto
  then have K: "world K (cleanAll ct s1 xs)" "K \<subseteq> J1" "\<And>k. k \<in> J1 - K \<Longrightarrow> k \<in> set xs \<and> expired ct s1 k"
    "\<And>k. k \<in> set xs \<Longrightarrow> due ct s1 k \<Longrightarrow> k \<notin> K"
    and L: "\<And>k. k \<in> J1 - K \<Longrightarrow> jobIdHT (cleanAll ct s1 xs) (jobId (jD s1 k)) = None"
      "\<And>k l. k \<in> J1 - K \<Longrightarrow> l \<noteq> ZJL \<Longrightarrow> k \<notin> set (jDataList (cleanAll ct s1 xs) l)"
      "\<And>i. jobId (jD (cleanAll ct s1 xs) i) = jobId (jD s1 i)" "\<And>k. jobIdHT s1 k = None \<Longrightarrow> jobIdHT (cleanAll ct s1 xs) k = None"
      "\<And>i l. i \<notin> set xs \<Longrightarrow> l \<noteq> ZJL \<Longrightarrow> (i \<in> set (jDataList (cleanAll ct s1 xs) l) \<longleftrightarrow> i \<in> set (jDataList s1 l))"
    unfolding cleaned_def by blast+
  have d: "k \<in> set xs \<Longrightarrow> due ct s k \<Longrightarrow> due ct s1 k" and e: "k \<in> set xs \<Longrightarrow> expired ct s1 k = expired ct s k" for k
    using due_aside [OF c(1)] expired_aside [OF c(1)] j(4) by metis+
  have a: "jobId (jD s1 i) = jobId (jD s i)" "jobIdHT s k = None \<Longrightarrow> jobIdHT s1 k = None"
    "i \<noteq> j \<Longrightarrow> l \<noteq> ZJL \<Longrightarrow> (i \<in> set (jDataList s1 l) \<longleftrightarrow> i \<in> set (jDataList s l))" for i k l
    using c(1) by (simp_all add: aside_def)
  have g: "due ct s j \<Longrightarrow> jobIdHT s1 (jobId (jD s j)) = None" "due ct s j \<Longrightarrow> l \<noteq> ZJL \<Longrightarrow> j \<notin> set (jDataList s1 l)" for l
    using c(3) removeJob_aside(2,3) [OF Cons.prems(1) j(1,2)] by simp_all
  have in1: "k \<in> J1 - K \<or> k = j \<and> due ct s j" if "k \<in> J - K" for k using that by (simp add: J1_def)
  have "jobIdHT (cleanAll ct s1 xs) (jobId (jD s k)) = None" if "k \<in> J - K" for k
    using in1 [OF that] L(1) [of k] L(4) [OF g(1)] a(1) [of k] by auto
  moreover have "k \<notin> set (jDataList (cleanAll ct s1 xs) l)" if "k \<in> J - K" "l \<noteq> ZJL" for k l
    using in1 [OF that(1)] L(2) [of k l] L(5) [of j l] g(2) [of l] j(4) that(2) by auto
  moreover have "J - K \<subseteq> {k \<in> set (j # xs). expired ct s k}"
  proof
    fix k assume "k \<in> J - K"
    from in1 [OF this] K(3) [of k] e [of k] show "k \<in> {k \<in> set (j # xs). expired ct s k}" by (auto simp: due_def)
  qed
  moreover have "k \<notin> K" if "k \<in> set (j # xs)" "due ct s k" for k
    using that K(2) K(4) [of k] d [of k] by (cases "k = j") (auto simp: J1_def)
  moreover have "K \<subseteq> J" using K(2) by (auto simp: J1_def split: if_splits)
  moreover have "jobId (jD (cleanAll ct s1 xs) i) = jobId (jD s i)" for i using L(3) a(1) by (rule trans)
  moreover have "jobIdHT s k = None \<Longrightarrow> jobIdHT (cleanAll ct s1 xs) k = None" for k by (rule L(4) [OF a(2)])
  moreover have "i \<notin> set (j # xs) \<Longrightarrow> l \<noteq> ZJL \<Longrightarrow> (i \<in> set (jDataList (cleanAll ct s1 xs) l) \<longleftrightarrow> i \<in> set (jDataList s l))" for i l
    using L(5) [of i l] a(3) [of i l] by simp
  ultimately have "cleaned ct (j # xs) J s K (cleanAll ct s1 xs)" unfolding cleaned_def using K(1) by blast
  then show ?case unfolding foldl_Cons s1_def [symmetric] by blast
qed

text \<open>The jobs that are left are those still in the table.\<close>

lemma clean_cleaned:
  assumes w: "world J s" and f: "\<forall>j \<in> set (jDataList s FJL). j \<in> J \<and> finished (status s j) \<and> newSub (jD s j) = None"
  shows "cleaned ct (rev (jDataList s FJL)) J s {j \<in> J. jobIdHT (clean ct s) (jobId (jD s j)) = Some j} (clean ct s)"
proof -
  have d: "distinct (rev (jDataList s FJL))" using w by (simp add: world_def lists_ok_def distinct_lists_def)
  obtain K where K: "cleaned ct (rev (jDataList s FJL)) J s K (clean ct s)"
    using clean_walk [OF w d, of ct] f unfolding clean_def set_rev by blast
  have k: "K \<subseteq> J" "\<And>j. j \<in> J - K \<Longrightarrow> jobIdHT (clean ct s) (jobId (jD s j)) = None"
    "\<And>i. jobId (jD (clean ct s) i) = jobId (jD s i)" "world K (clean ct s)"
    using K unfolding cleaned_def by blast+
  obtain ns where "shelf K (clean ct s) ns" using k(4) by (auto simp: world_def)
  then have "jobIdHT (clean ct s) (jobId (jD s j)) = Some j" if "j \<in> K" for j
    using that k(3) by (simp add: shelf_def known_def)
  then have "K = {j \<in> J. jobIdHT (clean ct s) (jobId (jD s j)) = Some j}" using k(1,2) by fastforce
  then show ?thesis using K by simp
qed

section \<open>Histories\<close>

text \<open>
  The jobs of the cluster and its state after any sequence of operations: single
  submissions, accounted status changes, requeues, removals, cleanings.  The
  submission of an array (\<open>handleNewJobArray\<close>) and the changes \<open>change_ok\<close> leaves
  out are not steps.
\<close>

inductive hist :: "addr set \<Rightarrow> mbd \<Rightarrow> addr set \<Rightarrow> mbd \<Rightarrow> bool" for J s where
  hist_start: "hist J s J s"
| hist_new: "hist J s K t \<Longrightarrow> new_job K t j \<Longrightarrow> new_node t n \<Longrightarrow> hist J s (insert j K) (handleNewJob n j JOB_NEW et t)"
| hist_change: "hist J s K t \<Longrightarrow> j \<in> K \<Longrightarrow> change_ok t j st et \<Longrightarrow> hist J s K (jStatusChange j st et t)"
| hist_requeue: "hist J s K t \<Longrightarrow> j \<in> K \<Longrightarrow> finished (status t j) \<Longrightarrow> newSub (jD t j) = None \<Longrightarrow>
    hist J s K (handleRequeueJob j rt t)"
| hist_remove: "hist J s K t \<Longrightarrow> j \<in> K \<Longrightarrow> finished (status t j) \<Longrightarrow> hist J s (K - {j}) (removeJob (jobId (jD t j)) t)"
| hist_clean: "hist J s K t \<Longrightarrow> \<forall>j \<in> set (jDataList t FJL). j \<in> K \<and> finished (status t j) \<and> newSub (jD t j) = None \<Longrightarrow>
    hist J s {j \<in> K. jobIdHT (clean ct t) (jobId (jD t j)) = Some j} (clean ct t)"

lemma hist_world: "hist J s K t \<Longrightarrow> world J s \<Longrightarrow> world K t"
proof (induction rule: hist.induct)
  case (hist_new K t j n et)
  show ?case by (rule handleNewJob_world [OF hist_new.IH [OF hist_new.prems] hist_new.hyps(2,3)])
next
  case (hist_change K t j st et)
  show ?case by (rule world_change [OF hist_change.IH [OF hist_change.prems] hist_change.hyps(2,3)])
next
  case (hist_requeue K t j rt)
  show ?case by (rule world_requeue [OF hist_requeue.IH [OF hist_requeue.prems] hist_requeue.hyps(2-4)])
next
  case (hist_remove K t j)
  show ?case by (rule removeJob_world [OF hist_remove.IH [OF hist_remove.prems] hist_remove.hyps(2,3)])
next
  case (hist_clean K t ct)
  show ?case using clean_cleaned [OF hist_clean.IH [OF hist_clean.prems] hist_clean.hyps(2), of ct] unfolding cleaned_def by blast
qed

section \<open>A cluster of one job\<close>

definition mbd4 :: "uint32 \<Rightarrow> mbd" where
  "mbd4 st = (mbd3 st)\<lparr>jobIdHT := [101 \<mapsto> 6]\<rparr>"

lemma mbd4_world:
  assumes "jstate st \<noteq> 0"
  shows "world {6} (mbd4 st)"
proof -
  have c: "calm (mbd3 st) (mbd4 st)" by (simp add: mbd4_def calm_def same_cnts_def proj_defs core_def)
  have "inv {6} (mbd4 st)" using calm_inv [OF c] mbd3_ok by (simp add: inv_def)
  moreover have "lists_ok {6} (mbd4 st)" using mbd3_lists [of st] by (simp add: mbd4_def lists_ok_def distinct_lists_def on_list_def)
  moreover have "groups_ok {6} (mbd4 st)" using mbd3_groups [OF assms] by (simp add: mbd4_def groups_ok_def)
  moreover have "mSchedStage (mbd4 st) \<noteq> M_STAGE_REPLAY" using mbd3_ok(3) [of st] by (simp add: mbd4_def)
  moreover have "shelf {6} (mbd4 st) [21]"
    by (simp add: shelf_def mbd4_def mbd3_def jgrp3_def tree_ok_def flat_def known_def job_node_def cluster1_defs jgNode1_def
        JGRP_NODE_JOB_def JGRP_NODE_GROUP_def JGRP_NODE_ARRAY_def)
  ultimately show ?thesis unfolding world_def by blast
qed

text \<open>The same cluster with the record (7) of a job that is being submitted, and its owner in the table of users.\<close>

definition mbd5 :: "uint32 \<Rightarrow> mbd" where
  "mbd5 st = (mbd4 st)\<lparr>jD := (jD (mbd4 st))(7 := (jData1 JOB_STAT_PEND)\<lparr>jobId := 102, numHostPtr := 0, hPtr := None\<rparr>),
     uDataList := ht_put (h_initTab 61) ''ann'' 3\<rparr>"

lemma mbd5_world:
  assumes "jstate st \<noteq> 0"
  shows "world {6} (mbd5 st)"
proof -
  have w: "world {6} (mbd4 st)" by (rule mbd4_world [OF assms])
  have b: "but 7 (mbd4 st) (mbd5 st)" by (simp add: mbd5_def but_def same_cnts_def proj_defs)
  have "inv {6} (mbd5 st)" using but_inv [OF b, of "{6}"] w by (simp add: world_def)
  moreover have "lists_ok {6} (mbd5 st)" "groups_ok {6} (mbd5 st)" "mSchedStage (mbd5 st) \<noteq> M_STAGE_REPLAY"
    using w by (simp_all add: world_def mbd5_def lists_ok_def distinct_lists_def on_list_def groups_ok_def counts_ok_def
        nodes_ok_def below_def)
  moreover have "shelf {6} (mbd5 st) [21]"
    by (simp add: shelf_def mbd5_def mbd4_def mbd3_def jgrp3_def tree_ok_def flat_def known_def job_node_def cluster1_defs jgNode1_def
        JGRP_NODE_JOB_def JGRP_NODE_GROUP_def JGRP_NODE_ARRAY_def)
  ultimately show ?thesis unfolding world_def by blast
qed

lemma mbd5_new: "new_job {6} (mbd5 st) 7" "new_node (mbd5 st) 22"
proof -
  have "ht_get (uDataList (mbd5 st)) ''ann'' = Some 3"
    by (simp add: mbd5_def ht_get_map ht_put_ok [OF ht_ok_init])
  then show "new_job {6} (mbd5 st) 7"
    by (simp add: new_job_def user_ready_def) (simp add: mbd5_def mbd4_def mbd3_def cluster1_defs)
  have "shelf {6} (mbd5 st) [21]"
    by (simp add: shelf_def mbd5_def mbd4_def mbd3_def jgrp3_def tree_ok_def flat_def known_def job_node_def cluster1_defs jgNode1_def
        JGRP_NODE_JOB_def JGRP_NODE_GROUP_def JGRP_NODE_ARRAY_def)
  then have "treeWalk (jgD (jg (mbd5 st))) 20 = Some [20, 21]"
    using treeWalk_preorder [of "jgD (jg (mbd5 st))" 20 "flat 20 [21]"]
    by (simp add: shelf_def) (simp add: mbd5_def mbd4_def mbd3_def jgrp3_def)
  then show "new_node (mbd5 st) 22" by (simp add: new_node_def mbd5_def mbd4_def mbd3_def jgrp3_def)
qed

lemma finished_exit: "finished JOB_STAT_EXIT"
  by (simp add: finished_def stat_eval)

lemma mbd4_job: "jStatus (jD (mbd4 st) 6) = st" "jobId (jD (mbd4 st) 6) = 101" "newSub (jD (mbd4 st) 6) = None"
  "jDataList (mbd4 JOB_STAT_EXIT) FJL = [6]" "due 4000 (mbd4 JOB_STAT_EXIT) 6" "jstate JOB_STAT_EXIT \<noteq> 0"
  by (simp_all add: mbd4_def mbd3_def cluster1_defs due_def expired_def stat_eval JFLAG_REQUEUE_def)

section \<open>Properties\<close>

text \<open>
  C4. Submitting a single job (a new record in state PEND, whose identifier is
  positive and not in the table and whose user is known and initialised) outside
  the replay of the event log keeps the cluster consistent: afterwards the counters of
  queues, users and hosts are the sums over the jobs including the new one, every
  job is on the list of its state, the counters of every group count the jobs
  below it, the tree is well linked with one node for the new job, and the table
  of identifiers leads to every job.
\<close>

theorem handleNewJob_keeps:
  assumes "world J s" and "new_job J s j" and "new_node s newj"
  shows "world (insert j J) (handleNewJob newj j JOB_NEW eventTime s)"
  using assms by (rule handleNewJob_world)

theorem handleNewJob_keeps_witness:
  "world {7, 6} (handleNewJob 22 7 JOB_NEW LOG_IT (mbd5 JOB_STAT_EXIT))"
  by (rule handleNewJob_keeps [OF mbd5_world [OF mbd4_job(6)] mbd5_new])

text \<open>
  C3. Removing a finished job keeps the cluster consistent for the jobs that
  remain: the job leaves its list, the table of identifiers and the tree, an
  array goes with its last element, and every other job keeps its record (up to
  the link of its array) and its list.
\<close>

theorem removeJob_keeps:
  assumes "world J s" and "j \<in> J" and "finished (jStatus (jD s j))"
  shows "let s' = removeJob (jobId (jD s j)) s in
    world (J - {j}) s' \<and> aside j s s' \<and> jobIdHT s' (jobId (jD s j)) = None \<and> (\<forall>l \<in> {SJL, PJL, MJL, FJL}. j \<notin> set (jDataList s' l))"
  using removeJob_world [OF assms] removeJob_aside [OF assms] unfolding Let_def by auto

theorem removeJob_keeps_witness:
  "let s' = removeJob 101 (mbd4 JOB_STAT_EXIT) in
    world {} s' \<and> aside 6 (mbd4 JOB_STAT_EXIT) s' \<and> jobIdHT s' 101 = None \<and> (\<forall>l \<in> {SJL, PJL, MJL, FJL}. 6 \<notin> set (jDataList s' l))"
  using removeJob_keeps [OF mbd4_world [OF mbd4_job(6)], of 6] by (simp add: mbd4_job finished_exit)

text \<open>
  C2. The periodic cleaning, when no modification waits for a finished job, makes
  progress and is safe: every finished job that
  is due (its cleaning period is over or it was deleted, it is not to be
  requeued, no zombie record and no connection holds it) has left the table of
  identifiers and the lists, only expired jobs are removed, and the cluster is
  consistent for the jobs still in the table.
\<close>

theorem clean_removes:
  assumes "world J s" and "\<forall>j \<in> set (jDataList s FJL). j \<in> J \<and> finished (jStatus (jD s j)) \<and> newSub (jD s j) = None"
  shows "let s' = clean curTime s; K = {j \<in> J. jobIdHT s' (jobId (jD s j)) = Some j} in
    world K s' \<and> J - K \<subseteq> {j \<in> set (jDataList s FJL). expired curTime s j} \<and>
    (\<forall>j \<in> set (jDataList s FJL). due curTime s j \<longrightarrow>
       jobIdHT s' (jobId (jD s j)) = None \<and> (\<forall>l \<in> {SJL, PJL, MJL, FJL}. j \<notin> set (jDataList s' l)))"
proof -
  let ?K = "{j \<in> J. jobIdHT (clean curTime s) (jobId (jD s j)) = Some j}"
  have c: "cleaned curTime (rev (jDataList s FJL)) J s ?K (clean curTime s)" by (rule clean_cleaned [OF assms])
  have gone: "jobIdHT (clean curTime s) (jobId (jD s j)) = None \<and> (\<forall>l \<in> {SJL, PJL, MJL, FJL}. j \<notin> set (jDataList (clean curTime s) l))"
    if "j \<in> set (jDataList s FJL)" "due curTime s j" for j
  proof -
    have "j \<in> J - ?K" using that assms(2) c unfolding cleaned_def set_rev by blast
    then have "jobIdHT (clean curTime s) (jobId (jD s j)) = None" "\<And>l. l \<noteq> ZJL \<Longrightarrow> j \<notin> set (jDataList (clean curTime s) l)"
      using c unfolding cleaned_def by blast+
    then show ?thesis by simp
  qed
  have "world ?K (clean curTime s)" "J - ?K \<subseteq> {j \<in> set (jDataList s FJL). expired curTime s j}"
    using c unfolding cleaned_def set_rev by blast+
  then show ?thesis unfolding Let_def using gone by blast
qed

theorem clean_removes_witness:
  "jobIdHT (clean 4000 (mbd4 JOB_STAT_EXIT)) 101 = None \<and> 6 \<notin> set (jDataList (clean 4000 (mbd4 JOB_STAT_EXIT)) FJL)"
  using clean_removes [OF mbd4_world [OF mbd4_job(6)], of 4000, unfolded Let_def] by (simp add: mbd4_job finished_exit)

text \<open>
  C1. Along every history, outside the replay of the event log, of submissions of
  single jobs (with a fresh identifier, by a known user), of status changes that
  \<open>change_ok\<close> admits (accounted ones; of a job with reserved slots only those that
  give the slots up; no finish of a job with a modification for one run waiting),
  of requeues and removals of finished jobs and of cleanings (requeued and
  cleaned jobs having no modification waiting), in any order, the cluster stays
  consistent: the counters are the sums over the jobs that are left, every job is
  on the list of its state, the groups count their jobs, and tree and table of
  identifiers hold exactly these jobs.
\<close>

theorem hist_keeps:
  assumes "hist J s K t" and "world J s"
  shows "jobs_ok K t \<and> books K t \<and> lists_ok K t \<and> groups_ok K t \<and> (\<exists>ns. shelf K t ns)"
  using hist_world [OF assms] by (simp add: world_def inv_def)

theorem hist_keeps_witness:
  "\<exists>t. hist {6} (mbd4 JOB_STAT_EXIT) {} t \<and> jobs_ok {} t \<and> books {} t \<and> lists_ok {} t \<and> groups_ok {} t \<and> (\<exists>ns. shelf {} t ns)"
proof -
  let ?s = "mbd4 JOB_STAT_EXIT"
  have "hist {6} ?s ({6} - {6}) (removeJob (jobId (jD ?s 6)) ?s)"
    by (rule hist_remove [OF hist_start]) (simp_all add: mbd4_job finished_exit)
  then have h: "hist {6} ?s {} (removeJob 101 ?s)" by (simp add: mbd4_job)
  then show ?thesis using hist_keeps [OF h mbd4_world [OF mbd4_job(6)]] by blast
qed

end
