(* ===== verification/Job_Ids.thy ===== *)
theory Job_Ids
  imports Job_Submit
begin

text \<open>
  The identifiers that \<open>getNextJobId\<close> and \<open>batchAllocateJobIds\<close> of
  \<open>lsbatch/daemons/mbd.job.c\<close> hand out: both walk once around the
  identifiers below \<open>maxJobId\<close>.
\<close>

section \<open>The circle of identifiers\<close>

definition circle :: "mbd \<Rightarrow> int \<Rightarrow> int list" where
  "circle s i = [i..maxJobId s - 1] @ [1..i - 1]"

definition free_id :: "mbd \<Rightarrow> int \<Rightarrow> bool" where
  "free_id s i \<longleftrightarrow> getJobData i s = NULL"

definition freeIds :: "mbd \<Rightarrow> int list" where
  "freeIds s = filter (free_id s) [1..maxJobId s - 1]"

abbreviation valid_id :: "mbd \<Rightarrow> int \<Rightarrow> bool" where
  "valid_id s i \<equiv> 1 \<le> i \<and> i < maxJobId s"

lemma circle_set: "valid_id s i \<Longrightarrow> set (circle s i) = {1..maxJobId s - 1}"
  by (auto simp: circle_def)

lemma circle_distinct: "distinct (circle s i)"
  by (auto simp: circle_def)

lemma circle_length: "valid_id s i \<Longrightarrow> length (circle s i) = nat (maxJobId s - 1)"
  by (auto simp: circle_def)

lemma circle_step:
  assumes "valid_id s i"
  shows "circle s (nextId s i) = tl (circle s i) @ [i]" "hd (circle s i) = i" "circle s i \<noteq> []" "valid_id s (nextId s i)"
proof -
  have c: "[i..maxJobId s - 1] = i # [i + 1..maxJobId s - 1]" using assms by (simp add: upto_rec1)
  have e: "[1..i] = [1..i - 1] @ [i]" using assms upto_rec2 [of 1 i] by simp
  show "circle s (nextId s i) = tl (circle s i) @ [i]"
  proof (cases "maxJobId s \<le> i + 1")
    case True
    then have "i = maxJobId s - 1" using assms by simp
    then show ?thesis using e c True by (simp add: circle_def nextId_def)
  next
    case False
    then show ?thesis using c e by (simp add: circle_def nextId_def)
  qed
  show "hd (circle s i) = i" "circle s i \<noteq> []" using c by (simp_all add: circle_def)
  show "valid_id s (nextId s i)" using assms by (auto simp: nextId_def)
qed

lemma circle_Cons: "valid_id s i \<Longrightarrow> circle s i = i # tl (circle s i)"
  using circle_step(2,3) [of i s] by (cases "circle s i") simp_all

lemma filter_hd: "filter P xs = y # ys \<Longrightarrow> y \<in> set xs \<and> P y"
proof -
  assume "filter P xs = y # ys"
  then have "y \<in> set (filter P xs)" by simp
  then show ?thesis by simp
qed

text \<open>The walk over a taken identifier.\<close>

lemma circle_skip:
  assumes "valid_id s i" and "\<not> free_id s i"
  shows "filter (free_id s) (circle s (nextId s i)) = filter (free_id s) (circle s i)"
proof -
  have "filter (free_id s) (circle s i) = filter (free_id s) (tl (circle s i))"
    using assms(2) by (subst circle_Cons [OF assms(1)]) simp
  then show ?thesis using circle_step(1) [OF assms(1)] assms(2) by simp
qed

text \<open>Starting anywhere, the free identifiers are those of the table.\<close>

lemma circle_free:
  assumes "valid_id s i"
  shows "mset (filter (free_id s) (circle s i)) = mset (freeIds s)"
proof -
  have "mset (circle s i) = mset [1..maxJobId s - 1]"
    using assms circle_set [OF assms] circle_distinct [of s i] by (simp add: set_eq_iff_mset_eq_distinct [symmetric])
  then show ?thesis by (simp add: freeIds_def mset_filter)
qed

text \<open>The number of taken identifiers before the first free one.\<close>

abbreviation gap :: "mbd \<Rightarrow> int \<Rightarrow> int" where
  "gap s i \<equiv> int (length (takeWhile (\<lambda>x. \<not> free_id s x) (circle s i)))"

lemma gap_skip:
  assumes "valid_id s i" and "\<not> free_id s i" and "filter (free_id s) (circle s i) = x # xs"
  shows "gap s (nextId s i) = gap s i - 1"
proof -
  note c = circle_Cons [OF assms(1)]
  have "x \<in> set (i # tl (circle s i))" "free_id s x" using filter_hd [OF assms(3)] c by simp_all
  then have x: "x \<in> set (tl (circle s i))" "free_id s x" using assms(2) by auto
  then have "takeWhile (\<lambda>x. \<not> free_id s x) (tl (circle s i) @ [i]) = takeWhile (\<lambda>x. \<not> free_id s x) (tl (circle s i))"
    by (simp add: takeWhile_append1 [of x])
  moreover have "takeWhile (\<lambda>x. \<not> free_id s x) (circle s i) = i # takeWhile (\<lambda>x. \<not> free_id s x) (tl (circle s i))"
    using assms(2) by (subst c) simp
  ultimately show ?thesis using circle_step(1) [OF assms(1)] by simp
qed

lemma gap_free:
  assumes "valid_id s i" and "filter (free_id s) (circle s i) = x # xs"
  shows "free_id s i \<Longrightarrow> x = i \<and> gap s i = 0" and "gap s i < maxJobId s - 1"
proof -
  note c = circle_Cons [OF assms(1)]
  have f: "filter (free_id s) (i # tl (circle s i)) = x # xs" using assms(2) c by simp
  show "x = i \<and> gap s i = 0" if "free_id s i" using f that by (subst c) simp
  have "x \<in> set (circle s i)" "free_id s x" using filter_hd [OF assms(2)] by simp_all
  then have "takeWhile (\<lambda>x. \<not> free_id s x) (circle s i) \<noteq> circle s i" by (metis set_takeWhileD)
  then have "length (takeWhile (\<lambda>x. \<not> free_id s x) (circle s i)) \<noteq> length (circle s i)"
    by (metis takeWhile_eq_take take_all order_refl)
  then have "length (takeWhile (\<lambda>x. \<not> free_id s x) (circle s i)) < length (circle s i)" using length_takeWhile_le by (metis nat_less_le)
  then show "gap s i < maxJobId s - 1" using circle_length [OF assms(1)] by simp
qed

section \<open>The searches\<close>

lemma freeIdLoop_some:
  assumes "valid_id s i" and "filter (free_id s) (circle s i) = x # xs" and "gap s i + k < maxJobId s"
  shows "freeIdLoop s i k = Some x"
  using assms
proof (induction s i k rule: freeIdLoop.induct)
  case (1 s i k)
  show ?case
  proof (cases "free_id s i")
    case True
    then show ?thesis using gap_free(1) [OF "1.prems"(1,2)] by (simp add: freeIdLoop.simps [of s i k]) (simp add: free_id_def)
  next
    case False
    note g = gap_skip [OF "1.prems"(1) False "1.prems"(2)]
    have t: "getJobData i s \<noteq> NULL" using False by (simp add: free_id_def)
    have m: "\<not> maxJobId s \<le> k + 1" using g "1.prems"(3) by linarith
    have "freeIdLoop s (nextId s i) (k + 1) = Some x"
      using "1.IH" [OF t m circle_step(4) [OF "1.prems"(1)]] circle_skip [OF "1.prems"(1) False] "1.prems"(2,3) g by simp
    then show ?thesis using t m by (simp add: freeIdLoop.simps [of s i k])
  qed
qed

lemma freeIdLoop_none:
  assumes "valid_id s i" and "filter (free_id s) (circle s i) = []"
  shows "freeIdLoop s i k = None"
  using assms
proof (induction s i k rule: freeIdLoop.induct)
  case (1 s i k)
  have f: "\<not> free_id s i" using "1.prems"(2) by (subst (asm) circle_Cons [OF "1.prems"(1)]) (simp split: if_splits)
  have t: "getJobData i s \<noteq> NULL" using f by (simp add: free_id_def)
  then show ?case using "1.IH" [OF t _ circle_step(4) [OF "1.prems"(1)]] circle_skip [OF "1.prems"(1) f] "1.prems"(2)
    by (simp add: freeIdLoop.simps [of s i k])
qed

lemma jobIdLoop_some:
  assumes "valid_id s i" and "filter (free_id s) (circle s i) = x # xs" and "gap s i + k \<le> maxJobId s"
  shows "jobIdLoop s i k = (x, k + gap s i)"
  using assms
proof (induction s i k rule: jobIdLoop.induct)
  case (1 s i k)
  show ?case
  proof (cases "free_id s i")
    case True
    then show ?thesis using gap_free(1) [OF "1.prems"(1,2)] by (simp add: jobIdLoop.simps [of s i k]) (simp add: free_id_def)
  next
    case False
    note g = gap_skip [OF "1.prems"(1) False "1.prems"(2)]
    have t: "getJobData i s \<noteq> NULL \<and> k \<le> maxJobId s" using False "1.prems"(3) by (simp add: free_id_def)
    have "jobIdLoop s (nextId s i) (k + 1) = (x, k + 1 + gap s (nextId s i))"
      using "1.IH" [OF t circle_step(4) [OF "1.prems"(1)]] circle_skip [OF "1.prems"(1) False] "1.prems"(2,3) g by simp
    then show ?thesis using t g by (simp add: jobIdLoop.simps [of s i k])
  qed
qed

lemma jobIdLoop_none:
  assumes "valid_id s i" and "filter (free_id s) (circle s i) = []" and "k \<le> maxJobId s + 1"
  shows "valid_id s (fst (jobIdLoop s i k)) \<and> snd (jobIdLoop s i k) = maxJobId s + 1"
  using assms
proof (induction s i k rule: jobIdLoop.induct)
  case (1 s i k)
  have f: "\<not> free_id s i" using "1.prems"(2) by (subst (asm) circle_Cons [OF "1.prems"(1)]) (simp split: if_splits)
  show ?case
  proof (cases "k \<le> maxJobId s")
    case True
    then have t: "getJobData i s \<noteq> NULL \<and> k \<le> maxJobId s" using f by (simp add: free_id_def)
    then show ?thesis using "1.IH" [OF t circle_step(4) [OF "1.prems"(1)]] circle_skip [OF "1.prems"(1) f] "1.prems"(2)
      by (simp add: jobIdLoop.simps [of s i k])
  next
    case False
    then show ?thesis using "1.prems" by (simp add: jobIdLoop.simps [of s i k])
  qed
qed

text \<open>The walk from the first free identifier goes on with the others.\<close>

lemma first_free:
  assumes "valid_id s i" and "filter (free_id s) (circle s i) = x # xs"
  shows "valid_id s x \<and> filter (free_id s) (circle s x) = x # xs"
  using assms
proof (induction "nat (gap s i)" arbitrary: i rule: less_induct)
  case less
  show ?case
  proof (cases "free_id s i")
    case True
    then show ?thesis using gap_free(1) [OF less.prems] less.prems by simp
  next
    case False
    note g = gap_skip [OF less.prems(1) False less.prems(2)]
    have "nat (gap s (nextId s i)) < nat (gap s i)" using g by linarith
    then show ?thesis using less.hyps circle_step(4) [OF less.prems(1)] circle_skip [OF less.prems(1) False] less.prems(2) by metis
  qed
qed

lemma next_free:
  assumes "valid_id s i" and "filter (free_id s) (circle s i) = x # xs"
  shows "valid_id s (nextId s x)" "filter (free_id s) (circle s (nextId s x)) = rotate1 (x # xs)"
proof -
  have x: "valid_id s x" "filter (free_id s) (circle s x) = x # xs" using first_free [OF assms] by simp_all
  have "free_id s x" using filter_hd [OF assms(2)] by simp
  moreover have "filter (free_id s) (x # tl (circle s x)) = x # xs" using x(2) circle_Cons [OF x(1)] by simp
  ultimately have "filter (free_id s) (tl (circle s x)) = xs" by simp
  then show "filter (free_id s) (circle s (nextId s x)) = rotate1 (x # xs)"
    using circle_step(1) [OF x(1)] \<open>free_id s x\<close> by simp
  show "valid_id s (nextId s x)" by (rule circle_step(4) [OF x(1)])
qed

lemma cyclic_Cons:
  assumes "xs \<noteq> []"
  shows "map (\<lambda>k. xs ! (k mod length xs)) [0..<Suc n] = hd xs # map (\<lambda>k. rotate1 xs ! (k mod length xs)) [0..<n]"
proof -
  have "rotate1 xs ! (k mod length xs) = xs ! (Suc k mod length xs)" for k
    using assms nth_rotate1 [of "k mod length xs" xs] by (simp add: mod_Suc_eq)
  then have "map (\<lambda>k. rotate1 xs ! (k mod length xs)) [0..<n] = map (\<lambda>k. xs ! (k mod length xs)) (map Suc [0..<n])" by simp
  moreover have "[0..<Suc n] = 0 # map Suc [0..<n]" by (simp add: map_Suc_upt upt_conv_Cons)
  moreover have "xs ! 0 = hd xs" using assms by (simp add: hd_conv_nth)
  ultimately show ?thesis by simp
qed

lemma batchLoop_cyclic:
  assumes "valid_id s i" and "filter (free_id s) (circle s i) \<noteq> []"
  shows "\<exists>c. valid_id s c \<and> batchLoop s n i ids =
    Some (ids @ map (\<lambda>k. filter (free_id s) (circle s i) ! (k mod length (filter (free_id s) (circle s i)))) [0..<n], c)"
  using assms
proof (induction n arbitrary: i ids)
  case (Suc n)
  let ?F = "filter (free_id s) (circle s i)"
  obtain x xs where F: "?F = x # xs" using Suc.prems(2) by (cases ?F) auto
  have l: "freeIdLoop s i 0 = Some x" using freeIdLoop_some [OF Suc.prems(1) F] gap_free(2) [OF Suc.prems(1) F] by simp
  note n = next_free [OF Suc.prems(1) F]
  have "filter (free_id s) (circle s (nextId s x)) \<noteq> []" unfolding n(2) by simp
  then obtain c where "valid_id s c" "batchLoop s n (nextId s x) (ids @ [x]) =
      Some ((ids @ [x]) @ map (\<lambda>k. rotate1 (x # xs) ! (k mod length (rotate1 (x # xs)))) [0..<n], c)"
    using Suc.IH [OF n(1)] unfolding n(2) by blast
  moreover have "map (\<lambda>k. ?F ! (k mod length ?F)) [0..<Suc n] = x # map (\<lambda>k. rotate1 (x # xs) ! (k mod length (rotate1 (x # xs)))) [0..<n]"
    unfolding F using cyclic_Cons [of "x # xs" n] by simp
  ultimately show ?case using l by (intro exI [of _ c]) (simp del: upt_Suc)
qed simp

section \<open>Properties\<close>

text \<open>Where the search starts.\<close>

definition startId :: "mbd \<Rightarrow> int" where
  "startId s = (if nextJobId s < maxJobId s then nextJobId s else 1)"

lemma startId_valid: "1 \<le> nextJobId s \<Longrightarrow> 2 \<le> maxJobId s \<Longrightarrow> valid_id s (startId s)"
  by (simp add: startId_def)

lemma no_free: "valid_id s i \<Longrightarrow> filter (free_id s) (circle s i) = [] \<longleftrightarrow> freeIds s = []"
  using circle_free [of i s] by (metis mset_zero_iff)

lemma free_length: "valid_id s i \<Longrightarrow> length (filter (free_id s) (circle s i)) = length (freeIds s)"
  using circle_free [of i s] by (metis size_mset)

lemma free_set: "valid_id s i \<Longrightarrow> set (filter (free_id s) (circle s i)) = set (freeIds s)"
  using circle_free [of i s] by (metis set_mset_mset)

lemma cyclic_subset: "xs \<noteq> [] \<Longrightarrow> set (map (\<lambda>k. xs ! (k mod length xs)) [0..<n]) \<subseteq> set xs"
  by auto

lemma cyclic_distinct:
  assumes "distinct xs" and "xs \<noteq> []"
  shows "distinct (map (\<lambda>k. xs ! (k mod length xs)) [0..<n]) \<longleftrightarrow> n \<le> length xs"
proof
  assume "n \<le> length xs"
  then show "distinct (map (\<lambda>k. xs ! (k mod length xs)) [0..<n])"
    using assms by (auto simp: distinct_map inj_on_def nth_eq_iff_index_eq)
next
  assume d: "distinct (map (\<lambda>k. xs ! (k mod length xs)) [0..<n])"
  have "card (set (map (\<lambda>k. xs ! (k mod length xs)) [0..<n])) \<le> card (set xs)"
    by (intro card_mono cyclic_subset assms(2)) simp
  then show "n \<le> length xs" using distinct_card [OF d] distinct_card [OF assms(1)] by simp
qed

text \<open>
  C7. \<open>getNextJobId\<close> ends, and it fails exactly when every identifier below
  \<open>maxJobId\<close> is taken; otherwise it returns the first free identifier at or
  after \<open>nextJobId\<close>, going around, and leaves \<open>nextJobId\<close> in range behind it.
  \<open>maxJobId\<close> itself is never assigned (the manual page calls it the highest
  identifier that is).
\<close>

theorem getNextJobId_free:
  assumes "1 \<le> nextJobId s" and "2 \<le> maxJobId s"
  shows "(case filter (free_id s) (circle s (startId s)) of
       [] \<Rightarrow> freeIds s = [] \<and> fst (getNextJobId s) = -1
     | i # _ \<Rightarrow> i \<in> set (freeIds s) \<and> getNextJobId s = (i, s\<lparr>nextJobId := nextId s i\<rparr>)) \<and>
    1 \<le> nextJobId (snd (getNextJobId s)) \<and> nextJobId (snd (getNextJobId s)) < maxJobId s"
proof -
  note v = startId_valid [OF assms]
  have eq: "getNextJobId s = (let (jid, i) = jobIdLoop s (startId s) 0
      in if maxJobId s \<le> i then (-1, s\<lparr>nextJobId := jid\<rparr>) else (jid, s\<lparr>nextJobId := nextId s jid\<rparr>))"
    by (simp add: getNextJobId_def startId_def)
  show ?thesis
  proof (cases "filter (free_id s) (circle s (startId s))")
    case Nil
    then have "valid_id s (fst (jobIdLoop s (startId s) 0))" "snd (jobIdLoop s (startId s) 0) = maxJobId s + 1"
      using jobIdLoop_none [OF v Nil, of 0] assms by simp_all
    then show ?thesis using Nil no_free [OF v] by (simp add: eq split_beta Let_def)
  next
    case (Cons x xs)
    have "jobIdLoop s (startId s) 0 = (x, gap s (startId s))" "gap s (startId s) < maxJobId s"
      using jobIdLoop_some [OF v Cons, of 0] gap_free(2) [OF v Cons] by simp_all
    then have g: "getNextJobId s = (x, s\<lparr>nextJobId := nextId s x\<rparr>)" by (simp add: eq)
    have "x \<in> set (freeIds s)" using free_set [OF v] Cons by auto
    then show ?thesis using Cons g next_free(1) [OF v Cons] by simp
  qed
qed

text \<open>A table of two identifiers, the first of them taken.\<close>

definition mbd6 :: mbd where
  "mbd6 = (mbd1 JOB_STAT_PEND)\<lparr>maxJobId := 3, jobIdHT := [1 \<mapsto> 6]\<rparr>"

lemma mbd6_ids: "nextJobId mbd6 = 1" "maxJobId mbd6 = 3" "startId mbd6 = 1" "free_id mbd6 1 = False" "free_id mbd6 2 = True"
  by (simp_all add: mbd6_def mbd1_def startId_def free_id_def getJobData_def)

lemma mbd6_free: "freeIds mbd6 = [2]" "filter (free_id mbd6) (circle mbd6 1) = [2]"
  by (simp_all add: freeIds_def circle_def mbd6_ids upto_rec1)

theorem getNextJobId_free_witness:
  "getNextJobId mbd6 = (2, mbd6\<lparr>nextJobId := 1\<rparr>)"
  using getNextJobId_free [of mbd6] by (simp add: mbd6_ids mbd6_free nextId_def)

text \<open>
  C8. A batch of identifiers consists of free ones only, and it is allocated
  whenever there is one; but the identifiers of a batch are different from each
  other only if there are as many free identifiers as the batch asks for, since
  the loop does not remember what it handed out.
\<close>

theorem batchAllocateJobIds_ids:
  assumes "1 \<le> nextJobId s" and "2 \<le> maxJobId s" and "1 \<le> n" and "n \<le> 10000"
  shows "case batchAllocateJobIds n s of (r, ids, s') \<Rightarrow>
    if freeIds s = [] then r = -1 \<and> ids = []
    else r = startId s \<and> length ids = nat n \<and> set ids \<subseteq> set (freeIds s) \<and>
      (distinct ids \<longleftrightarrow> nat n \<le> length (freeIds s)) \<and> 1 \<le> nextJobId s' \<and> nextJobId s' < maxJobId s"
proof -
  note v = startId_valid [OF assms(1,2)]
  let ?F = "filter (free_id s) (circle s (startId s))"
  have eq: "batchAllocateJobIds n s = (case batchLoop s (nat n) (startId s) [] of
      None \<Rightarrow> (-1, [], s\<lparr>nextJobId := startId s\<rparr>)
    | Some (ids, c) \<Rightarrow> (startId s, ids, s\<lparr>nextJobId := c\<rparr>))"
    using assms(3,4) by (simp add: batchAllocateJobIds_def startId_def [symmetric] Let_def)
  show ?thesis
  proof (cases "freeIds s = []")
    case True
    then have "freeIdLoop s (startId s) 0 = None" using freeIdLoop_none [OF v] no_free [OF v] by simp
    then have "batchLoop s (nat n) (startId s) [] = None" using assms(3) by (cases "nat n") simp_all
    then show ?thesis using True by (simp add: eq)
  next
    case False
    then have ne: "?F \<noteq> []" using no_free [OF v] by simp
    obtain c where c: "valid_id s c"
      "batchLoop s (nat n) (startId s) [] = Some (map (\<lambda>k. ?F ! (k mod length ?F)) [0..<nat n], c)"
      using batchLoop_cyclic [OF v ne, of "nat n" "[]"] by auto
    note cyclic_subset [OF ne, of "nat n"]
    moreover have "distinct ?F" using circle_distinct by simp
    ultimately show ?thesis
      using False c cyclic_distinct [OF _ ne, of "nat n"] free_set [OF v] free_length [OF v] by (simp add: eq)
  qed
qed

theorem batchAllocateJobIds_ids_witness:
  "case batchAllocateJobIds 2 mbd6 of (r, ids, s') \<Rightarrow> r = 1 \<and> length ids = 2 \<and> set ids \<subseteq> {2} \<and> \<not> distinct ids"
  using batchAllocateJobIds_ids [of mbd6 2] by (simp add: mbd6_ids mbd6_free split_beta)

end
