(* ===== verification/Job_Modify.thy ===== *)
theory Job_Modify
  imports Job_Life
begin

text \<open>
  What happens to the books when a job finishes for which a modification for one
  run (\<open>bmod\<close> with \<open>SUB_MODIFY_ONCE\<close>) is waiting: \<open>handleFinishJob\<close> of
  \<open>lsbatch/daemons/mbd.job.c\<close> calls \<open>changeJobParams\<close>, which replaces the bill and
  the queue of the job, before \<open>jStatusChange\<close> calls \<open>updCounters\<close>.
\<close>

section \<open>Finishing a job that was modified for one run\<close>

lemma handleFinishJob_modified:
  assumes "modifies_once s j"
  shows "\<exists>s'. calm s s' \<and> newSub (jD s' j) = newSub (jD s j) \<and> handleFinishJob j old s = changeJobParams j s'"
proof -
  define s1 where "s1 = (if (has (jb_options (bill s j)) SUB_RERUNNABLE \<or> has (pe_sigDel (pendEvent (jD s j))) DEL_ACTION_REQUEUE) \<and>
      (has old JOB_STAT_ZOMBIE \<or> has (pe_sigDel (pendEvent (jD s j))) DEL_ACTION_REQUEUE) \<and> \<not> has (newReason (jD s j)) EXIT_KILL_ZOMBIE
    then upd_j j (\<lambda>j. j\<lparr>jFlags := jFlags j OR JFLAG_REQUEUE\<rparr>) s else s)"
  define s2 where "s2 = upd_j j (\<lambda>j. j\<lparr>jStatus := jStatus j AND NOT JOB_STAT_MIG,
                pendEvent := (pendEvent j)\<lparr>pe_sig1 := SIG_NULL, pe_sig := SIG_NULL, notSwitched := False,
                                           notModified := False\<rparr>\<rparr>) s1"
  define s3 where "s3 = offJobList j (if IS_START old then SJL else PJLorMJL j s2) s2"
  define s4 where "s4 = s3\<lparr>jDataList := (jDataList s3)(FJL := j # jDataList s3 FJL)\<rparr>"
  have "calm s s1" "calm s1 s2" "calm s2 s3" "calm s3 s4"
    unfolding s1_def s2_def s3_def s4_def
    by (auto simp: core_def stat_simps flag_core calm_offJobList intro!: calm_upd_j)
  then have "calm s s4" using calm_trans by meson
  moreover have n: "newSub (jD s4 j) = newSub (jD s j)"
    by (simp add: s4_def s3_def s2_def s1_def offJobList_def Let_def)
  moreover have "handleFinishJob j old s = changeJobParams j s4"
    using assms n by (simp only: modifies_once_def handleFinishJob_def Let_def s1_def s2_def s3_def s4_def simp_thms if_True)
  ultimately show ?thesis by blast
qed

lemma changeFinish_modified:
  assumes "modifies_once s j"
  shows "\<exists>s'. calm s s' \<and> newSub (jD s' j) = newSub (jD s j) \<and> changeFinish j old et s = changeJobParams j s'"
proof -
  define s1 where "s1 = (if \<not> has (status s j) JOB_STAT_ZOMBIE \<and> newReason (jD s j) \<noteq> EXIT_INIT_ENVIRON \<and>
      newReason (jD s j) \<noteq> EXIT_NO_MAPPING \<and> newReason (jD s j) \<noteq> EXIT_PRE_EXEC
    then upd_j j (\<lambda>j. j\<lparr>newReason := EXIT_NORMAL\<rparr>) s else s)"
  define s2 where "s2 = (if (has (jb_options (bill s1 j)) SUB_INTERACTIVE \<or> has (jb_options2 (bill s1 j)) SUB2_BSUB_BLOCK) \<and>
      et = LOG_IT \<and> \<not> has (status s1 j) JOB_STAT_ZOMBIE
    then call (Call_breakCallback j (IS_PEND old)) s1 else s1)"
  define s3 where "s3 = (if et = LOG_IT then call (Call_log_newstatus j) s2 else s2)"
  define s4 where "s4 = (if runCount (jD s3 j) \<noteq> INFINIT_INT
    then upd_j j (\<lambda>j. j\<lparr>runCount := max 0 (runCount j - 1)\<rparr>) s3 else s3)"
  have eq: "changeFinish j old et s = handleFinishJob j old s4"
    by (simp only: changeFinish_def Let_def s1_def s2_def s3_def s4_def)
  have "mild s s1" "mild s3 s4"
    unfolding s1_def s4_def by (rule mild_if, rule mild_upd_j, simp add: core_def)+
  moreover have "mild s1 s2" "mild s2 s3" unfolding s2_def s3_def by simp_all
  ultimately have m: "mild s s4" using mild_trans by meson
  then have "modifies_once s4 j" "newSub (jD s4 j) = newSub (jD s j)" "calm s s4"
    using assms same_lists_modifies [of s s4 j] by (simp_all add: mild_def same_lists_def)
  then show ?thesis unfolding eq using handleFinishJob_modified [of s4 j old] calm_trans [of s s4] by metis
qed

lemma changeJobParams_effect:
  assumes "newSub (jD s j) = Some sub" and "\<not> has (jb_options sub) SUB_HOST"
  shows "same_cnts s (changeJobParams j s)" "req_of (changeJobParams j s) j = jb_maxNumProcessors sub"
    "jstate (status (changeJobParams j s) j) = jstate (status s j)"
    "uPtr (jD (changeJobParams j s) j) = uPtr (jD s j)"
    "mSchedStage (changeJobParams j s) = mSchedStage s" "user_ready (changeJobParams j s) = user_ready s"
    "i \<noteq> j \<Longrightarrow> jD (changeJobParams j s) i = jD s i"
    "a \<noteq> shared (jD s j) \<Longrightarrow> jobBill (shD (changeJobParams j s) a) = jobBill (shD s a)"
  using assms
  by (simp_all add: changeJobParams_def Let_def same_cnts_def proj_defs user_ready_def stat_simps upd_sh_def
      flag_core split: if_splits)


lemma updCounters_pend_exit:
  assumes "jstate (status s j) = JOB_STAT_EXIT" and "user_ready s (uPtr (jD s j))"
  shows "frame s (updCounters j JOB_STAT_PEND et s) \<and> qcn (updCounters j JOB_STAT_PEND et s) =
    charge (Cnts (- req_of s j) (- req_of s j) 0 0 0 0) (qcn s) [qPtr (jD s j)]"
proof -
  define s0 where "s0 = (if et = LOG_IT then call (Call_detachedJobFromFSTree j) (call (Call_accumHistCpuTime j) s) else s)"
  have q: "quiet s s0" unfolding s0_def using quiet_trans [OF quiet_call quiet_call] by auto
  then have f: "frame s s0" "qcn s0 = qcn s" by (simp_all add: quiet_def same_cnts_def)
  have "user_ready s0 (uPtr (jD s0 j))" using assms(2) user_ready_frame [OF f(1)] frame_views(5) [OF f(1)] by simp
  note a = acct_QU_cnts [OF this, of "Cnts (- req_of s j) (- req_of s j) 0 0 0 0"]
  have "updCounters j JOB_STAT_PEND et s = acct_QU j (Cnts (- req_of s j) (- req_of s j) 0 0 0 0) s0"
    using assms(1) has_state_cong [of "status s j" JOB_STAT_EXIT]
    by (simp add: updCounters_def Let_def s0_def stat_eval)
  then show ?thesis using a f frame_trans [OF f(1)] frame_views(1) [OF f(1)] by (simp add: f frame_def)
qed

lemma finish_modified:
  assumes ok: "jobs_ok J s" and j: "j \<in> J" and stage: "mSchedStage s \<noteq> M_STAGE_REPLAY"
    and st: "status s j = JOB_STAT_PEND" and once: "modifies_once s j"
    and sub: "newSub (jD s j) = Some sub" "\<not> has (jb_options sub) SUB_HOST"
    and t_def: "t = jStatusChange j JOB_STAT_EXIT et s"
  shows "\<exists>q. qcn t = charge (Cnts (- jb_maxNumProcessors sub) (- jb_maxNumProcessors sub) 0 0 0 0) (qcn s) [q]"
    and "jstate (status t j) = JOB_STAT_EXIT"
    and "i \<noteq> j \<Longrightarrow> shared (jD s i) \<noteq> shared (jD s j) \<Longrightarrow> jcn t i = jcn s i \<and> qPtr (jD t i) = qPtr (jD s i)"
proof -
  define new where "new = MASK_STATUS JOB_STAT_EXIT"
  define s2 where "s2 = changeBegin j new et s"
  define st' where "st' = SET_STATE JOB_STAT_PEND new"
  have b: "begun j new et s = s" using st by (simp add: begun_def has_def stat_consts stat_flags)
  have m2: "mild (set_stat j st' s) s2"
    using changeBegin_step [OF refl, of j JOB_STAT_EXIT et s] by (simp add: s2_def new_def [symmetric] b st st'_def)
  have once2: "modifies_once s2 j" and sub2: "newSub (jD s2 j) = Some sub"
    using m2 same_lists_modifies [of "set_stat j st' s" s2 j] once sub(1)
    by (simp_all add: mild_def same_lists_def modifies_once_def set_stat_def)
  obtain s' where s': "calm s2 s'" "newSub (jD s' j) = Some sub"
    "changeFinish j JOB_STAT_PEND et s2 = changeJobParams j s'"
    using changeFinish_modified [OF once2, of JOB_STAT_PEND et] sub2 by metis
  have c: "calm (set_stat j st' s) s'" using m2 s'(1) calm_trans by (auto simp: mild_def)
  define s3 where "s3 = changeJobParams j s'"
  note e = changeJobParams_effect [OF s'(2) sub(2), folded s3_def]
  note v = calm_views [OF c]
  have t: "t = updCounters j JOB_STAT_PEND et s3"
    using s'(3) stage e(5) v(12) unfolding t_def
    by (simp add: jStatusChange_unfold st Let_def change_case_def changeCount_def s3_def s2_def new_def stat_eval set_stat_def)
  have js: "jstate (status s3 j) = JOB_STAT_EXIT"
    using e(3) v(13) by (simp add: set_stat_views st'_def new_def stat_eval SET_STATE_def)
  have "job_ok s' j" using ok j by (simp add: v(5) set_stat_views jobs_ok_def)
  then have "user_ready s3 (uPtr (jD s3 j))" using e(4,6) by (simp add: job_ok_def)
  note u = updCounters_pend_exit [OF js this, of et, folded t]
  show "jstate (status t j) = JOB_STAT_EXIT" using js u by (simp add: frame_def)
  show "\<exists>q. qcn t = charge (Cnts (- jb_maxNumProcessors sub) (- jb_maxNumProcessors sub) 0 0 0 0) (qcn s) [q]"
    using u e(1,2) v(7) by (auto simp: same_cnts_def set_stat_views)
  show "jcn t i = jcn s i \<and> qPtr (jD t i) = qPtr (jD s i)" if "i \<noteq> j" "shared (jD s i) \<noteq> shared (jD s j)"
  proof -
    have s3: "jD s3 i = jD s' i" using e(7) that(1) by simp
    have k: "core (jD s' k) = core (jD (set_stat j st' s) k)" for k using c by (simp add: calm_def)
    have "shared (jD s' i) = shared (jD s i)" "shared (jD s' j) = shared (jD s j)"
      using core_views(6) [OF k [of i]] core_views(6) [OF k [of j]] by (simp_all add: set_stat_def)
    with that(2) have "req_of s3 i = req_of s' i" using e(8) s3 by simp
    with s3 have "jcn s3 i = jcn s' i" by (simp add: jcn_def)
    also have "\<dots> = jcn s i" using that(1) by (simp add: v(1) set_stat_views)
    finally have "jcn s3 i = jcn s i" .
    moreover have "qPtr (jD s3 i) = qPtr (jD s i)" using s3 v(6) [of i] by (simp add: set_stat_views)
    ultimately show ?thesis using u frame_views(1,5) [of s3 t] by simp
  qed
qed

lemma numPEND_total: "numPEND (total J w jc x) = (\<Sum>i\<in>J. int (count_list (w i) x) * numPEND (jc i))"
  unfolding total_def by (induction J rule: infinite_finite_induct) (simp_all add: zero_cnts_def plus_cnts_def)

section \<open>Properties\<close>

text \<open>
  C11. Finishing a pending job that carries a modification for one run
  (\<open>SUB_MODIFY_ONCE\<close>) unbalances the books, outside the replay of the event log,
  whenever the modified bill asks for fewer processors (and names no hosts, and
  no other job shares the bill): \<open>handleFinishJob\<close> puts the new bill in place before
  the counters are updated, and \<open>updCounters\<close> takes off what the new bill asks for.
\<close>

theorem modify_once_unbalances:
  assumes "jobs_ok J s" and "books J s" and "j \<in> J" and "mSchedStage s \<noteq> M_STAGE_REPLAY"
    and "jStatus (jD s j) = JOB_STAT_PEND" and "has (jb_options (bill s j)) SUB_MODIFY_ONCE"
    and "newSub (jD s j) = Some sub" and "\<not> has (jb_options sub) SUB_HOST"
    and "0 \<le> jb_maxNumProcessors sub" and "jb_maxNumProcessors sub < jb_maxNumProcessors (bill s j)"
    and "\<forall>i \<in> J. i \<noteq> j \<longrightarrow> shared (jD s i) \<noteq> shared (jD s j)"
  shows "\<not> books J (jStatusChange j JOB_STAT_EXIT eventTime s)"
proof
  define t where "t = jStatusChange j JOB_STAT_EXIT eventTime s"
  let ?q = "qPtr (jD s j)" and ?r = "jb_maxNumProcessors sub"
  assume "books J (jStatusChange j JOB_STAT_EXIT eventTime s)"
  then have bt: "qcn t = total J (\<lambda>i. [qPtr (jD t i)]) (jcn t)" by (simp add: t_def books_def books_with_def)
  have fin: "finite J" using assms(1) by (simp add: jobs_ok_def)
  have "modifies_once s j" using assms(6,7) by (simp add: modifies_once_def)
  note f = finish_modified [OF assms(1,3,4,5) this assms(7,8) t_def]
  have jt: "jcn t j = 0" using has_state_cong [of "status t j" JOB_STAT_EXIT] f(2) by (simp add: jcn_def job_cnts_def stat_eval)
  have js: "jcn s j = Cnts (req_of s j) (req_of s j) 0 0 0 0" using assms(5) by (simp add: jcn_def job_cnts_def stat_eval)
  have others: "jcn t i = jcn s i \<and> qPtr (jD t i) = qPtr (jD s i)" if "i \<in> J - {j}" for i
    using f(3) assms(11) that by blast
  let ?sum = "\<Sum>i\<in>J - {j}. int (count_list [qPtr (jD s i)] ?q) * numPEND (jcn s i)"
  have "numPEND (qcn t ?q) = (\<Sum>i\<in>J - {j}. int (count_list [qPtr (jD t i)] ?q) * numPEND (jcn t i))"
    unfolding bt numPEND_total by (subst sum.remove [OF fin assms(3)]) (simp add: jt zero_cnts_def)
  also have "\<dots> = ?sum" by (rule sum.cong) (use others in auto)
  finally have a: "numPEND (qcn t ?q) = ?sum" .
  have "qcn s = total J (\<lambda>i. [qPtr (jD s i)]) (jcn s)" using assms(2) by (simp add: books_def books_with_def)
  then have b: "numPEND (qcn s ?q) = req_of s j + ?sum"
    using sum.remove [OF fin assms(3), of "\<lambda>i. int (count_list [qPtr (jD s i)] ?q) * numPEND (jcn s i)"] js
    by (simp add: numPEND_total)
  obtain q where "qcn t = charge (Cnts (- ?r) (- ?r) 0 0 0 0) (qcn s) [q]" using f(1) by blast
  then have "numPEND (qcn s ?q) - ?r \<le> numPEND (qcn t ?q)" using assms(9) by (simp add: addCnts_def addValue_def Let_def)
  with a b assms(10) show False by simp
qed

text \<open>The cluster of one pending job, whose bill is to be replaced by one for a single processor.\<close>

definition mbd7 :: mbd where
  "mbd7 = (let s = mbd1 JOB_STAT_PEND in
     s\<lparr>shD := (\<lambda>_. jShared1\<lparr>jobBill := (jobBill jShared1)\<lparr>jb_options := SUB_MODIFY_ONCE\<rparr>\<rparr>),
       jD := (\<lambda>_. (jData1 JOB_STAT_PEND)\<lparr>newSub := Some ((jobBill jShared1)\<lparr>jb_maxNumProcessors := 1\<rparr>)\<rparr>)\<rparr>)"

theorem modify_once_unbalances_witness:
  "books {6} mbd7 \<and> \<not> books {6} (jStatusChange 6 JOB_STAT_EXIT LOG_IT mbd7)"
proof -
  have "calm (mbd1 JOB_STAT_PEND) mbd7"
    by (simp add: mbd7_def Let_def calm_def same_cnts_def proj_defs core_def) (simp add: cluster1_defs)
  then have "jobs_ok {6} mbd7" "books {6} mbd7" using mbd1_ok mbd1_books calm_jobs_ok calm_books by blast+
  then show ?thesis
    using modify_once_unbalances [of "{6}" mbd7 6 "(jobBill jShared1)\<lparr>jb_maxNumProcessors := 1\<rparr>" LOG_IT]
    by (simp add: mbd7_def Let_def cluster1_defs has_def M_STAGE_REPLAY_def SUB_MODIFY_ONCE_def)
qed

end
