(* ===== verification/Array_Laws.thy ===== *)
theory Array_Laws
  imports Job_Array
begin

unbundle bit_operations_syntax

text \<open>
  Laws of job arrays: identifiers of array elements, membership in index lists,
  and index specifications as text.
\<close>

section \<open>Identifiers of elements\<close>

lemma c_int_id: "- (2 ^ 31) \<le> i \<Longrightarrow> i < 2 ^ 31 \<Longrightarrow> c_int i = i"
  by (simp add: c_int_def int_word_sint)

lemma or_shift:
  assumes "0 \<le> (j :: int)" and "j < 2 ^ 32"
  shows "push_bit 32 i OR j = i * 2 ^ 32 + j"
proof -
  have "push_bit 32 i AND j = 0"
  proof (rule bit_eqI)
    fix n
    have "\<not> bit j n" if "32 \<le> n"
    proof -
      have "j < 2 ^ n" using assms(2) power_increasing [OF that, of "2 :: int"] by simp
      then have "take_bit n j = j" using assms(1) by (simp add: take_bit_int_eq_self)
      then show ?thesis by (metis bit_take_bit_iff less_irrefl)
    qed
    then show "bit (push_bit 32 i AND j) n \<longleftrightarrow> bit 0 n" by (auto simp: bit_and_iff bit_push_bit_iff)
  qed
  then show ?thesis using disjunctive_add_eq_or [of "push_bit 32 i" j] by (simp add: push_bit_eq_mult)
qed

lemma LSB_JOBID_value:
  assumes "0 \<le> j" and "j < 2 ^ 31" and "0 \<le> i" and "i \<le> LSB_MAX_ARRAY_IDX"
  shows "LSB_JOBID j i = i * 2 ^ 32 + j"
proof -
  have "push_bit 32 (word_of_int i) OR word_of_int j = (word_of_int (push_bit 32 i OR j) :: 64 word)"
    by (simp only: of_int_or_eq of_int_push_bit)
  also have "push_bit 32 i OR j = i * 2 ^ 32 + j" by (rule or_shift) (use assms in simp_all)
  finally have w: "push_bit 32 (word_of_int i) OR word_of_int j = (word_of_int (i * 2 ^ 32 + j) :: 64 word)" .
  have "0 \<le> i * 2 ^ 32 + j" "i * 2 ^ 32 + j < 2 ^ 63" using assms by (simp_all add: LSB_MAX_ARRAY_IDX_def)
  then show ?thesis unfolding LSB_JOBID_def w int_word_sint by simp
qed

lemma and_ones: "x AND (2 ^ n - 1) = x mod 2 ^ n" for x :: int
  using take_bit_eq_mask [of n x] by (simp add: mask_eq_exp_minus_1 take_bit_eq_mod)

lemma jobid_parts:
  assumes "0 \<le> j" and "j < 2 ^ 31" and "0 \<le> i" and "i \<le> LSB_MAX_ARRAY_IDX"
  shows "LSB_ARRAY_IDX (LSB_JOBID j i) = i" "LSB_ARRAY_JOBID (LSB_JOBID j i) = j"
proof -
  let ?v = "i * 2 ^ 32 + j"
  have b: "0 \<le> ?v" "?v < 2 ^ 63" "?v \<noteq> -1" using assms by (simp_all add: LSB_MAX_ARRAY_IDX_def)
  have u: "uint (word_of_int ?v :: 64 word) = ?v" unfolding uint_word_of_int using b by simp
  have m: "uint (word_of_int LSB_MAX_ARRAY_IDX :: 64 word) = 2 ^ 16 - 1" "uint LSB_MAX_ARRAY_JOBID = 2 ^ 32 - 1"
    by (simp_all add: LSB_MAX_ARRAY_IDX_def LSB_MAX_ARRAY_JOBID_def)
  have d: "uint (drop_bit 32 (word_of_int ?v) :: 64 word) = ?v div 2 ^ 32"
    unfolding drop_bit_eq_div uint_div u by simp
  have "uint (drop_bit 32 (word_of_int ?v) AND word_of_int LSB_MAX_ARRAY_IDX :: 64 word) = ?v div 2 ^ 32 mod 2 ^ 16"
    by (simp only: uint_and d m and_ones)
  moreover have "?v div 2 ^ 32 = i" using assms by simp
  ultimately show "LSB_ARRAY_IDX (LSB_JOBID j i) = i"
    using b(3) assms unfolding LSB_JOBID_value [OF assms] by (simp add: LSB_ARRAY_IDX_def LSB_MAX_ARRAY_IDX_def c_int_id)
  have "uint (word_of_int ?v AND LSB_MAX_ARRAY_JOBID) = ?v mod 2 ^ 32"
    by (simp only: uint_and u m and_ones)
  moreover have "?v mod 2 ^ 32 = j" using assms by simp
  ultimately show "LSB_ARRAY_JOBID (LSB_JOBID j i) = j"
    using b(3) assms unfolding LSB_JOBID_value [OF assms] by (simp add: LSB_ARRAY_JOBID_def c_int_id)
qed

section \<open>Index lists\<close>

text \<open>The values of a range without the bounds of \<open>int\<close>.\<close>

function idxSeq :: "int \<Rightarrow> int \<Rightarrow> int \<Rightarrow> int list" where
  "idxSeq i e step = (if i \<le> e \<and> 0 < step then i # idxSeq (i + step) e step else [])"
  by pat_completeness auto
termination
  by (relation "measure (\<lambda>(i, e, _). nat (e + 1 - i))") auto

declare idxSeq.simps [simp del]

lemma idxSeq_mem:
  assumes "0 < st"
  shows "x \<in> set (idxSeq i e st) \<longleftrightarrow> i \<le> x \<and> x \<le> e \<and> (x - i) mod st = 0"
  using assms
proof (induction i e st rule: idxSeq.induct)
  case (1 i e st)
  show ?case
  proof (cases "i \<le> e")
    case True
    have "(x - (i + st)) mod st = (x - i) mod st" by (metis diff_diff_eq minus_mod_self2)
    moreover have "x = i \<or> i + st \<le> x" if "i \<le> x" "(x - i) mod st = 0"
    proof -
      have "x - i = 0 \<or> st \<le> x - i" using that "1.prems" zdvd_imp_le [of st "x - i"] by fastforce
      then show ?thesis by auto
    qed
    ultimately show ?thesis
      using True "1.prems" "1.IH" by (subst idxSeq.simps) auto
  next
    case False
    then show ?thesis by (subst idxSeq.simps) auto
  qed
qed

lemma idxSeq_length: "0 < st \<Longrightarrow> i \<le> e \<Longrightarrow> int (length (idxSeq i e st)) = (e - i) div st + 1"
proof (induction i e st rule: idxSeq.induct)
  case (1 i e st)
  show ?case
  proof (cases "i + st \<le> e")
    case True
    then have "int (length (idxSeq (i + st) e st)) = (e - (i + st)) div st + 1" using "1.IH" "1.prems" by simp
    moreover have "(e - (i + st)) div st = (e - i) div st - 1"
      using "1.prems" div_mult_self1 [of st "e - i" "-1"] by (simp add: algebra_simps)
    ultimately show ?thesis using "1.prems" by (subst idxSeq.simps) simp
  next
    case False
    then have "idxSeq (i + st) e st = []" by (subst idxSeq.simps) simp
    moreover have "(e - i) div st = 0" using False "1.prems" by simp
    ultimately show ?thesis using "1.prems" by (subst idxSeq.simps) simp
  qed
qed

text \<open>The counter does not wrap around if the end and the step together are within \<open>int\<close>.\<close>

definition noWrap :: "idxList \<Rightarrow> bool" where
  "noWrap x \<longleftrightarrow> 0 \<le> ix_start x \<and> 0 < ix_step x \<and> ix_end x + ix_step x < 2 ^ 31"

lemma idxValues_seq: "0 \<le> i \<Longrightarrow> 0 < st \<Longrightarrow> e + st < 2 ^ 31 \<Longrightarrow> idxValues i e st = Some (idxSeq i e st)"
proof (induction i e st rule: idxSeq.induct)
  case (1 i e st)
  show ?case
  proof (cases "i \<le> e")
    case True
    then have "c_int (i + st) = i + st" using "1.prems" by (intro c_int_id) simp_all
    then show ?thesis using 1 True by (simp add: idxValues.simps [of i] idxSeq.simps [of i])
  next
    case False
    then show ?thesis by (simp add: idxValues.simps [of i] idxSeq.simps [of i])
  qed
qed

definition seqs :: "idxList list \<Rightarrow> int list" where
  "seqs xs = concat (map (\<lambda>x. idxSeq (ix_start x) (ix_end x) (ix_step x)) xs)"

lemma listValues_seqs: "\<forall>x \<in> set xs. noWrap x \<Longrightarrow> listValues xs = Some (seqs xs)"
  by (induction xs) (simp_all add: seqs_def noWrap_def idxValues_seq)

lemma inIdxLoop_mem:
  assumes "\<forall>x \<in> set xs. noWrap x"
  shows "inIdxLoop jid xs \<longleftrightarrow> LSB_ARRAY_IDX jid \<in> set (seqs xs)"
  using assms by (induction xs) (auto simp: seqs_def noWrap_def idxSeq_mem Let_def)

lemma collectIds_spec:
  "distinct ids \<Longrightarrow> distinct (collectIds jid js ids) \<and> set (collectIds jid js ids) = set ids \<union> LSB_JOBID jid ` set js"
  by (induction jid js ids rule: collectIds.induct) (auto simp: Let_def)

section \<open>The checks\<close>

definition idxOk :: "idxList \<Rightarrow> bool" where
  "idxOk x \<longleftrightarrow> 1 \<le> ix_start x \<and> ix_start x \<le> ix_end x \<and> ix_end x < LSB_MAX_ARRAY_IDX \<and> 1 \<le> ix_step x"

lemma checkIdx_ok:
  assumes "checkIdx False m x err = (y, LSBE_NO_ERROR)"
  shows "err = LSBE_NO_ERROR \<and> idxOk y"
  using assms by (auto simp: checkIdx_def Let_def lsbe_defs idxOk_def split: if_splits)

lemma quot_pos: "0 < (b :: int) \<Longrightarrow> 0 \<le> a \<Longrightarrow> sgn a * sgn b * (\<bar>a\<bar> div \<bar>b\<bar>) = a div b"
  by (cases "a = 0") simp_all

text \<open>The number of elements of a range, and of a list of ranges.\<close>

definition idxSize :: "idxList \<Rightarrow> int" where
  "idxSize x = (ix_end x - ix_start x) div ix_step x + 1"

lemma idxOk_size:
  assumes "idxOk x"
  shows "int (length (idxSeq (ix_start x) (ix_end x) (ix_step x))) = idxSize x"
    and "1 \<le> idxSize x" and "idxSize x \<le> 65534" and "c_int (ix_end x - ix_start x) = ix_end x - ix_start x"
    and "sgn (ix_end x - ix_start x) * sgn (ix_step x) * (\<bar>ix_end x - ix_start x\<bar> div \<bar>ix_step x\<bar>) + 1 = idxSize x"
proof -
  have b: "1 \<le> ix_step x" "0 \<le> ix_end x - ix_start x" "ix_end x - ix_start x < 65534" using assms by (auto simp: idxOk_def LSB_MAX_ARRAY_IDX_def)
  show "int (length (idxSeq (ix_start x) (ix_end x) (ix_step x))) = idxSize x"
    using b idxSeq_length [of "ix_step x" "ix_start x" "ix_end x"] by (simp add: idxSize_def)
  show "1 \<le> idxSize x" using b by (simp add: idxSize_def pos_imp_zdiv_nonneg_iff)
  have "(ix_end x - ix_start x) div ix_step x \<le> ix_end x - ix_start x" using b zdiv_mono2 [of "ix_end x - ix_start x" 1 "ix_step x"] by simp
  then show "idxSize x \<le> 65534" using b(3) by (simp add: idxSize_def)
  show "c_int (ix_end x - ix_start x) = ix_end x - ix_start x" by (rule c_int_id) (use b in simp_all)
  show "sgn (ix_end x - ix_start x) * sgn (ix_step x) * (\<bar>ix_end x - ix_start x\<bar> div \<bar>ix_step x\<bar>) + 1 = idxSize x"
    using quot_pos [of "ix_step x" "ix_end x - ix_start x"] b by (simp only: idxSize_def)
qed

abbreviation idxCount :: "idxList list \<Rightarrow> int" where
  "idxCount xs \<equiv> sum_list (map idxSize xs)"

lemma seqs_length: "\<forall>x \<in> set xs. idxOk x \<Longrightarrow> int (length (seqs xs)) = idxCount xs"
  by (induction xs) (simp_all add: seqs_def idxOk_size(1))

text \<open>An error that one range has set is not taken back.\<close>

lemma checkIdxLoop_err:
  "checkIdxLoop False m xs a e = (zs, n, e') \<Longrightarrow> e \<noteq> LSBE_NO_ERROR \<Longrightarrow> e' \<noteq> LSBE_NO_ERROR"
proof (induction xs arbitrary: a e zs)
  case (Cons x xs)
  obtain y f where y: "checkIdx False m x e = (y, f)" by fastforce
  then have "f \<noteq> LSBE_NO_ERROR" using checkIdx_ok [of m x e y] Cons.prems(2) by auto
  then show ?case using Cons y by (auto simp: Let_def split: prod.splits)
qed simp

lemma checkIdxLoop_ok:
  assumes "checkIdxLoop False m xs a err = (ys, n, LSBE_NO_ERROR)" and "0 \<le> a" and "a + 65534 * int (length xs) < 2 ^ 31"
  shows "err = LSBE_NO_ERROR \<and> length ys = length xs \<and> (\<forall>y \<in> set ys. idxOk y) \<and> n = a + idxCount ys"
  using assms
proof (induction xs arbitrary: a err ys)
  case (Cons x xs)
  obtain y e where y: "checkIdx False m x err = (y, e)" by fastforce
  define d where "d = c_int (ix_end y - ix_start y)"
  define a' where "a' = c_int (a + sgn d * sgn (ix_step y) * (\<bar>d\<bar> div \<bar>ix_step y\<bar>) + 1)"
  obtain zs where z: "checkIdxLoop False m xs a' e = (zs, n, LSBE_NO_ERROR)" "ys = y # zs"
    using Cons.prems(1) y by (auto simp: Let_def a'_def d_def split: prod.splits)
  have e: "e = LSBE_NO_ERROR" using checkIdxLoop_err [OF z(1)] by blast
  then have ok: "idxOk y" "err = LSBE_NO_ERROR" using checkIdx_ok [of m x err y] y by simp_all
  note s = idxOk_size [OF ok(1)]
  have "a' = c_int (a + idxSize y)" using s(5) by (simp add: a'_def d_def s(4) add.assoc)
  also have "\<dots> = a + idxSize y" by (rule c_int_id) (use s(2,3) Cons.prems(2,3) in simp_all)
  finally have a': "a' = a + idxSize y" .
  then have "0 \<le> a'" "a' + 65534 * int (length xs) < 2 ^ 31" using Cons.prems(2,3) s(2,3) by simp_all
  then show ?case using Cons.IH [OF z(1)] ok a' by (simp add: z(2))
qed simp

section \<open>Index specifications as text\<close>

definition digit :: "nat \<Rightarrow> char" where
  "digit d = char_of (48 + d)"

fun dec :: "nat \<Rightarrow> string" where
  "dec n = (if n < 10 then [digit n] else dec (n div 10) @ [digit (n mod 10)])"

declare dec.simps [simp del]

lemma digit_code: "d < 10 \<Longrightarrow> (of_char (digit d) :: nat) = 48 + d"
  by (simp add: digit_def of_char_of)

lemma digit_is: "d < 10 \<Longrightarrow> is_digit (digit d)"
  by (simp add: is_digit_def digit_code)

lemma dec_digits: "dec n \<noteq> [] \<and> (\<forall>c \<in> set (dec n). is_digit c)"
proof (induction n rule: dec.induct)
  case (1 n)
  have "dec n = (if n < 10 then [digit n] else dec (n div 10) @ [digit (n mod 10)])" by (rule dec.simps)
  then show ?case using 1 digit_is [of n] digit_is [of "n mod 10"] by auto
qed

lemma of_char_int: "(of_char c :: int) = int (of_char c)"
  by (simp add: of_char_def)

lemma dec_val: "digits_val (dec n) = int n"
proof (induction n rule: dec.induct)
  case (1 n)
  show ?case
  proof (cases "n < 10")
    case True
    then show ?thesis by (subst dec.simps) (simp add: digits_val_def of_char_int digit_code)
  next
    case False
    have "int n = 10 * int (n div 10) + int (n mod 10)" by presburger
    then show ?thesis using False 1 by (subst dec.simps) (simp add: digits_val_def of_char_int digit_code)
  qed
qed

lemma digit_not: "is_digit c \<Longrightarrow> \<not> c_space c \<and> c \<noteq> CHR ''-'' \<and> c \<noteq> CHR ''+'' \<and> c \<noteq> CHR ''#'' \<and> c \<noteq> CHR ''/'' \<and>
    c \<noteq> CHR ''|'' \<and> c \<noteq> CHR ''&'' \<and> c \<noteq> CHR ''<'' \<and> c \<noteq> CHR ''>'' \<and> c \<noteq> CHR ''='' \<and> c \<noteq> CHR ''.'' \<and>
    c \<noteq> char_of (39 :: nat) \<and> c \<noteq> char_of (34 :: nat) \<and> \<not> is_letter c \<and> \<not> white_space c \<and> \<not> eol c"
  by (auto simp: is_digit_def c_space_def is_letter_def white_space_def eol_def Let_def)

lemma atoi_dec: "n < 2 ^ 31 \<Longrightarrow> atoi (dec n) = int n"
proof -
  assume n: "n < 2 ^ 31"
  obtain c cs where d: "dec n = c # cs" "is_digit c" "\<forall>x \<in> set cs. is_digit x" using dec_digits [of n] by (cases "dec n") auto
  have "strtol10 (dec n) = min (2 ^ 63 - 1) (int n)"
    using digit_not [OF d(2)] dec_val [of n] d by (simp add: strtol10_def Let_def takeWhile_eq_all_conv [THEN iffD2])
  then show ?thesis using n by (simp add: atoi_def c_int_id)
qed

lemma dec_length: "n < 10 ^ k \<Longrightarrow> 0 < k \<Longrightarrow> length (dec n) \<le> k"
proof (induction k arbitrary: n)
  case (Suc k)
  have d: "dec n = (if n < 10 then [digit n] else dec (n div 10) @ [digit (n mod 10)])" by (rule dec.simps)
  show ?case
  proof (cases "n < 10")
    case False
    then have "0 < k" using Suc.prems(1) by (cases k) auto
    moreover have "n div 10 < 10 ^ k" using Suc.prems(1) by (simp add: div_less_iff_less_mult mult.commute)
    ultimately show ?thesis using Suc.IH [of "n div 10"] d False by simp
  qed (simp add: d)
qed simp

text \<open>Text of bytes below 0x80.\<close>

definition ascii :: "string \<Rightarrow> bool" where
  "ascii s \<longleftrightarrow> (\<forall>c \<in> set s. (of_char c :: nat) < 128)"

lemma ascii_simps [simp]: "ascii []" "ascii (c # s) \<longleftrightarrow> (of_char c :: nat) < 128 \<and> ascii s" "ascii (s @ t) \<longleftrightarrow> ascii s \<and> ascii t"
  by (auto simp: ascii_def)

lemma ascii_dec: "ascii (dec n)"
  using dec_digits [of n] by (force simp: ascii_def is_digit_def Let_def)

lemma yylook_ascii: "ascii s \<Longrightarrow> viable s < YYLMAX \<Longrightarrow> yylook s = Some (lexMatch s)"
  by (auto simp: yylook_def ascii_def dest: in_set_takeD)

text \<open>The first token of a text that begins with a number, or with one of the signs of the grammar.\<close>

definition stops :: "string \<Rightarrow> bool" where
  "stops s \<longleftrightarrow> s = [] \<or> \<not> is_digit (hd s) \<and> hd s \<noteq> CHR ''.''"

definition signs :: string where "signs = ''[],-:%''"

lemma lexMatch_number:
  assumes d: "ds \<noteq> []" "\<forall>c \<in> set ds. is_digit c" and r: "stops r"
  shows "lexMatch (ds @ r) = (10, length ds)"
proof -
  obtain c cs where ds: "ds = c # cs" "is_digit c" using d by (cases ds) auto
  note n = digit_not [OF ds(2)]
  have t: "takeWhile is_digit (ds @ r) = ds"
    using d(2) r by (cases r) (auto simp: stops_def takeWhile_eq_all_conv [THEN iffD2])
  then have m: "m_digits (ds @ r) = length ds" by (simp add: m_digits_def)
  have "m_lit ''.'' r = 0" using r by (cases r) (auto simp: m_lit_def stops_def)
  then have real: "m_real (ds @ r) = 0" by (simp add: m_real_def m)
  have z: "m_lit ''#'' (ds @ r) = 0" "m_comment (ds @ r) = 0" "m_lit ''||'' (ds @ r) = 0" "m_lit ''&&'' (ds @ r) = 0"
    "m_lit ''<='' (ds @ r) = 0" "m_lit ''>='' (ds @ r) = 0" "m_lit ''=='' (ds @ r) = 0" "m_lit ''..'' (ds @ r) = 0"
    "m_word (ds @ r) = 0" "m_quoted (char_of (39 :: nat)) (ds @ r) = 0" "m_quoted (char_of (34 :: nat)) (ds @ r) = 0"
    "m_space (ds @ r) = 0" "m_other (ds @ r) = 1"
    using n by (simp_all add: ds m_lit_def m_comment_def m_word_def m_quoted_def m_space_def m_other_def)
  have "1 \<le> length ds" using d(1) by (cases ds) simp_all
  then show ?thesis using d(1) by (simp add: lexMatch_def lexRules_def z m real)
qed

lemma yylex_number:
  assumes d: "ds \<noteq> []" "\<forall>c \<in> set ds. is_digit c" "length ds < YYLMAX" and r: "stops r" "ascii (ds @ r)"
  shows "yylex token (ds @ r) = Some (ICON_TOK, ds, r)"
proof -
  obtain c cs where ds: "ds = c # cs" "is_digit c" using d by (cases ds) auto
  have "viable (ds @ r) = length ds"
    using digit_not [OF ds(2)] lexMatch_number [OF d(1,2) r(1)] by (simp add: viable_def ds m_lit_def)
  then have "yylook (ds @ r) = Some (10, length ds)"
    using yylook_ascii [OF r(2)] d(3) lexMatch_number [OF d(1,2) r(1)] by simp
  then show ?thesis using d(1) by (subst yylex.simps) simp
qed

lemma quote_chars: "char_of (39 :: nat) = CHR 0x27" "char_of (34 :: nat) = CHR 0x22"
  by (simp_all add: char_of_def bit_0)

lemma sign_not: "c \<in> set signs \<Longrightarrow> \<not> is_digit c \<and> c \<noteq> CHR ''#'' \<and> c \<noteq> CHR ''/'' \<and>
    c \<noteq> CHR ''|'' \<and> c \<noteq> CHR ''&'' \<and> c \<noteq> CHR ''<'' \<and> c \<noteq> CHR ''>'' \<and> c \<noteq> CHR ''='' \<and> c \<noteq> CHR ''.'' \<and>
    c \<noteq> char_of (39 :: nat) \<and> c \<noteq> char_of (34 :: nat) \<and> \<not> is_letter c \<and> \<not> white_space c \<and> \<not> eol c \<and> (of_char c :: nat) < 128"
  by (auto simp: signs_def is_digit_def is_letter_def white_space_def eol_def quote_chars)

lemma lexMatch_sign:
  assumes "c \<in> set signs"
  shows "lexMatch (c # r) = (15, 1)"
proof -
  note n = sign_not [OF assms]
  have z: "m_lit ''#'' (c # r) = 0" "m_comment (c # r) = 0" "m_lit ''||'' (c # r) = 0" "m_lit ''&&'' (c # r) = 0"
    "m_lit ''<='' (c # r) = 0" "m_lit ''>='' (c # r) = 0" "m_lit ''=='' (c # r) = 0" "m_lit ''..'' (c # r) = 0"
    "m_word (c # r) = 0" "m_digits (c # r) = 0" "m_real (c # r) = 0"
    "m_quoted (char_of (39 :: nat)) (c # r) = 0" "m_quoted (char_of (34 :: nat)) (c # r) = 0"
    "m_space (c # r) = 0" "m_other (c # r) = 1"
    using n by (simp_all add: m_lit_def m_comment_def m_word_def m_digits_def m_real_def m_quoted_def m_space_def m_other_def)
  show ?thesis by (simp add: lexMatch_def lexRules_def z)
qed

lemma yylex_sign:
  assumes "c \<in> set signs" and "ascii r"
  shows "yylex token (c # r) = Some (of_char c, token, r)"
proof -
  have "viable (c # r) = 1" using sign_not [OF assms(1)] lexMatch_sign [OF assms(1)] by (simp add: viable_def m_lit_def)
  then have "yylook (c # r) = Some (15, 1)"
    using yylook_ascii [of "c # r"] assms(2) sign_not [OF assms(1)] lexMatch_sign [OF assms(1)] by (simp add: YYLMAX_def)
  then show ?thesis by (subst yylex.simps) simp
qed

lemma idxTokens_number:
  assumes n: "n < 2 ^ 31" and r: "stops r" "ascii r"
  shows "idxTokens token (dec n @ r) = map_option ((#) (ICON (int n))) (idxTokens (dec n) r)"
proof -
  have "length (dec n) < YYLMAX" using n dec_length [of n 10] by (simp add: YYLMAX_def)
  then have "yylex token (dec n @ r) = Some (ICON_TOK, dec n, r)"
    using dec_digits [of n] ascii_dec [of n] r by (intro yylex_number) simp_all
  then show ?thesis using dec_digits [of n] n by (subst idxTokens.simps) (simp add: idxToken_def atoi_dec tok_codes)
qed

lemma idxTokens_sign:
  "c \<in> set signs \<Longrightarrow> ascii r \<Longrightarrow> idxTokens token (c # r) = map_option ((#) (idxToken (of_char c) token)) (idxTokens token r)"
  by (subst idxTokens.simps) (auto simp: yylex_sign signs_def)

lemma sign_tokens:
  "idxToken 91 token = LBRACK" "idxToken 93 token = RBRACK" "idxToken 44 token = COMMA" "idxToken 45 token = DASH"
  "idxToken 58 token = COLON" "idxToken 37 token = PERCENT"
  by (simp_all add: idxToken_def tok_codes)

lemma idxTokens_nil [simp]: "idxTokens token [] = Some []"
  by (subst idxTokens.simps) (simp add: yylex.simps [of token "[]"])

text \<open>An index list as text: every range with its end and its step.\<close>

definition showIdx :: "idxList \<Rightarrow> string" where
  "showIdx x = dec (nat (ix_start x)) @ ''-'' @ dec (nat (ix_end x)) @ '':'' @ dec (nat (ix_step x))"

fun showIdxs :: "idxList list \<Rightarrow> string" where
  "showIdxs [] = []"
| "showIdxs [x] = showIdx x"
| "showIdxs (x # y # ys) = showIdx x @ '','' @ showIdxs (y # ys)"

definition showSpec :: "idxList list \<Rightarrow> nat \<Rightarrow> string" where
  "showSpec xs limit = ''['' @ showIdxs xs @ '']%'' @ dec limit"

definition smallIdx :: "idxList \<Rightarrow> bool" where
  "smallIdx x \<longleftrightarrow> boundOk x \<and> ix_end x < 2 ^ 31 \<and> ix_step x < 2 ^ 31"

lemma stops_sign: "c \<in> set signs \<Longrightarrow> stops (c # r)"
  by (auto simp: signs_def stops_def is_digit_def)

lemma signs_in: "CHR ''['' \<in> set signs" "CHR '']'' \<in> set signs" "CHR '','' \<in> set signs" "CHR ''-'' \<in> set signs"
  "CHR '':'' \<in> set signs" "CHR ''%'' \<in> set signs"
  by (simp_all add: signs_def)

lemma ascii_show: "ascii (showIdx x)" "ascii (showIdxs xs)" "ascii (showSpec xs limit)"
proof -
  show x: "ascii (showIdx x)" for x by (simp add: showIdx_def ascii_dec)
  show "ascii (showIdxs xs)" by (induction xs rule: showIdxs.induct) (simp_all add: x)
  then show "ascii (showSpec xs limit)" by (simp add: showSpec_def ascii_dec)
qed

lemma showIdx_tokens:
  assumes "smallIdx x" and "stops r" and "ascii r"
  shows "idxTokens token (showIdx x @ r) =
    map_option (\<lambda>ts. [ICON (ix_start x), DASH, ICON (ix_end x), COLON, ICON (ix_step x)] @ ts) (idxTokens (dec (nat (ix_step x))) r)"
proof -
  have b: "nat (ix_start x) < 2 ^ 31" "nat (ix_end x) < 2 ^ 31" "nat (ix_step x) < 2 ^ 31" "0 \<le> ix_start x" "0 \<le> ix_end x" "0 \<le> ix_step x"
    using assms(1) by (auto simp: smallIdx_def boundOk_def nat_less_iff)
  show ?thesis
    using b assms(2,3)
    by (simp add: showIdx_def idxTokens_number idxTokens_sign sign_tokens stops_sign signs_in ascii_dec option.map_comp comp_def)
qed

lemma region_range: "region (ICON a # DASH # ICON b # ts) = Some (\<lparr>ix_start = a, ix_end = b, ix_step = 1\<rparr>, ts)"
  by (simp add: region_def icon_def tok_def)

lemma index_range:
  assumes "boundOk x"
  shows "index ([ICON (ix_start x), DASH, ICON (ix_end x), COLON, ICON (ix_step x)] @ ts) = Some (x, ts)"
  using assms by (cases x) (simp add: index_def region_range, simp add: tok_def icon_def)

text \<open>Whatever follows the closing bracket, the ranges are read and the rest is left.\<close>

lemma showIdxs_parse:
  assumes "xs \<noteq> []" and "\<forall>x \<in> set xs. smallIdx x" and "ascii r"
    and rest: "\<And>token. \<exists>token'. idxTokens token r = Some (f token')"
  shows "\<exists>ts token'. idxTokens token (showIdxs xs @ CHR '']'' # r) = Some ts \<and> indcies ts = Some (xs, RBRACK # f token')"
  using assms(1,2)
proof (induction xs arbitrary: token rule: showIdxs.induct)
  case (2 x)
  then have x: "smallIdx x" "boundOk x" by (simp_all add: smallIdx_def)
  obtain token' where t: "idxTokens (dec (nat (ix_step x))) r = Some (f token')" using rest by blast
  then have "idxTokens token (showIdxs [x] @ CHR '']'' # r) =
      Some ([ICON (ix_start x), DASH, ICON (ix_end x), COLON, ICON (ix_step x)] @ RBRACK # f token')"
    using x assms(3) by (simp add: showIdx_tokens stops_sign signs_in idxTokens_sign sign_tokens)
  moreover have "indcies ([ICON (ix_start x), DASH, ICON (ix_end x), COLON, ICON (ix_step x)] @ RBRACK # f token') = Some ([x], RBRACK # f token')"
    using x by (subst indcies.simps) (simp only: index_range, simp add: tok_def)
  ultimately show ?case by blast
next
  case (3 x y ys)
  then have x: "smallIdx x" "boundOk x" by (simp_all add: smallIdx_def)
  obtain ts token' where t: "idxTokens (dec (nat (ix_step x))) (showIdxs (y # ys) @ CHR '']'' # r) = Some ts"
    "indcies ts = Some (y # ys, RBRACK # f token')" using "3.IH" "3.prems" by fastforce
  then have "idxTokens token (showIdxs (x # y # ys) @ CHR '']'' # r) =
      Some ([ICON (ix_start x), DASH, ICON (ix_end x), COLON, ICON (ix_step x)] @ COMMA # ts)"
    using x assms(3) by (simp add: showIdx_tokens stops_sign signs_in idxTokens_sign sign_tokens ascii_show del: showIdxs.simps(2))
  moreover have "indcies ([ICON (ix_start x), DASH, ICON (ix_end x), COLON, ICON (ix_step x)] @ COMMA # ts) = Some (x # y # ys, RBRACK # f token')"
    using x t(2) by (subst indcies.simps) (simp only: index_range, simp add: tok_def)
  ultimately show ?case by blast
qed simp

lemma spec_parse:
  assumes "xs \<noteq> []" and "\<forall>x \<in> set xs. smallIdx x" and "ascii r"
    and "\<And>token. idxTokens token r = Some [PERCENT, ICON limit]"
  shows "\<exists>ts. idxTokens token (''['' @ showIdxs xs @ '']'' @ r) = Some ts \<and> idxparse ts m = Some (xs, limit)"
proof -
  obtain ts where t: "idxTokens token (showIdxs xs @ CHR '']'' # r) = Some ts" "indcies ts = Some (xs, RBRACK # [PERCENT, ICON limit])"
    using showIdxs_parse [OF assms(1-3), of "\<lambda>_ :: unit. [PERCENT, ICON limit]" token] assms(4) by blast
  then have "idxTokens token (''['' @ showIdxs xs @ '']'' @ r) = Some (LBRACK # ts)"
    using assms(3) by (simp add: idxTokens_sign signs_in sign_tokens ascii_show)
  moreover have "idxparse (LBRACK # ts) m = Some (xs, limit)"
    using t(2) by (simp add: idxparse_def arrayInd_def) (simp add: tok_def icon_def)
  ultimately show ?thesis by blast
qed

lemma showSpec_parse:
  assumes "xs \<noteq> []" and "\<forall>x \<in> set xs. smallIdx x" and "limit < 2 ^ 31"
  shows "\<exists>ts. idxTokens token (showSpec xs limit) = Some ts \<and> idxparse ts m = Some (xs, int limit)"
proof -
  have "idxTokens t (CHR ''%'' # dec limit) = Some [PERCENT, ICON (int limit)]" for t
    using idxTokens_number [OF assms(3), of "[]"] by (simp add: idxTokens_sign signs_in sign_tokens stops_def ascii_dec)
  then show ?thesis using spec_parse [OF assms(1,2), of "CHR ''%'' # dec limit" "int limit" token m] by (simp add: showSpec_def ascii_dec)
qed

text \<open>A quoted string has the code of the percent sign.\<close>

lemma yylex_quoted:
  assumes q: "\<forall>c \<in> set q \<union> set r. \<not> eol c \<and> c \<noteq> CHR 0x22" and a: "ascii q" "ascii r" and len: "length q + length r + 2 < YYLMAX"
  shows "\<exists>token'. yylex token (CHR 0x22 # q @ CHR 0x22 # r) = Some (ESTRING, token', r)"
proof -
  let ?s = "CHR 0x22 # q @ CHR 0x22 # r"
  have e: "\<not> eol (CHR 0x22)" by (simp add: eol_def)
  have l: "line (q @ CHR 0x22 # r) = q @ CHR 0x22 # r" "line ?s = ?s"
    unfolding line_def using q e by (simp_all add: takeWhile_eq_all_conv)
  moreover have "dropWhile (\<lambda>c. c \<noteq> CHR 0x22) (rev r @ CHR 0x22 # rev q) = CHR 0x22 # rev q"
    using q by (subst dropWhile_append2) auto
  ultimately have m: "m_quoted (char_of (34 :: nat)) ?s = length q + 2" by (simp add: m_quoted_def quote_chars)
  have z: "m_lit ''#'' ?s = 0" "m_comment ?s = 0" "m_lit ''||'' ?s = 0" "m_lit ''&&'' ?s = 0"
    "m_lit ''<='' ?s = 0" "m_lit ''>='' ?s = 0" "m_lit ''=='' ?s = 0" "m_lit ''..'' ?s = 0"
    "m_word ?s = 0" "m_digits ?s = 0" "m_real ?s = 0" "m_quoted (char_of (39 :: nat)) ?s = 0"
    "m_space ?s = 0" "m_other ?s = 1"
    using e by (simp_all add: m_lit_def m_comment_def m_word_def m_digits_def m_real_def m_quoted_def m_space_def m_other_def
        is_letter_def is_digit_def white_space_def quote_chars)
  have "lexMatch ?s = (13, length q + 2)" by (simp add: lexMatch_def lexRules_def z m)
  moreover have "viable ?s < YYLMAX" using len l(2) by (simp add: viable_def quote_chars)
  ultimately have "yylook ?s = Some (13, length q + 2)" using yylook_ascii [of ?s] a by simp
  then show ?thesis by (subst yylex.simps) simp
qed

lemma dec_plain: "\<forall>c \<in> set (dec n). \<not> eol c \<and> c \<noteq> CHR 0x22"
  using dec_digits [of n] digit_not quote_chars(2) by metis

lemma quoted_parse:
  assumes "xs \<noteq> []" and "\<forall>x \<in> set xs. smallIdx x" and "limit < 2 ^ 31" and q: "\<forall>c \<in> set q. \<not> eol c \<and> c \<noteq> CHR 0x22"
    and a: "ascii q" "length q < 180"
  shows "\<exists>ts. idxTokens token (''['' @ showIdxs xs @ '']'' @ CHR 0x22 # q @ CHR 0x22 # dec limit) = Some ts \<and> idxparse ts m = Some (xs, int limit)"
proof (rule spec_parse [OF assms(1,2)])
  have "length (dec limit) \<le> 10" using assms(3) dec_length [of limit 10] by simp
  then have "length q + length (dec limit) + 2 < YYLMAX" using a(2) by (simp add: YYLMAX_def)
  then obtain token' where "yylex t (CHR 0x22 # q @ CHR 0x22 # dec limit) = Some (ESTRING, token' t, dec limit)" for t
    using yylex_quoted [of q "dec limit"] q dec_plain [of limit] a(1) ascii_dec by (metis Un_iff)
  then show "idxTokens t (CHR 0x22 # q @ CHR 0x22 # dec limit) = Some [PERCENT, ICON (int limit)]" for t
    using idxTokens_number [OF assms(3), of "[]"] by (subst idxTokens.simps) (simp add: idxToken_def tok_codes stops_def)
  show "ascii (CHR 0x22 # q @ CHR 0x22 # dec limit)" using a ascii_dec by simp
qed

lemma checkIdxLoop_accepts:
  assumes "\<forall>x \<in> set xs. idxOk x" and "0 \<le> a" and "a + idxCount xs < 2 ^ 31"
  shows "checkIdxLoop replay m xs a LSBE_NO_ERROR = (xs, a + idxCount xs, LSBE_NO_ERROR)"
  using assms
proof (induction xs arbitrary: a)
  case (Cons x xs)
  have x: "idxOk x" using Cons.prems(1) by simp
  note s = idxOk_size [OF x]
  have "ix_end x \<noteq> INFINIT_INT" using x by (auto simp: idxOk_def LSB_MAX_ARRAY_IDX_def INFINIT_INT_def)
  then have c: "checkIdx replay m x LSBE_NO_ERROR = (x, LSBE_NO_ERROR)" using x by (auto simp: checkIdx_def idxOk_def Let_def)
  have "0 \<le> idxCount xs" using Cons.prems(1) idxOk_size(2) by (intro sum_list_nonneg) fastforce
  then have b: "0 \<le> a + idxSize x" "a + idxSize x + idxCount xs < 2 ^ 31" "a + idxSize x < 2 ^ 31" using Cons.prems(2,3) s(2) by simp_all
  have "c_int (a + sgn (ix_end x - ix_start x) * sgn (ix_step x) * (\<bar>ix_end x - ix_start x\<bar> div \<bar>ix_step x\<bar>) + 1) = a + idxSize x"
    using c_int_id [of "a + idxSize x"] b s(5) by (simp add: add.assoc)
  then show ?case using Cons.IH [of "a + idxSize x"] Cons.prems(1) b by (simp add: c s(4) Let_def)
qed simp

lemma reads_spec:
  assumes "CHR ''['' \<notin> set name" and "xs \<noteq> []" and "\<forall>x \<in> set xs. idxOk x \<and> ix_step x < 2 ^ 31"
    and "idxCount xs \<le> maxJobArraySize" and "maxJobArraySize < 2 ^ 31" and "limit < 2 ^ 31"
  shows "parseJobArrayIndex token replay maxJobArraySize (name @ showSpec xs limit) = Some (Some xs, LSBE_NO_ERROR, Some (int limit))"
proof -
  have d: "dropWhile (\<lambda>c. c \<noteq> CHR ''['') (name @ showSpec xs limit) = showSpec xs limit"
    using assms(1) by (induction name) (auto simp: showSpec_def)
  have "\<forall>x \<in> set xs. smallIdx x" using assms(3) by (auto simp: smallIdx_def idxOk_def boundOk_def LSB_MAX_ARRAY_IDX_def)
  then obtain ts where p: "idxTokens token (showSpec xs limit) = Some ts" "idxparse ts INFINIT_INT = Some (xs, int limit)"
    using showSpec_parse [OF assms(2) _ assms(6)] by blast
  have "checkIdxLoop replay maxJobArraySize xs 0 LSBE_NO_ERROR = (xs, idxCount xs, LSBE_NO_ERROR)"
    using checkIdxLoop_accepts [of xs 0 replay maxJobArraySize] assms(3-5) by simp
  moreover obtain c cs where "showSpec xs limit = c # cs" by (simp add: showSpec_def)
  ultimately show ?thesis using d p assms(4) by (simp add: parseJobArrayIndex_def)
qed

text \<open>What acceptance means for the ranges.\<close>

lemma accepts_spec:
  assumes "parseJobArrayIndex token False maxJobArraySize job_name = Some (Some xs, err, limit)" and "length xs \<le> 32768"
  shows "err = LSBE_NO_ERROR \<and> (\<forall>x \<in> set xs. idxOk x) \<and> idxCount xs \<le> maxJobArraySize"
proof -
  obtain c cs where c: "dropWhile (\<lambda>c. c \<noteq> CHR ''['') job_name = c # cs"
    using assms(1) by (cases "dropWhile (\<lambda>c. c \<noteq> CHR ''['') job_name") (auto simp: parseJobArrayIndex_def)
  obtain ts where t: "idxTokens token (c # cs) = Some ts"
    using assms(1) by (cases "idxTokens token (c # cs)") (auto simp: parseJobArrayIndex_def c)
  obtain ys m where p: "idxparse ts INFINIT_INT = Some (ys, m)"
    using assms(1) by (cases "idxparse ts INFINIT_INT") (auto simp: parseJobArrayIndex_def c t)
  obtain zs n e where l: "checkIdxLoop False maxJobArraySize ys 0 LSBE_NO_ERROR = (zs, n, e)" by (metis prod_cases3)
  have big: "LSBE_BIG_IDX \<noteq> LSBE_NO_ERROR" by (simp add: lsbe_defs)
  have r: "e = LSBE_NO_ERROR" "zs = xs" "n \<le> maxJobArraySize" "err = LSBE_NO_ERROR"
    using assms(1) big by (auto simp: parseJobArrayIndex_def c t p l Let_def split: if_splits)
  have "checkIdxLoop b k us a f = (vs, w, g) \<Longrightarrow> length us = length vs" for b k us a f vs w g
    by (induction us arbitrary: a f vs) (auto simp: Let_def split: prod.splits)
  then have "length ys = length zs" using l by blast
  then show ?thesis using checkIdxLoop_ok [of maxJobArraySize ys 0 LSBE_NO_ERROR zs n] l r assms(2) by simp
qed

lemmas dec_eval = dec.simps digit_def char_of_def bit_0

definition idx192 :: idxList where "idx192 = \<lparr>ix_start = 1, ix_end = 9, ix_step = 2\<rparr>"

lemma idx192_facts: "idxOk idx192" "ix_step idx192 = 2" "idxSize idx192 = 5" "showSpec [idx192] 3 = ''[1-9:2]%3''"
  by (simp_all add: idx192_def idxOk_def LSB_MAX_ARRAY_IDX_def idxSize_def showSpec_def showIdx_def dec_eval)

lemma idx192_parse: "parseJobArrayIndex [] False 1000 ''job[1-9:2]%3'' = Some (Some [idx192], LSBE_NO_ERROR, Some 3)"
  using reads_spec [of "''job''" "[idx192]" 1000 3 "[]" False] idx192_facts by simp

section \<open>Properties\<close>

text \<open>
  C12. The identifier of an array element determines the array and the index:
  packing a job number below 2^31 and an index up to \<open>LSB_MAX_ARRAY_IDX\<close> into 64
  bits and taking the parts out again gives both back.
\<close>

theorem LSB_JOBID_roundtrip:
  assumes "0 \<le> jid" and "jid < 2 ^ 31" and "0 \<le> idx" and "idx \<le> LSB_MAX_ARRAY_IDX"
  shows "LSB_ARRAY_JOBID (LSB_JOBID jid idx) = jid \<and> LSB_ARRAY_IDX (LSB_JOBID jid idx) = idx"
  using jobid_parts [OF assms] by simp

theorem LSB_JOBID_roundtrip_witness:
  "LSB_ARRAY_JOBID (LSB_JOBID 101 7) = 101 \<and> LSB_ARRAY_IDX (LSB_JOBID 101 7) = 7"
  by (rule LSB_JOBID_roundtrip) (simp_all add: LSB_MAX_ARRAY_IDX_def)

text \<open>
  C9. The arithmetic test of \<open>inIdxList\<close> agrees with the loops that create and
  collect the elements, as long as the \<open>int\<close> counter of these loops does not wrap
  around (end plus step below 2^31 for every range): the loops end, and an
  identifier passes the test exactly if its index is one of the values they visit.
\<close>

theorem inIdxList_values:
  assumes "\<forall>x \<in> set xs. 0 \<le> ix_start x \<and> 0 < ix_step x \<and> ix_end x + ix_step x < 2 ^ 31"
  shows "\<exists>is. listValues xs = Some is \<and> (inIdxList jid (Some xs) \<longleftrightarrow> LSB_ARRAY_IDX jid \<in> set is)"
proof -
  have "\<forall>x \<in> set xs. noWrap x" using assms by (simp add: noWrap_def)
  then show ?thesis using listValues_seqs [of xs] inIdxLoop_mem [of xs jid] by (simp add: inIdxList_def)
qed

theorem inIdxList_values_witness:
  "\<exists>is. listValues [\<lparr>ix_start = 1, ix_end = 9, ix_step = 2\<rparr>] = Some is \<and> 5 \<in> set is \<and>
     inIdxList (LSB_JOBID 101 5) (Some [\<lparr>ix_start = 1, ix_end = 9, ix_step = 2\<rparr>])"
proof -
  have "LSB_ARRAY_IDX (LSB_JOBID 101 5) = 5" by (rule jobid_parts) (simp_all add: LSB_MAX_ARRAY_IDX_def)
  then show ?thesis
    using inIdxList_values [of "[\<lparr>ix_start = 1, ix_end = 9, ix_step = 2\<rparr>]" "LSB_JOBID 101 5"] by (auto simp: inIdxList_def)
qed

text \<open>
  C6. Outside the replay of the log, and for a list of at most 32768 ranges, every
  list that \<open>parseJobArrayIndex\<close> accepts has ranges from 1 up to below
  \<open>LSB_MAX_ARRAY_IDX\<close> with positive steps.  If moreover no step exceeds
  2^31 - 65536, so that the \<open>int\<close> counter of the loops does not wrap around, the
  loops over the ranges end, visit only indexes that fit an identifier, and create
  at most \<open>maxJobArraySize\<close> elements.
\<close>

theorem parseJobArrayIndex_bounds:
  assumes "parseJobArrayIndex token False maxJobArraySize job_name = Some (Some xs, err, limit)" and "length xs \<le> 32768"
  shows "err = LSBE_NO_ERROR \<and>
    (\<forall>x \<in> set xs. 1 \<le> ix_start x \<and> ix_start x \<le> ix_end x \<and> ix_end x < LSB_MAX_ARRAY_IDX \<and> 1 \<le> ix_step x) \<and>
    ((\<forall>x \<in> set xs. ix_step x \<le> 2 ^ 31 - 65536) \<longrightarrow>
      (\<exists>is. listValues xs = Some is \<and> (\<forall>i \<in> set is. 1 \<le> i \<and> i < LSB_MAX_ARRAY_IDX) \<and> int (length is) \<le> maxJobArraySize))"
proof -
  note a = accepts_spec [OF assms]
  have "\<exists>is. listValues xs = Some is \<and> (\<forall>i \<in> set is. 1 \<le> i \<and> i < LSB_MAX_ARRAY_IDX) \<and> int (length is) \<le> maxJobArraySize"
    if st: "\<forall>x \<in> set xs. ix_step x \<le> 2 ^ 31 - 65536"
  proof (intro exI conjI)
    have "noWrap x" if "x \<in> set xs" for x using a st that by (force simp: noWrap_def idxOk_def LSB_MAX_ARRAY_IDX_def)
    then show "listValues xs = Some (seqs xs)" using listValues_seqs by blast
    show "\<forall>i \<in> set (seqs xs). 1 \<le> i \<and> i < LSB_MAX_ARRAY_IDX" using a by (force simp: seqs_def idxOk_def idxSeq_mem)
    show "int (length (seqs xs)) \<le> maxJobArraySize" using a seqs_length [of xs] by simp
  qed
  then show ?thesis using a by (auto simp: idxOk_def)
qed

theorem parseJobArrayIndex_bounds_witness:
  "\<exists>xs is. parseJobArrayIndex [] False 1000 ''job[1-9:2]%3'' = Some (Some xs, LSBE_NO_ERROR, Some 3) \<and>
     listValues xs = Some is \<and> (\<forall>i \<in> set is. 1 \<le> i \<and> i < LSB_MAX_ARRAY_IDX) \<and> int (length is) \<le> 1000"
  using parseJobArrayIndex_bounds [OF idx192_parse] idx192_parse by (simp add: idx192_facts)

text \<open>
  C10. The step is not bounded: \<open>parseJobArrayIndex\<close> accepts \<open>[5-10:2147483647]\<close> as an
  array of one element, but the counter of the loop that creates the elements
  wraps around, and the loop also visits 3, 1 and four negative indexes.
\<close>

theorem array_step_wraps:
  "parseJobArrayIndex [] False 1000 ''job[5-10:2147483647]%1'' =
     Some (Some [\<lparr>ix_start = 5, ix_end = 10, ix_step = 2147483647\<rparr>], LSBE_NO_ERROR, Some 1) \<and>
   listValues [\<lparr>ix_start = 5, ix_end = 10, ix_step = 2147483647\<rparr>] =
     Some [5, -2147483644, 3, -2147483646, 1, -2147483648, -1]"
proof
  let ?x = "\<lparr>ix_start = 5, ix_end = 10, ix_step = 2147483647\<rparr>"
  have "idxOk ?x" "idxSize ?x = 1" by (simp_all add: idxOk_def LSB_MAX_ARRAY_IDX_def idxSize_def)
  then have "parseJobArrayIndex [] False 1000 (''job'' @ showSpec [?x] 1) = Some (Some [?x], LSBE_NO_ERROR, Some 1)"
    using reads_spec [of "''job''" "[?x]" 1000 1 "[]" False] by simp
  then show "parseJobArrayIndex [] False 1000 ''job[5-10:2147483647]%1'' = Some (Some [?x], LSBE_NO_ERROR, Some 1)"
    by (simp add: showSpec_def showIdx_def dec_eval)
  have w: "c_int 2147483652 = -2147483644" "c_int 3 = 3" "c_int 2147483650 = -2147483646" "c_int 1 = 1"
    "c_int 2147483648 = -2147483648" "c_int (-1) = -1" "c_int 2147483646 = 2147483646"
    by (simp_all add: c_int_def int_word_sint)
  show "listValues [?x] = Some [5, -2147483644, 3, -2147483646, 1, -2147483648, -1]"
    by (simp add: idxValues.simps [of 5] idxValues.simps [of "-2147483644"] idxValues.simps [of 3] idxValues.simps [of "-2147483646"]
        idxValues.simps [of 1] idxValues.simps [of "-2147483648"] idxValues.simps [of "-1"] idxValues.simps [of 2147483646] w)
qed



text \<open>
  C14. A quoted string after the closing bracket is taken for the percent sign,
  because the lexer gives both the code 37: whatever the string is (on one line,
  in bytes below 0x80 and short enough for the buffers of the lexer), the number
  behind it becomes the limit of running elements instead of a syntax error.
\<close>

theorem quoted_limit_accepted:
  assumes "xs \<noteq> []" and "\<forall>x \<in> set xs. idxOk x \<and> ix_step x < 2 ^ 31" and "limit < 2 ^ 31"
    and "\<forall>c \<in> set q. \<not> eol c \<and> c \<noteq> CHR 0x22 \<and> (of_char c :: nat) < 128" and "length q < 180"
  shows "Option.bind (idxTokens token (''['' @ showIdxs xs @ '']'' @ CHR 0x22 # q @ CHR 0x22 # dec limit)) (\<lambda>ts. idxparse ts maxJLimit) =
    Option.bind (idxTokens token (showSpec xs limit)) (\<lambda>ts. idxparse ts maxJLimit) \<and>
    Option.bind (idxTokens token (showSpec xs limit)) (\<lambda>ts. idxparse ts maxJLimit) = Some (xs, int limit)"
proof -
  have "\<forall>x \<in> set xs. smallIdx x" using assms(2) by (auto simp: smallIdx_def idxOk_def boundOk_def LSB_MAX_ARRAY_IDX_def)
  moreover have "ascii q" "\<forall>c \<in> set q. \<not> eol c \<and> c \<noteq> CHR 0x22" using assms(4) by (simp_all add: ascii_def)
  ultimately obtain ts us where
    "idxTokens token (''['' @ showIdxs xs @ '']'' @ CHR 0x22 # q @ CHR 0x22 # dec limit) = Some ts" "idxparse ts maxJLimit = Some (xs, int limit)"
    "idxTokens token (showSpec xs limit) = Some us" "idxparse us maxJLimit = Some (xs, int limit)"
    using quoted_parse [OF assms(1) _ assms(3), of q token maxJLimit] showSpec_parse [OF assms(1) _ assms(3), of token maxJLimit] assms(5)
    by blast
  then show ?thesis by (simp only: Option.bind.simps)
qed

theorem quoted_limit_accepted_witness:
  "Option.bind (idxTokens [] (''[1-9:2]'' @ [CHR 0x22] @ ''x'' @ [CHR 0x22] @ ''3'')) (\<lambda>ts. idxparse ts 0) =
   Option.bind (idxTokens [] ''[1-9:2]%3'') (\<lambda>ts. idxparse ts 0)"
proof -
  have "''['' @ showIdxs [idx192] @ '']'' @ CHR 0x22 # ''x'' @ CHR 0x22 # dec 3 = ''[1-9:2]'' @ [CHR 0x22] @ ''x'' @ [CHR 0x22] @ ''3''"
    by (simp add: idx192_def showIdx_def dec_eval)
  then show ?thesis
    using quoted_limit_accepted [of "[idx192]" 3 "''x''" "[]" 0] by (simp add: idx192_facts eol_def)
qed

end
